(* ===== verification/Hook_Enum.thy ===== *)
theory Hook_Enum
  imports Main "HOL-Library.Word"
begin

text \<open>
  The enumerations and constant tables of \<^verbatim>\<open>src/ripple/app/hook/Enum.h\<close>: the log codes a
  refused \<^verbatim>\<open>SetHook\<close> reports, the return codes of the hook API with their numeric values, the
  keylet codes, the API limits, and the table of importable functions with their signatures.
\<close>

section \<open>Codes\<close>

text \<open>
  A log code is a value of its own type, known by the number it has in the source; the return
  codes and keylet codes are the integers the API passes to and takes from a hook.
\<close>

datatype hook_log_code = Log nat

abbreviation AMENDMENT_DISABLED :: hook_log_code where "AMENDMENT_DISABLED \<equiv> Log 1"
abbreviation API_ILLEGAL :: hook_log_code where "API_ILLEGAL \<equiv> Log 2"
abbreviation API_INVALID :: hook_log_code where "API_INVALID \<equiv> Log 3"
abbreviation API_MISSING :: hook_log_code where "API_MISSING \<equiv> Log 4"
abbreviation BLOCK_ILLEGAL :: hook_log_code where "BLOCK_ILLEGAL \<equiv> Log 5"
abbreviation CALL_ILLEGAL :: hook_log_code where "CALL_ILLEGAL \<equiv> Log 6"
abbreviation CALL_INDIRECT :: hook_log_code where "CALL_INDIRECT \<equiv> Log 7"
abbreviation CREATE_FLAG :: hook_log_code where "CREATE_FLAG \<equiv> Log 8"
abbreviation DELETE_FIELD :: hook_log_code where "DELETE_FIELD \<equiv> Log 9"
abbreviation DELETE_FLAG :: hook_log_code where "DELETE_FLAG \<equiv> Log 10"
abbreviation DELETE_NOTHING :: hook_log_code where "DELETE_NOTHING \<equiv> Log 11"
abbreviation EXPORTS_MISSING :: hook_log_code where "EXPORTS_MISSING \<equiv> Log 12"
abbreviation EXPORT_CBAK_FUNC :: hook_log_code where "EXPORT_CBAK_FUNC \<equiv> Log 13"
abbreviation EXPORT_HOOK_FUNC :: hook_log_code where "EXPORT_HOOK_FUNC \<equiv> Log 14"
abbreviation EXPORT_MISSING :: hook_log_code where "EXPORT_MISSING \<equiv> Log 15"
abbreviation FLAGS_INVALID :: hook_log_code where "FLAGS_INVALID \<equiv> Log 16"
abbreviation FUNCS_MISSING :: hook_log_code where "FUNCS_MISSING \<equiv> Log 17"
abbreviation FUNC_PARAM_INVALID :: hook_log_code where "FUNC_PARAM_INVALID \<equiv> Log 18"
abbreviation FUNC_RETURN_COUNT :: hook_log_code where "FUNC_RETURN_COUNT \<equiv> Log 19"
abbreviation FUNC_RETURN_INVALID :: hook_log_code where "FUNC_RETURN_INVALID \<equiv> Log 20"
abbreviation FUNC_TYPELESS :: hook_log_code where "FUNC_TYPELESS \<equiv> Log 21"
abbreviation FUNC_TYPE_INVALID :: hook_log_code where "FUNC_TYPE_INVALID \<equiv> Log 22"
abbreviation GRANTS_EMPTY :: hook_log_code where "GRANTS_EMPTY \<equiv> Log 23"
abbreviation GRANTS_EXCESS :: hook_log_code where "GRANTS_EXCESS \<equiv> Log 24"
abbreviation GRANTS_FIELD :: hook_log_code where "GRANTS_FIELD \<equiv> Log 25"
abbreviation GRANTS_ILLEGAL :: hook_log_code where "GRANTS_ILLEGAL \<equiv> Log 26"
abbreviation GUARD_IMPORT :: hook_log_code where "GUARD_IMPORT \<equiv> Log 27"
abbreviation GUARD_MISSING :: hook_log_code where "GUARD_MISSING \<equiv> Log 28"
abbreviation GUARD_PARAMETERS :: hook_log_code where "GUARD_PARAMETERS \<equiv> Log 29"
abbreviation HASH_OR_CODE :: hook_log_code where "HASH_OR_CODE \<equiv> Log 30"
abbreviation HOOKON_MISSING :: hook_log_code where "HOOKON_MISSING \<equiv> Log 31"
abbreviation HOOKS_ARRAY_BAD :: hook_log_code where "HOOKS_ARRAY_BAD \<equiv> Log 32"
abbreviation HOOKS_ARRAY_BLANK :: hook_log_code where "HOOKS_ARRAY_BLANK \<equiv> Log 33"
abbreviation HOOKS_ARRAY_EMPTY :: hook_log_code where "HOOKS_ARRAY_EMPTY \<equiv> Log 34"
abbreviation HOOKS_ARRAY_MISSING :: hook_log_code where "HOOKS_ARRAY_MISSING \<equiv> Log 35"
abbreviation HOOKS_ARRAY_TOO_BIG :: hook_log_code where "HOOKS_ARRAY_TOO_BIG \<equiv> Log 36"
abbreviation HOOK_ADD :: hook_log_code where "HOOK_ADD \<equiv> Log 37"
abbreviation HOOK_DEF_MISSING :: hook_log_code where "HOOK_DEF_MISSING \<equiv> Log 38"
abbreviation HOOK_DELETE :: hook_log_code where "HOOK_DELETE \<equiv> Log 39"
abbreviation HOOK_INVALID_FIELD :: hook_log_code where "HOOK_INVALID_FIELD \<equiv> Log 40"
abbreviation HOOK_PARAMS_COUNT :: hook_log_code where "HOOK_PARAMS_COUNT \<equiv> Log 41"
abbreviation HOOK_PARAM_SIZE :: hook_log_code where "HOOK_PARAM_SIZE \<equiv> Log 42"
abbreviation IMPORTS_MISSING :: hook_log_code where "IMPORTS_MISSING \<equiv> Log 43"
abbreviation IMPORT_ILLEGAL :: hook_log_code where "IMPORT_ILLEGAL \<equiv> Log 44"
abbreviation IMPORT_MODULE_BAD :: hook_log_code where "IMPORT_MODULE_BAD \<equiv> Log 45"
abbreviation IMPORT_MODULE_ENV :: hook_log_code where "IMPORT_MODULE_ENV \<equiv> Log 46"
abbreviation IMPORT_NAME_BAD :: hook_log_code where "IMPORT_NAME_BAD \<equiv> Log 47"
abbreviation INSTALL_FLAG :: hook_log_code where "INSTALL_FLAG \<equiv> Log 48"
abbreviation INSTALL_MISSING :: hook_log_code where "INSTALL_MISSING \<equiv> Log 49"
abbreviation INSTRUCTION_COUNT :: hook_log_code where "INSTRUCTION_COUNT \<equiv> Log 50"
abbreviation INSTRUCTION_EXCESS :: hook_log_code where "INSTRUCTION_EXCESS \<equiv> Log 51"
abbreviation MEMORY_GROW :: hook_log_code where "MEMORY_GROW \<equiv> Log 52"
abbreviation NAMESPACE_MISSING :: hook_log_code where "NAMESPACE_MISSING \<equiv> Log 53"
abbreviation NSDELETE :: hook_log_code where "NSDELETE \<equiv> Log 54"
abbreviation NSDELETE_ACCOUNT :: hook_log_code where "NSDELETE_ACCOUNT \<equiv> Log 55"
abbreviation NSDELETE_COUNT :: hook_log_code where "NSDELETE_COUNT \<equiv> Log 56"
abbreviation NSDELETE_DIR :: hook_log_code where "NSDELETE_DIR \<equiv> Log 57"
abbreviation NSDELETE_DIRECTORY :: hook_log_code where "NSDELETE_DIRECTORY \<equiv> Log 58"
abbreviation NSDELETE_DIR_ENTRY :: hook_log_code where "NSDELETE_DIR_ENTRY \<equiv> Log 59"
abbreviation NSDELETE_ENTRY :: hook_log_code where "NSDELETE_ENTRY \<equiv> Log 60"
abbreviation NSDELETE_FIELD :: hook_log_code where "NSDELETE_FIELD \<equiv> Log 61"
abbreviation NSDELETE_FLAGS :: hook_log_code where "NSDELETE_FLAGS \<equiv> Log 62"
abbreviation NSDELETE_NONSTATE :: hook_log_code where "NSDELETE_NONSTATE \<equiv> Log 63"
abbreviation NSDELETE_NOTHING :: hook_log_code where "NSDELETE_NOTHING \<equiv> Log 64"
abbreviation OPERATION_INVALID :: hook_log_code where "OPERATION_INVALID \<equiv> Log 65"
abbreviation OVERRIDE_MISSING :: hook_log_code where "OVERRIDE_MISSING \<equiv> Log 66"
abbreviation PARAMETERS_FIELD :: hook_log_code where "PARAMETERS_FIELD \<equiv> Log 67"
abbreviation PARAMETERS_ILLEGAL :: hook_log_code where "PARAMETERS_ILLEGAL \<equiv> Log 68"
abbreviation PARAMETERS_NAME :: hook_log_code where "PARAMETERS_NAME \<equiv> Log 69"
abbreviation PARAM_HOOK_CBAK :: hook_log_code where "PARAM_HOOK_CBAK \<equiv> Log 70"
abbreviation RETURN_HOOK_CBAK :: hook_log_code where "RETURN_HOOK_CBAK \<equiv> Log 71"
abbreviation SHORT_HOOK :: hook_log_code where "SHORT_HOOK \<equiv> Log 72"
abbreviation TYPE_INVALID :: hook_log_code where "TYPE_INVALID \<equiv> Log 73"
abbreviation WASM_BAD_MAGIC :: hook_log_code where "WASM_BAD_MAGIC \<equiv> Log 74"
abbreviation WASM_INVALID :: hook_log_code where "WASM_INVALID \<equiv> Log 75"
abbreviation WASM_PARSE_LOOP :: hook_log_code where "WASM_PARSE_LOOP \<equiv> Log 76"
abbreviation WASM_SMOKE_TEST :: hook_log_code where "WASM_SMOKE_TEST \<equiv> Log 77"
abbreviation WASM_TEST_FAILURE :: hook_log_code where "WASM_TEST_FAILURE \<equiv> Log 78"
abbreviation WASM_TOO_BIG :: hook_log_code where "WASM_TOO_BIG \<equiv> Log 79"
abbreviation WASM_TOO_SMALL :: hook_log_code where "WASM_TOO_SMALL \<equiv> Log 80"
abbreviation WASM_VALIDATION :: hook_log_code where "WASM_VALIDATION \<equiv> Log 81"
abbreviation HOOK_CBAK_DIFF_TYPES :: hook_log_code where "HOOK_CBAK_DIFF_TYPES \<equiv> Log 82"
abbreviation PARAMETERS_NAME_REPEATED :: hook_log_code where "PARAMETERS_NAME_REPEATED \<equiv> Log 83"
abbreviation NESTING_LIMIT :: hook_log_code where "NESTING_LIMIT \<equiv> Log 84"
abbreviation SECTIONS_OUT_OF_SEQUENCE :: hook_log_code where "SECTIONS_OUT_OF_SEQUENCE \<equiv> Log 85"
abbreviation CUSTOM_SECTION_DISALLOWED :: hook_log_code where "CUSTOM_SECTION_DISALLOWED \<equiv> Log 86"

abbreviation (input) SUCCESS :: int where "SUCCESS \<equiv> 0"
abbreviation (input) OUT_OF_BOUNDS :: int where "OUT_OF_BOUNDS \<equiv> - 1"
abbreviation (input) INTERNAL_ERROR :: int where "INTERNAL_ERROR \<equiv> - 2"
abbreviation (input) TOO_BIG :: int where "TOO_BIG \<equiv> - 3"
abbreviation (input) TOO_SMALL :: int where "TOO_SMALL \<equiv> - 4"
abbreviation (input) DOESNT_EXIST :: int where "DOESNT_EXIST \<equiv> - 5"
abbreviation (input) NO_FREE_SLOTS :: int where "NO_FREE_SLOTS \<equiv> - 6"
abbreviation (input) INVALID_ARGUMENT :: int where "INVALID_ARGUMENT \<equiv> - 7"
abbreviation (input) ALREADY_SET :: int where "ALREADY_SET \<equiv> - 8"
abbreviation (input) PREREQUISITE_NOT_MET :: int where "PREREQUISITE_NOT_MET \<equiv> - 9"
abbreviation (input) FEE_TOO_LARGE :: int where "FEE_TOO_LARGE \<equiv> - 10"
abbreviation (input) EMISSION_FAILURE :: int where "EMISSION_FAILURE \<equiv> - 11"
abbreviation (input) TOO_MANY_NONCES :: int where "TOO_MANY_NONCES \<equiv> - 12"
abbreviation (input) TOO_MANY_EMITTED_TXN :: int where "TOO_MANY_EMITTED_TXN \<equiv> - 13"
abbreviation (input) NOT_IMPLEMENTED :: int where "NOT_IMPLEMENTED \<equiv> - 14"
abbreviation (input) INVALID_ACCOUNT :: int where "INVALID_ACCOUNT \<equiv> - 15"
abbreviation (input) GUARD_VIOLATION :: int where "GUARD_VIOLATION \<equiv> - 16"
abbreviation (input) INVALID_FIELD :: int where "INVALID_FIELD \<equiv> - 17"
abbreviation (input) PARSE_ERROR :: int where "PARSE_ERROR \<equiv> - 18"
abbreviation (input) RC_ROLLBACK :: int where "RC_ROLLBACK \<equiv> - 19"
abbreviation (input) RC_ACCEPT :: int where "RC_ACCEPT \<equiv> - 20"
abbreviation (input) NO_SUCH_KEYLET :: int where "NO_SUCH_KEYLET \<equiv> - 21"
abbreviation (input) NOT_AN_ARRAY :: int where "NOT_AN_ARRAY \<equiv> - 22"
abbreviation (input) NOT_AN_OBJECT :: int where "NOT_AN_OBJECT \<equiv> - 23"
abbreviation (input) INVALID_FLOAT :: int where "INVALID_FLOAT \<equiv> - 10024"
abbreviation (input) DIVISION_BY_ZERO :: int where "DIVISION_BY_ZERO \<equiv> - 25"
abbreviation (input) MANTISSA_OVERSIZED :: int where "MANTISSA_OVERSIZED \<equiv> - 26"
abbreviation (input) MANTISSA_UNDERSIZED :: int where "MANTISSA_UNDERSIZED \<equiv> - 27"
abbreviation (input) EXPONENT_OVERSIZED :: int where "EXPONENT_OVERSIZED \<equiv> - 28"
abbreviation (input) EXPONENT_UNDERSIZED :: int where "EXPONENT_UNDERSIZED \<equiv> - 29"
abbreviation (input) XFL_OVERFLOW :: int where "XFL_OVERFLOW \<equiv> - 30"
abbreviation (input) NOT_IOU_AMOUNT :: int where "NOT_IOU_AMOUNT \<equiv> - 31"
abbreviation (input) NOT_AN_AMOUNT :: int where "NOT_AN_AMOUNT \<equiv> - 32"
abbreviation (input) CANT_RETURN_NEGATIVE :: int where "CANT_RETURN_NEGATIVE \<equiv> - 33"
abbreviation (input) NOT_AUTHORIZED :: int where "NOT_AUTHORIZED \<equiv> - 34"
abbreviation (input) PREVIOUS_FAILURE_PREVENTS_RETRY :: int where "PREVIOUS_FAILURE_PREVENTS_RETRY \<equiv> - 35"
abbreviation (input) TOO_MANY_PARAMS :: int where "TOO_MANY_PARAMS \<equiv> - 36"
abbreviation (input) INVALID_TXN :: int where "INVALID_TXN \<equiv> - 37"
abbreviation (input) RESERVE_INSUFFICIENT :: int where "RESERVE_INSUFFICIENT \<equiv> - 38"
abbreviation (input) COMPLEX_NOT_SUPPORTED :: int where "COMPLEX_NOT_SUPPORTED \<equiv> - 39"
abbreviation (input) DOES_NOT_MATCH :: int where "DOES_NOT_MATCH \<equiv> - 40"
abbreviation (input) INVALID_KEY :: int where "INVALID_KEY \<equiv> - 41"
abbreviation (input) NOT_A_STRING :: int where "NOT_A_STRING \<equiv> - 42"
abbreviation (input) MEM_OVERLAP :: int where "MEM_OVERLAP \<equiv> - 43"
abbreviation (input) TOO_MANY_STATE_MODIFICATIONS :: int where "TOO_MANY_STATE_MODIFICATIONS \<equiv> - 44"

abbreviation (input) KL_HOOK :: nat where "KL_HOOK \<equiv> 1"
abbreviation (input) KL_HOOK_STATE :: nat where "KL_HOOK_STATE \<equiv> 2"
abbreviation (input) KL_ACCOUNT :: nat where "KL_ACCOUNT \<equiv> 3"
abbreviation (input) KL_AMENDMENTS :: nat where "KL_AMENDMENTS \<equiv> 4"
abbreviation (input) KL_CHILD :: nat where "KL_CHILD \<equiv> 5"
abbreviation (input) KL_SKIP :: nat where "KL_SKIP \<equiv> 6"
abbreviation (input) KL_FEES :: nat where "KL_FEES \<equiv> 7"
abbreviation (input) KL_NEGATIVE_UNL :: nat where "KL_NEGATIVE_UNL \<equiv> 8"
abbreviation (input) KL_LINE :: nat where "KL_LINE \<equiv> 9"
abbreviation (input) KL_OFFER :: nat where "KL_OFFER \<equiv> 10"
abbreviation (input) KL_QUALITY :: nat where "KL_QUALITY \<equiv> 11"
abbreviation (input) KL_EMITTED_DIR :: nat where "KL_EMITTED_DIR \<equiv> 12"
abbreviation (input) KL_TICKET :: nat where "KL_TICKET \<equiv> 13"
abbreviation (input) KL_SIGNERS :: nat where "KL_SIGNERS \<equiv> 14"
abbreviation (input) KL_CHECK :: nat where "KL_CHECK \<equiv> 15"
abbreviation (input) KL_DEPOSIT_PREAUTH :: nat where "KL_DEPOSIT_PREAUTH \<equiv> 16"
abbreviation (input) KL_UNCHECKED :: nat where "KL_UNCHECKED \<equiv> 17"
abbreviation (input) KL_OWNER_DIR :: nat where "KL_OWNER_DIR \<equiv> 18"
abbreviation (input) KL_PAGE :: nat where "KL_PAGE \<equiv> 19"
abbreviation (input) KL_ESCROW :: nat where "KL_ESCROW \<equiv> 20"
abbreviation (input) KL_PAYCHAN :: nat where "KL_PAYCHAN \<equiv> 21"
abbreviation (input) KL_EMITTED_TXN :: nat where "KL_EMITTED_TXN \<equiv> 22"
abbreviation (input) KL_NFT_OFFER :: nat where "KL_NFT_OFFER \<equiv> 23"
abbreviation (input) KL_HOOK_DEFINITION :: nat where "KL_HOOK_DEFINITION \<equiv> 24"

datatype ExitType = UNSET | WASM_ERROR | ROLLBACK | ACCEPT

section \<open>Limits of the API\<close>

definition max_state_modifications :: nat where
  "max_state_modifications = 5000"

definition max_slots :: nat where
  "max_slots = 255"

definition max_nonce :: nat where
  "max_nonce = 255"

definition max_emit :: nat where
  "max_emit = 255"

definition max_params :: nat where
  "max_params = 16"

section \<open>Importable functions\<close>

text \<open>Name, then the wasm type code of the result followed by those of the parameters.\<close>

definition import_whitelist :: "(string \<times> 8 word list) list" where
  "import_whitelist = [
    (''_g'', [0x7F, 0x7F, 0x7F]),
    (''accept'', [0x7E, 0x7F, 0x7F, 0x7E]),
    (''rollback'', [0x7E, 0x7F, 0x7F, 0x7E]),
    (''util_raddr'', [0x7E, 0x7F, 0x7F, 0x7F, 0x7F]),
    (''util_accid'', [0x7E, 0x7F, 0x7F, 0x7F, 0x7F]),
    (''util_verify'', [0x7E, 0x7F, 0x7F, 0x7F, 0x7F, 0x7F, 0x7F]),
    (''sto_validate'', [0x7E, 0x7F, 0x7F]),
    (''sto_subfield'', [0x7E, 0x7F, 0x7F, 0x7F]),
    (''sto_subarray'', [0x7E, 0x7F, 0x7F, 0x7F]),
    (''sto_emplace'', [0x7E, 0x7F, 0x7F, 0x7F, 0x7F, 0x7F, 0x7F, 0x7F]),
    (''sto_erase'', [0x7E, 0x7F, 0x7F, 0x7F, 0x7F, 0x7F]),
    (''util_sha512h'', [0x7E, 0x7F, 0x7F, 0x7F, 0x7F]),
    (''util_keylet'', [0x7E, 0x7F, 0x7F, 0x7F, 0x7F, 0x7F, 0x7F, 0x7F, 0x7F, 0x7F]),
    (''etxn_burden'', [0x7E]),
    (''etxn_details'', [0x7E, 0x7F, 0x7F]),
    (''etxn_fee_base'', [0x7E, 0x7F, 0x7F]),
    (''etxn_reserve'', [0x7E, 0x7F]),
    (''etxn_generation'', [0x7E]),
    (''etxn_nonce'', [0x7E, 0x7F, 0x7F]),
    (''emit'', [0x7E, 0x7F, 0x7F, 0x7F, 0x7F]),
    (''float_set'', [0x7E, 0x7F, 0x7E]),
    (''float_multiply'', [0x7E, 0x7E, 0x7E]),
    (''float_mulratio'', [0x7E, 0x7E, 0x7F, 0x7F, 0x7F]),
    (''float_negate'', [0x7E, 0x7E]),
    (''float_compare'', [0x7E, 0x7E, 0x7E, 0x7F]),
    (''float_sum'', [0x7E, 0x7E, 0x7E]),
    (''float_sto'', [0x7E, 0x7F, 0x7F, 0x7F, 0x7F, 0x7F, 0x7F, 0x7E, 0x7F]),
    (''float_sto_set'', [0x7E, 0x7F, 0x7F]),
    (''float_invert'', [0x7E, 0x7E]),
    (''float_divide'', [0x7E, 0x7E, 0x7E]),
    (''float_one'', [0x7E]),
    (''float_mantissa'', [0x7E, 0x7E]),
    (''float_sign'', [0x7E, 0x7E]),
    (''float_int'', [0x7E, 0x7E, 0x7F, 0x7F]),
    (''float_log'', [0x7E, 0x7E]),
    (''float_root'', [0x7E, 0x7E, 0x7F]),
    (''hook_account'', [0x7E, 0x7F, 0x7F]),
    (''hook_hash'', [0x7E, 0x7F, 0x7F, 0x7F]),
    (''fee_base'', [0x7E]),
    (''ledger_seq'', [0x7E]),
    (''ledger_last_time'', [0x7E]),
    (''ledger_last_hash'', [0x7E, 0x7F, 0x7F]),
    (''ledger_nonce'', [0x7E, 0x7F, 0x7F]),
    (''ledger_keylet'', [0x7E, 0x7F, 0x7F, 0x7F, 0x7F, 0x7F, 0x7F]),
    (''hook_param_set'', [0x7E, 0x7F, 0x7F, 0x7F, 0x7F, 0x7F, 0x7F]),
    (''hook_param'', [0x7E, 0x7F, 0x7F, 0x7F, 0x7F]),
    (''hook_again'', [0x7E]),
    (''hook_skip'', [0x7E, 0x7F, 0x7F, 0x7F]),
    (''hook_pos'', [0x7E]),
    (''slot'', [0x7E, 0x7F, 0x7F, 0x7F]),
    (''slot_clear'', [0x7E, 0x7F]),
    (''slot_count'', [0x7E, 0x7F]),
    (''slot_set'', [0x7E, 0x7F, 0x7F, 0x7F]),
    (''slot_size'', [0x7E, 0x7F]),
    (''slot_subarray'', [0x7E, 0x7F, 0x7F, 0x7F]),
    (''slot_subfield'', [0x7E, 0x7F, 0x7F, 0x7F]),
    (''slot_type'', [0x7E, 0x7F, 0x7F]),
    (''slot_float'', [0x7E, 0x7F]),
    (''state_set'', [0x7E, 0x7F, 0x7F, 0x7F, 0x7F]),
    (''state_foreign_set'', [0x7E, 0x7F, 0x7F, 0x7F, 0x7F, 0x7F, 0x7F, 0x7F, 0x7F]),
    (''state'', [0x7E, 0x7F, 0x7F, 0x7F, 0x7F]),
    (''state_foreign'', [0x7E, 0x7F, 0x7F, 0x7F, 0x7F, 0x7F, 0x7F, 0x7F, 0x7F]),
    (''trace'', [0x7E, 0x7F, 0x7F, 0x7F, 0x7F, 0x7F]),
    (''trace_num'', [0x7E, 0x7F, 0x7F, 0x7E]),
    (''trace_float'', [0x7E, 0x7F, 0x7F, 0x7E]),
    (''otxn_burden'', [0x7E]),
    (''otxn_field'', [0x7E, 0x7F, 0x7F, 0x7F]),
    (''otxn_generation'', [0x7E]),
    (''otxn_id'', [0x7E, 0x7F, 0x7F, 0x7F]),
    (''otxn_type'', [0x7E]),
    (''otxn_slot'', [0x7E, 0x7F]),
    (''otxn_param'', [0x7E, 0x7F, 0x7F, 0x7F, 0x7F]),
    (''meta_slot'', [0x7E, 0x7F])]"

end
