(* ===== verification/Hook_Prelude.thy ===== *)
theory Hook_Prelude
  imports Hook_Enum
begin

unbundle bit_operations_syntax

text \<open>
  Shared vocabulary of the development: the machine integers of the C++ sources, the
  outcome of a C++ computation that may return, refuse its input, throw or run into
  undefined behaviour, and the checked reads and checked \<open>int\<close> arithmetic built on it.

  Undefined behaviour is a value of the model (\<open>Undef\<close>), so that a theorem that a
  computation never yields it is a memory-safety theorem about the code, and a theorem
  that it does is a finding.
\<close>

section \<open>Machine integers\<close>

type_synonym u8 = "8 word"
type_synonym u16 = "16 word"
type_synonym u32 = "32 word"
type_synonym u64 = "64 word"
type_synonym bytes = "8 word list"

text \<open>\<^verbatim>\<open>int\<close> is 32 bit two's complement; a conversion to it from \<^verbatim>\<open>uint64_t\<close> keeps the low 32 bits.\<close>

definition to_int32 :: "u64 \<Rightarrow> int" where
  "to_int32 w = sint (ucast w :: u32)"

definition int32_range :: "int \<Rightarrow> bool" where
  "int32_range x \<longleftrightarrow> - (2 ^ 31) \<le> x \<and> x < 2 ^ 31"

definition int64_range :: "int \<Rightarrow> bool" where
  "int64_range x \<longleftrightarrow> - (2 ^ 63) \<le> x \<and> x < 2 ^ 63"

lemma unat_ucast_widen [simp]:
  "unat (ucast (x :: u32) :: u64) = unat x" "unat (ucast (y :: u8) :: u64) = unat y"
  "unat (ucast (y :: u8) :: u32) = unat y"
  using unsigned_less [of x, where ?'a = nat] unsigned_less [of y, where ?'a = nat]
  by (simp_all add: unsigned_ucast_eq take_bit_nat_eq_self)

lemma unat_of_nat_u64: "n < 2 ^ 64 \<Longrightarrow> unat (of_nat n :: u64) = n"
  by (simp add: unat_of_nat)

section \<open>Outcomes of C++ computations\<close>

text \<open>\<open>logic_error\<close> stands for a call of \<^verbatim>\<open>LogicError\<close>, which ends the process.\<close>

datatype cxx_exception = overflow_error | length_error | out_of_range | runtime_error | logic_error

datatype 'a outcome =
    Ok 'a
  | Reject hook_log_code
  | Throw cxx_exception
  | Undef

fun obind :: "'a outcome \<Rightarrow> ('a \<Rightarrow> 'b outcome) \<Rightarrow> 'b outcome" where
  "obind (Ok x) f = f x"
| "obind (Reject e) f = Reject e"
| "obind (Throw x) f = Throw x"
| "obind Undef f = Undef"

named_theorems outcome_simps "characterisations of sequenced outcomes"

lemma obind_cong [fundef_cong]:
  "m = m' \<Longrightarrow> (\<And>x. m' = Ok x \<Longrightarrow> f x = g x) \<Longrightarrow> obind m f = obind m' g"
  by (cases m') auto

lemma obind_eq_Ok [outcome_simps]:
  "obind m f = Ok y \<longleftrightarrow> (\<exists>x. m = Ok x \<and> f x = Ok y)"
  by (cases m) auto

lemma obind_eq_Undef [outcome_simps]:
  "obind m f = Undef \<longleftrightarrow> m = Undef \<or> (\<exists>x. m = Ok x \<and> f x = Undef)"
  by (cases m) auto

lemma obind_eq_Reject [outcome_simps]:
  "obind m f = Reject e \<longleftrightarrow> m = Reject e \<or> (\<exists>x. m = Ok x \<and> f x = Reject e)"
  by (cases m) auto

lemma obind_eq_Throw [outcome_simps]:
  "obind m f = Throw e \<longleftrightarrow> m = Throw e \<or> (\<exists>x. m = Ok x \<and> f x = Throw e)"
  by (cases m) auto

lemma obind_assoc: "obind (obind m f) g = obind m (\<lambda>x. obind (f x) g)"
  by (cases m) auto

lemma obind_Ok_right [simp]: "obind m Ok = m"
  by (cases m) auto

text \<open>\<^verbatim>\<open>if (bad) return {};\<close> with its log code.\<close>

definition refuse_if :: "bool \<Rightarrow> hook_log_code \<Rightarrow> unit outcome" where
  "refuse_if b e = (if b then Reject e else Ok ())"

lemma refuse_if_simps [simp]:
  "refuse_if True e = Reject e" "refuse_if False e = Ok ()"
  by (simp_all add: refuse_if_def)

lemma refuse_if_eq [outcome_simps]:
  "refuse_if b e = Ok u \<longleftrightarrow> \<not> b" "refuse_if b e \<noteq> Undef" "refuse_if b e \<noteq> Throw x"
  "refuse_if b e = Reject e' \<longleftrightarrow> b \<and> e = e'"
  by (auto simp: refuse_if_def)

section \<open>Checked \<open>int\<close> arithmetic and checked reads\<close>

definition int_chk :: "int \<Rightarrow> int outcome" where
  "int_chk x = (if int32_range x then Ok x else Undef)"

lemma int_chk_eq_Ok [outcome_simps]: "int_chk x = Ok y \<longleftrightarrow> x = y \<and> int32_range y"
  by (auto simp: int_chk_def)

lemma int_chk_not_Reject [outcome_simps]: "int_chk x \<noteq> Reject e" "int_chk x \<noteq> Throw t"
  by (auto simp: int_chk_def)

text \<open>
  The API arithmetic on \<^verbatim>\<open>int64_t\<close> and \<^verbatim>\<open>uint64_t\<close> is modelled on integers: a signed result out of
  range is undefined, an unsigned one is reduced modulo \<open>2 ^ 64\<close>, and the conversions between the
  two reinterpret the 64 bits.
\<close>

definition int64_chk :: "int \<Rightarrow> int outcome" where
  "int64_chk x = (if int64_range x then Ok x else Undef)"

lemma int64_chk_eq_Ok [outcome_simps]: "int64_chk x = Ok y \<longleftrightarrow> x = y \<and> int64_range y"
  by (auto simp: int64_chk_def)

lemma int64_chk_not [outcome_simps]: "int64_chk x \<noteq> Reject e" "int64_chk x \<noteq> Throw t"
  by (auto simp: int64_chk_def)

definition to_uint64 :: "int \<Rightarrow> int" where
  "to_uint64 x = take_bit 64 x"

definition to_int64 :: "int \<Rightarrow> int" where
  "to_int64 x = signed_take_bit 63 x"

lemma to_uint64_id [simp]: "0 \<le> x \<Longrightarrow> x < 2 ^ 64 \<Longrightarrow> to_uint64 x = x"
  by (simp add: to_uint64_def take_bit_int_eq_self)

lemma to_int64_id [simp]: "- (2 ^ 63) \<le> x \<Longrightarrow> x < 2 ^ 63 \<Longrightarrow> to_int64 x = x"
  by (simp add: to_int64_def signed_take_bit_int_eq_self)

lemma to_uint64_range: "0 \<le> to_uint64 x" "to_uint64 x < 2 ^ 64"
  using take_bit_int_less_exp [of 64 x] by (simp_all add: to_uint64_def)

text \<open>
  A comparison of an \<^verbatim>\<open>int\<close> with \<^verbatim>\<open>size()\<close> converts the \<^verbatim>\<open>int\<close> to \<^verbatim>\<open>size_t\<close>, where a
  negative value is larger than every size.
\<close>

definition below_size :: "int \<Rightarrow> bytes \<Rightarrow> bool" where
  "below_size i h \<longleftrightarrow> 0 \<le> i \<and> i < int (length h)"

definition within_size :: "int \<Rightarrow> bytes \<Rightarrow> bool" where
  "within_size i h \<longleftrightarrow> 0 \<le> i \<and> i \<le> int (length h)"

text \<open>\<^verbatim>\<open>hook[i]\<close> on a \<^verbatim>\<open>std::vector\<close>: an index out of range is undefined behaviour.\<close>

definition byte_at :: "bytes \<Rightarrow> int \<Rightarrow> u8 outcome" where
  "byte_at h i = (if below_size i h then Ok (h ! nat i) else Undef)"

lemma byte_at_eq_Ok [outcome_simps]: "byte_at h i = Ok b \<longleftrightarrow> below_size i h \<and> b = h ! nat i"
  by (auto simp: byte_at_def)

lemma byte_at_eq_Undef [outcome_simps]: "byte_at h i = Undef \<longleftrightarrow> \<not> below_size i h"
  by (auto simp: byte_at_def)

lemma byte_at_not [outcome_simps]: "byte_at h i \<noteq> Reject e" "byte_at h i \<noteq> Throw t"
  by (auto simp: byte_at_def)

lemma below_size_within [intro]: "below_size i h \<Longrightarrow> within_size i h"
  by (simp add: below_size_def within_size_def)

end
