(* ===== verification/Leb128.thy ===== *)
theory Leb128
  imports Hook_Prelude
begin

unbundle bit_operations_syntax

text \<open>
  \<^verbatim>\<open>parseLeb128\<close> and \<^verbatim>\<open>parseSignedLeb128\<close> of \<^verbatim>\<open>src/ripple/app/hook/Guard.h\<close>: the two
  variable-length integer readers every other part of the guard checker is built on.
\<close>

section \<open>The readers\<close>

text \<open>
  The loop of \<^verbatim>\<open>parseLeb128\<close>: \<open>e\<close> is what \<^verbatim>\<open>*end_offset\<close> holds on entry, returned
  untouched together with 0 when the loop is left without a terminating byte. A shift of
  a \<^verbatim>\<open>uint64_t\<close> by 64 or more is undefined.
\<close>

function leb_loop :: "bytes \<Rightarrow> int \<Rightarrow> u64 \<Rightarrow> nat \<Rightarrow> nat \<Rightarrow> (u64 \<times> int) outcome" where
  "leb_loop buf e val shift i =
     (if i < length buf then
        (if 64 \<le> shift then Undef
         else
           (let b = ucast (buf ! i) :: u64;
                val' = val + push_bit shift (b AND 0x7F)
            in if val' < val then Throw overflow_error
               else if b AND 0x80 \<noteq> 0 then
                 (if \<not> i + 1 < length buf then Throw length_error
                  else leb_loop buf e val' (shift + 7) (i + 1))
               else Ok (val', int (i + 1))))
      else Ok (0, e))"
  by pat_completeness auto
termination
  by (relation "measure (\<lambda>(buf, e, val, shift, i). length buf - i)") auto

declare leb_loop.simps [simp del]

definition parseLeb128 :: "bytes \<Rightarrow> int \<Rightarrow> (u64 \<times> int) outcome" where
  "parseLeb128 buf start_offset =
     (if below_size start_offset buf then leb_loop buf start_offset 0 0 (nat start_offset)
      else Ok (0, start_offset))"

text \<open>
  The loop of \<^verbatim>\<open>parseSignedLeb128\<close> accumulates into an \<^verbatim>\<open>int64_t\<close>. The sign extension
  shifts the \<^verbatim>\<open>int\<close> constant \<^verbatim>\<open>~0\<close>, a 32 bit value, so a shift of 32 or more is undefined;
  the result is widened to 64 bits by sign extension before the disjunction.
\<close>

function sleb_loop :: "bytes \<Rightarrow> int \<Rightarrow> u64 \<Rightarrow> nat \<Rightarrow> nat \<Rightarrow> (u64 \<times> int) outcome" where
  "sleb_loop buf e val shift i =
     (if i < length buf then
        (if 64 \<le> shift then Undef
         else
           (let b = ucast (buf ! i) :: u64;
                val' = val + push_bit shift (b AND 0x7F)
            in if sint val' < sint val then Throw overflow_error
               else if b AND 0x80 \<noteq> 0 then
                 (if \<not> i + 1 < length buf then Throw length_error
                  else sleb_loop buf e val' (shift + 7) (i + 1))
               else if shift < 64 \<and> b AND 0x40 \<noteq> 0 then
                 (if 32 \<le> shift then Undef
                  else Ok (val' OR (scast (push_bit shift (- 1 :: u32)) :: u64), int (i + 1)))
               else Ok (val', int (i + 1))))
      else Ok (0, e))"
  by pat_completeness auto
termination
  by (relation "measure (\<lambda>(buf, e, val, shift, i). length buf - i)") auto

declare sleb_loop.simps [simp del]

definition parseSignedLeb128 :: "bytes \<Rightarrow> int \<Rightarrow> (u64 \<times> int) outcome" where
  "parseSignedLeb128 buf start_offset =
     (if below_size start_offset buf then sleb_loop buf start_offset 0 0 (nat start_offset)
      else Ok (0, start_offset))"

section \<open>What every reader promises its callers\<close>

text \<open>
  The callers rely on three things only: a read that returns moves the offset forward when
  it starts inside the buffer, never leaves the buffer, and does not touch an offset that
  is already outside. A reader never refuses its input: it returns, throws or is undefined.
\<close>

locale byte_reader =
  fixes rd :: "bytes \<Rightarrow> int \<Rightarrow> ('v \<times> int) outcome"
  assumes rd_advances: "rd h i = Ok (v, j) \<Longrightarrow> below_size i h \<Longrightarrow> i < j \<and> j \<le> int (length h)"
    and rd_outside: "\<not> below_size i h \<Longrightarrow> \<exists>v. rd h i = Ok (v, i)"
    and rd_no_reject: "rd h i \<noteq> Reject r"
begin

lemma rd_mono: "rd h i = Ok (v, j) \<Longrightarrow> i \<le> j"
  using rd_advances [of h i v j] rd_outside [of i h] by (cases "below_size i h") auto

lemma rd_within: "rd h i = Ok (v, j) \<Longrightarrow> within_size i h \<Longrightarrow> within_size j h"
  using rd_advances [of h i v j] rd_outside [of i h]
  by (cases "below_size i h") (auto simp: below_size_def within_size_def)

lemma rd_below: "rd h i = Ok (v, j) \<Longrightarrow> below_size j h \<Longrightarrow> 0 \<le> i \<Longrightarrow> below_size i h"
  using rd_mono [of h i v j] by (auto simp: below_size_def)

lemma rd_strict: "rd h i = Ok (v, j) \<Longrightarrow> below_size j h \<Longrightarrow> 0 \<le> i \<Longrightarrow> i < j"
  using rd_below [of h i v j] rd_advances [of h i v j] by auto

end

lemma leb_loop_advances:
  "leb_loop h e val shift i = Ok (v, j) \<Longrightarrow> i < length h \<Longrightarrow> int i < j \<and> j \<le> int (length h)"
proof (induction h e val shift i rule: leb_loop.induct)
  case (1 h e val shift i)
  then show ?case
    by (subst (asm) leb_loop.simps [of h e val shift i]) (fastforce simp: Let_def split: if_splits)
qed

lemma leb_loop_no_reject: "leb_loop h e val shift i \<noteq> Reject r"
proof (induction h e val shift i rule: leb_loop.induct)
  case (1 h e val shift i)
  then show ?case
    by (subst leb_loop.simps) (auto simp: Let_def)
qed

lemma sleb_loop_advances:
  "sleb_loop h e val shift i = Ok (v, j) \<Longrightarrow> i < length h \<Longrightarrow> int i < j \<and> j \<le> int (length h)"
proof (induction h e val shift i rule: sleb_loop.induct)
  case (1 h e val shift i)
  then show ?case
    by (subst (asm) sleb_loop.simps [of h e val shift i]) (fastforce simp: Let_def split: if_splits)
qed

lemma sleb_loop_no_reject: "sleb_loop h e val shift i \<noteq> Reject r"
proof (induction h e val shift i rule: sleb_loop.induct)
  case (1 h e val shift i)
  then show ?case
    by (subst sleb_loop.simps) (auto simp: Let_def)
qed

interpretation uleb: byte_reader parseLeb128
proof unfold_locales
  fix h i v j
  assume "parseLeb128 h i = Ok (v, j)" and "below_size i h"
  then show "i < j \<and> j \<le> int (length h)"
    using leb_loop_advances [of h i 0 0 "nat i" v j]
    by (simp add: parseLeb128_def below_size_def nat_less_iff)
next
  fix h i
  assume "\<not> below_size i h"
  then show "\<exists>v. parseLeb128 h i = Ok (v, i)"
    by (auto simp: parseLeb128_def)
next
  fix h i r
  show "parseLeb128 h i \<noteq> Reject r"
    by (simp add: parseLeb128_def leb_loop_no_reject)
qed

interpretation sleb: byte_reader parseSignedLeb128
proof unfold_locales
  fix h i v j
  assume "parseSignedLeb128 h i = Ok (v, j)" and "below_size i h"
  then show "i < j \<and> j \<le> int (length h)"
    using sleb_loop_advances [of h i 0 0 "nat i" v j]
    by (simp add: parseSignedLeb128_def below_size_def nat_less_iff)
next
  fix h i
  assume "\<not> below_size i h"
  then show "\<exists>v. parseSignedLeb128 h i = Ok (v, i)"
    by (auto simp: parseSignedLeb128_def)
next
  fix h i r
  show "parseSignedLeb128 h i \<noteq> Reject r"
    by (simp add: parseSignedLeb128_def sleb_loop_no_reject)
qed

section \<open>The value an unsigned read returns\<close>

text \<open>The number a group of bytes denotes in LEB128, least significant group first, unbounded.\<close>

primrec leb_value :: "bytes \<Rightarrow> nat" where
  "leb_value [] = 0"
| "leb_value (b # bs) = unat b mod 128 + 128 * leb_value bs"

fun leb_encode :: "nat \<Rightarrow> bytes" where
  "leb_encode n =
     (if n < 128 then [of_nat n] else of_nat (n mod 128 + 128) # leb_encode (n div 128))"

declare leb_encode.simps [simp del]

lemma unat_low7: "unat ((ucast (b :: u8) :: u64) AND 0x7F) = unat b mod 128"
proof -
  have "unat (take_bit 7 (ucast b :: u64)) = take_bit 7 (unat (ucast b :: u64))"
    by (rule unsigned_take_bit_eq)
  moreover have "unat (ucast b :: u64) = unat b"
    using unsigned_less [of b, where ?'a = nat] by (simp add: unsigned_ucast_eq take_bit_nat_eq_self)
  ultimately show ?thesis
    by (simp only: take_bit_eq_mask [of 7 "ucast b :: u64"] take_bit_eq_mod [of 7 "unat b"])
      (simp add: mask_eq_exp_minus_1)
qed

lemma odd_div_top: "n < 2 * m \<Longrightarrow> odd (n div m) \<longleftrightarrow> m \<le> n" for n m :: nat
proof (cases "n < m")
  case False
  assume "n < 2 * m"
  with False have "n div m = 1"
    by (intro div_nat_eqI) auto
  with False show ?thesis by simp
qed simp

lemma cont_bit: "(ucast (b :: u8) :: u64) AND 0x80 \<noteq> 0 \<longleftrightarrow> 128 \<le> unat b"
proof -
  have "(ucast b :: u64) AND 0x80 \<noteq> 0 \<longleftrightarrow> bit (ucast b :: u64) 7"
    using and_exp_eq_0_iff_not_bit [of "ucast b :: u64" 7] by simp
  also have "\<dots> \<longleftrightarrow> bit (unat b) 7"
    by (simp add: bit_simps)
  also have "\<dots> \<longleftrightarrow> 128 \<le> unat b"
    using unsigned_less [of b, where ?'a = nat] odd_div_top [of "unat b" 128]
    by (simp add: bit_iff_odd)
  finally show ?thesis .
qed

lemma leb_step:
  fixes val :: u64 and b :: u8
  assumes "unat val < 2 ^ s" and "s < 64" and "unat b mod 128 < 2 ^ (64 - s)"
  shows "unat (val + push_bit s (ucast b AND 0x7F)) = unat val + 2 ^ s * (unat b mod 128)"
proof -
  let ?g = "unat b mod 128"
  have split: "(2::nat) ^ 64 = 2 ^ s * 2 ^ (64 - s)"
    using assms(2) by (simp flip: power_add)
  have "2 ^ s * ?g + 2 ^ s \<le> 2 ^ s * (2::nat) ^ (64 - s)"
    using assms(3) by (metis Suc_leI mult_Suc_right mult_le_mono2 add.commute)
  then have bound: "unat val + 2 ^ s * ?g < 2 ^ 64"
    using assms(1) split by linarith
  have "unat (push_bit s x) = (2 ^ s * unat x) mod 2 ^ 64" for x :: u64
    by (simp only: unsigned_push_bit_eq) (simp add: push_bit_eq_mult take_bit_eq_mod mult.commute)
  from this [of "ucast b AND 0x7F"]
  have "unat (push_bit s ((ucast b :: u64) AND 0x7F)) = (2 ^ s * ?g) mod 2 ^ 64"
    by (simp only: unat_low7)
  then have "unat (push_bit s ((ucast b :: u64) AND 0x7F)) = 2 ^ s * ?g"
    using bound by simp
  then show ?thesis
    using bound by (simp add: unat_word_ariths)
qed

lemma leb_step_no_overflow:
  fixes val :: u64 and b :: u8
  assumes "unat val < 2 ^ s" and "s < 64" and "unat b mod 128 < 2 ^ (64 - s)"
  shows "\<not> val + push_bit s (ucast b AND 0x7F) < val"
  using leb_step [OF assms] by (simp add: word_less_nat_alt)

text \<open>One turn of the loop on a byte without, and on a byte with, the continuation bit.\<close>

lemma leb_loop_last:
  assumes "i < length buf" and "unat (buf ! i) < 128" and "shift < 64"
    and "\<not> val + push_bit shift (ucast (buf ! i) AND 0x7F) < val"
  shows "leb_loop buf e val shift i = Ok (val + push_bit shift (ucast (buf ! i) AND 0x7F), int (i + 1))"
  using assms cont_bit [of "buf ! i"] by (subst leb_loop.simps) (simp only: Let_def if_True if_False flip: not_less, simp)

lemma leb_loop_cont:
  assumes "i + 1 < length buf" and "128 \<le> unat (buf ! i)" and "shift < 64"
    and "\<not> val + push_bit shift (ucast (buf ! i) AND 0x7F) < val"
  shows "leb_loop buf e val shift i
       = leb_loop buf e (val + push_bit shift (ucast (buf ! i) AND 0x7F)) (shift + 7) (i + 1)"
  using assms cont_bit [of "buf ! i"]
  by (subst leb_loop.simps) (simp only: Let_def if_True if_False add_lessD1 simp_thms flip: not_less)

lemma leb_loop_encode:
  assumes "v < 2 ^ (64 - shift)" and "shift < 64" and "unat val < 2 ^ shift"
  shows "leb_loop (pre @ leb_encode v @ post) e val shift (length pre)
       = Ok (of_nat (unat val + 2 ^ shift * v), int (length pre + length (leb_encode v)))"
  using assms
proof (induction v arbitrary: pre val shift rule: leb_encode.induct)
  case (1 v)
  show ?case
  proof (cases "v < 128")
    case True
    define b where "b = (of_nat v :: u8)"
    have b: "unat b = v"
      using True by (simp add: b_def unat_of_nat)
    have enc: "leb_encode v = [b]"
      using True by (subst leb_encode.simps) (simp add: b_def)
    have st: "unat b mod 128 < 2 ^ (64 - shift)"
      using True b "1.prems"(1) by simp
    have "unat (val + push_bit shift (ucast b AND 0x7F)) = unat val + 2 ^ shift * v"
      using leb_step [OF "1.prems"(3,2) st] True b by simp
    then have "val + push_bit shift (ucast b AND 0x7F) = of_nat (unat val + 2 ^ shift * v)"
      by (metis of_nat_unat ucast_id)
    then show ?thesis
      using leb_loop_last [of "length pre" "pre @ [b] @ post" shift val e]
        leb_step_no_overflow [OF "1.prems"(3,2) st] "1.prems"(2) True b
      by (simp add: enc nth_append)
  next
    case False
    define b where "b = (of_nat (v mod 128 + 128) :: u8)"
    define w where "w = val + push_bit shift (ucast b AND 0x7F)"
    have b: "unat b = v mod 128 + 128"
      unfolding b_def by (subst unat_of_nat) simp
    have enc: "leb_encode v = b # leb_encode (v div 128)"
      using False by (subst leb_encode.simps) (simp add: b_def)
    have sh: "shift < 57"
    proof (rule ccontr)
      assume "\<not> shift < 57"
      then have "(2::nat) ^ (64 - shift) \<le> 2 ^ 7"
        by (intro power_increasing) auto
      with False "1.prems"(1) show False by simp
    qed
    then have pw: "(2::nat) ^ (64 - shift) = 128 * 2 ^ (64 - (shift + 7))"
      using power_add [of "2::nat" 7 "64 - (shift + 7)"] by simp
    have pw7: "(2::nat) ^ (shift + 7) = 2 ^ shift * 128"
      by (simp add: power_add)
    have dv: "v div 128 < 2 ^ (64 - (shift + 7))"
      using "1.prems"(1) pw by (simp add: less_mult_imp_div_less mult.commute)
    have "(2::nat) ^ 7 \<le> 2 ^ (64 - shift)"
      using sh by (intro power_increasing) auto
    moreover have "unat b mod 128 < 2 ^ 7"
      by simp
    ultimately have st: "unat b mod 128 < 2 ^ (64 - shift)"
      by (rule less_le_trans [rotated])
    have sum: "unat w = unat val + 2 ^ shift * (v mod 128)"
      using leb_step [OF "1.prems"(3,2) st] b by (simp add: w_def)
    have "2 ^ shift * (v mod 128) + 2 ^ shift \<le> 2 ^ shift * (128::nat)"
      by (metis Suc_leI mod_less_divisor mult_Suc_right mult_le_mono2 add.commute zero_less_numeral)
    then have bd: "unat w < 2 ^ (shift + 7)"
      unfolding sum pw7 using "1.prems"(3) by linarith
    have "2 ^ shift * v = 2 ^ shift * (v mod 128) + 2 ^ shift * 128 * (v div 128)"
      by (metis distrib_left mult.assoc mod_mult_div_eq)
    then have tot: "unat w + 2 ^ (shift + 7) * (v div 128) = unat val + 2 ^ shift * v"
      unfolding sum pw7 by linarith
    have ne: "leb_encode (v div 128) \<noteq> []"
      by (subst leb_encode.simps) simp
    have "leb_loop (pre @ leb_encode v @ post) e val shift (length pre)
        = leb_loop (pre @ leb_encode v @ post) e w (shift + 7) (length pre + 1)"
      using leb_loop_cont [of "length pre" "pre @ leb_encode v @ post" shift val e] ne
        leb_step_no_overflow [OF "1.prems"(3,2) st] "1.prems"(2) b enc
      by (simp add: w_def)
    moreover note "1.IH" [OF False dv _ bd, of "pre @ [b]"]
    ultimately show ?thesis
      using sh unfolding tot enc by (simp only: append.simps append_assoc length_append) simp
  qed
qed

text \<open>
  A read of at most nine bytes returns exactly the number the bytes denote. The bound is
  sharp: the tenth byte is shifted by 63 and all but its lowest bit is lost.
\<close>

lemma leb_loop_value:
  assumes "leb_loop h e val shift i = Ok (v, j)" and "i < length h"
    and "unat val < 2 ^ shift" and "shift + 7 * (nat j - i) \<le> 64"
  shows "unat v = unat val + 2 ^ shift * leb_value (take (nat j - i) (drop i h))"
  using assms
proof (induction h e val shift i rule: leb_loop.induct)
  case (1 h e val shift i)
  define b where "b = h ! i"
  define w where "w = val + push_bit shift (ucast b AND 0x7F)"
  note adv = leb_loop_advances [OF "1.prems"(1,2)]
  with "1.prems"(4) have sh: "shift + 7 \<le> 64" by linarith
  have "(2::nat) ^ 7 \<le> 2 ^ (64 - shift)"
    using sh by (intro power_increasing) auto
  moreover have "unat b mod 128 < 2 ^ 7"
    by simp
  ultimately have st: "unat b mod 128 < 2 ^ (64 - shift)"
    by (rule less_le_trans [rotated])
  have sl: "shift < 64" using sh by simp
  have sum: "unat w = unat val + 2 ^ shift * (unat b mod 128)"
    using leb_step [OF "1.prems"(3) sl st] by (simp add: w_def)
  note ov = leb_step_no_overflow [OF "1.prems"(3) sl st]
  have dr: "drop i h = b # drop (i + 1) h"
    using "1.prems"(2) by (simp add: b_def Cons_nth_drop_Suc)
  show ?case
  proof (cases "unat b < 128")
    case True
    then have "v = w \<and> j = int (i + 1)"
      using "1.prems"(1) leb_loop_last [OF "1.prems"(2) _ sl, of val e] ov
      by (simp add: w_def b_def)
    then have "v = w" and "nat j - i = 1"
      by auto
    then show ?thesis using sum dr by simp
  next
    case False
    have ni: "i + 1 < length h"
    proof (rule ccontr)
      assume "\<not> i + 1 < length h"
      then have "leb_loop h e val shift i = Throw length_error"
        using "1.prems"(2) False sl ov cont_bit [of b]
        by (subst leb_loop.simps) (simp add: b_def)
      with "1.prems"(1) show False by simp
    qed
    have rec: "leb_loop h e w (shift + 7) (i + 1) = Ok (v, j)"
      using "1.prems"(1) leb_loop_cont [OF ni _ sl, of val e] ov False by (simp add: w_def b_def)
    have k: "nat j - i = Suc (nat j - (i + 1))"
      using leb_loop_advances [OF rec ni] by linarith
    have pw7: "(2::nat) ^ (shift + 7) = 2 ^ shift * 128"
      by (simp add: power_add)
    have "2 ^ shift * (unat b mod 128) + 2 ^ shift \<le> 2 ^ shift * (128::nat)"
      by (metis Suc_leI mod_less_divisor mult_Suc_right mult_le_mono2 add.commute zero_less_numeral)
    then have bd: "unat w < 2 ^ (shift + 7)"
      unfolding sum pw7 using "1.prems"(3) by linarith
    have "unat v = unat w + 2 ^ (shift + 7) * leb_value (take (nat j - (i + 1)) (drop (i + 1) h))"
      using "1.IH" [of "ucast b" w] "1.prems"(2,4) sl ov False cont_bit [of b] ni rec bd k
      by (simp add: b_def w_def)
    then show ?thesis
      unfolding k dr sum pw7 by (simp add: algebra_simps)
  qed
qed

section \<open>When a read is undefined\<close>

text \<open>No \<open>n\<close> consecutive bytes of the buffer all carry the continuation bit.\<close>

definition no_cont_run :: "nat \<Rightarrow> bytes \<Rightarrow> bool" where
  "no_cont_run n h \<longleftrightarrow> (\<forall>i < length h. \<exists>k < n. i + k < length h \<longrightarrow> unat (h ! (i + k)) < 128)"

lemma no_cont_run_mono: "no_cont_run n h \<Longrightarrow> n \<le> m \<Longrightarrow> no_cont_run m h"
  unfolding no_cont_run_def by (meson order_less_le_trans)

lemma no_cont_run_last:
  assumes "h \<noteq> []" and "length h \<le> n" and "unat (last h) < 128"
  shows "no_cont_run n h"
  unfolding no_cont_run_def
proof (intro allI impI)
  fix i
  assume i: "i < length h"
  with assms have "length h - 1 - i < n" and "unat (h ! (i + (length h - 1 - i))) < 128"
    by (auto simp: last_conv_nth)
  then show "\<exists>k<n. i + k < length h \<longrightarrow> unat (h ! (i + k)) < 128"
    by blast
qed

lemma no_cont_run_plain: "list_all (\<lambda>b. unat b < 128) h \<Longrightarrow> 0 < n \<Longrightarrow> no_cont_run n h"
  by (auto simp: no_cont_run_def list_all_length)

lemma leb_loop_Undef:
  assumes "leb_loop h e val (7 * m) i = Undef" and "m \<le> 10" and "i < length h" and "k < 10 - m"
  shows "i + k < length h \<and> 128 \<le> unat (h ! (i + k))"
  using assms
proof (induction h e val "7 * m" i arbitrary: m k rule: leb_loop.induct)
  case (1 h e val i)
  have sl: "\<not> 64 \<le> 7 * m" using "1.prems"(4) by simp
  have c: "128 \<le> unat (h ! i)" "i + 1 < length h"
    and rec: "leb_loop h e (val + push_bit (7 * m) (ucast (h ! i) AND 0x7F)) (7 * m + 7) (i + 1) = Undef"
    and ov: "\<not> val + push_bit (7 * m) (ucast (h ! i) AND 0x7F) < val"
    using "1.prems"(1) sl "1.prems"(3) cont_bit [of "h ! i"]
    by (auto simp: leb_loop.simps [of h e val "7 * m" i] Let_def split: if_splits)
  show ?case
  proof (cases k)
    case 0
    then show ?thesis using c by simp
  next
    case (Suc k')
    then have "i + 1 + k' < length h \<and> 128 \<le> unat (h ! (i + 1 + k'))"
      using "1.hyps" [OF "1.prems"(3) sl refl refl ov, of "Suc m" k'] rec c cont_bit [of "h ! i"] "1.prems"(4)
      by (simp add: add.commute)
    then show ?thesis using Suc by simp
  qed
qed

lemma sleb_loop_Undef:
  assumes "sleb_loop h e val (7 * m) i = Undef" and "m \<le> 5" and "i < length h" and "k < 5 - m"
  shows "i + k < length h \<and> 128 \<le> unat (h ! (i + k))"
  using assms
proof (induction h e val "7 * m" i arbitrary: m k rule: sleb_loop.induct)
  case (1 h e val i)
  have sl: "\<not> 64 \<le> 7 * m" "\<not> 32 \<le> 7 * m" using "1.prems"(4) by simp_all
  have c: "128 \<le> unat (h ! i)" "i + 1 < length h"
    and rec: "sleb_loop h e (val + push_bit (7 * m) (ucast (h ! i) AND 0x7F)) (7 * m + 7) (i + 1) = Undef"
    and ov: "\<not> sint (val + push_bit (7 * m) (ucast (h ! i) AND 0x7F)) < sint val"
    using "1.prems"(1) sl "1.prems"(3) cont_bit [of "h ! i"]
    by (auto simp: sleb_loop.simps [of h e val "7 * m" i] Let_def split: if_splits)
  show ?case
  proof (cases k)
    case 0
    then show ?thesis using c by simp
  next
    case (Suc k')
    then have "i + 1 + k' < length h \<and> 128 \<le> unat (h ! (i + 1 + k'))"
      using "1.hyps" [OF "1.prems"(3) sl(1) refl refl ov, of "Suc m" k'] rec c cont_bit [of "h ! i"] "1.prems"(4)
      by (simp add: add.commute)
    then show ?thesis using Suc by simp
  qed
qed

lemma parseLeb128_defined: "no_cont_run 10 h \<Longrightarrow> parseLeb128 h i \<noteq> Undef"
proof
  assume run: "no_cont_run 10 h" and u: "parseLeb128 h i = Undef"
  then have i: "nat i < length h" and l: "leb_loop h i 0 (7 * 0) (nat i) = Undef"
    by (auto simp: parseLeb128_def below_size_def nat_less_iff split: if_splits)
  from leb_loop_Undef [OF l _ i] have "k < 10 \<Longrightarrow> nat i + k < length h \<and> 128 \<le> unat (h ! (nat i + k))" for k
    by simp
  with run i show False
    unfolding no_cont_run_def by (meson not_le)
qed

lemma parseSignedLeb128_defined: "no_cont_run 5 h \<Longrightarrow> parseSignedLeb128 h i \<noteq> Undef"
proof
  assume run: "no_cont_run 5 h" and u: "parseSignedLeb128 h i = Undef"
  then have i: "nat i < length h" and l: "sleb_loop h i 0 (7 * 0) (nat i) = Undef"
    by (auto simp: parseSignedLeb128_def below_size_def nat_less_iff split: if_splits)
  from sleb_loop_Undef [OF l _ i] have "k < 5 \<Longrightarrow> nat i + k < length h \<and> 128 \<le> unat (h ! (nat i + k))" for k
    by simp
  with run i show False
    unfolding no_cont_run_def by (meson not_le)
qed

section \<open>Properties\<close>

text \<open>
  C27: reading back what an encoder wrote. Every 64 bit number, encoded in LEB128 and placed
  anywhere in a buffer, is read by \<^verbatim>\<open>parseLeb128\<close> as that number, and the offset it leaves
  is the one right after the encoding.
\<close>

theorem leb_roundtrip:
  assumes "v < 2 ^ 64"
  shows "parseLeb128 (pre @ leb_encode v @ post) (int (length pre))
       = Ok (of_nat v, int (length pre + length (leb_encode v)))"
proof -
  have "0 < length (leb_encode v)"
    by (subst leb_encode.simps) simp
  then have "below_size (int (length pre)) (pre @ leb_encode v @ post)"
    unfolding below_size_def length_append of_nat_add by linarith
  then show ?thesis
    using leb_loop_encode [of v 0 0 pre post "int (length pre)"] assms
    by (simp add: parseLeb128_def)
qed

theorem leb_roundtrip_witness:
  "(300::nat) < 2 ^ 64 \<and> leb_encode 300 = [0xAC, 0x02]
   \<and> parseLeb128 [0x41, 0xAC, 0x02, 0x10] 1 = Ok (300, 3)"
proof -
  have enc: "leb_encode 300 = [0xAC, 0x02]"
    by (simp add: leb_encode.simps)
  show ?thesis
    using leb_roundtrip [of 300 "[0x41]" "[0x10]"] by (simp add: enc)
qed

text \<open>
  A read of at most nine bytes is exact. When \<^verbatim>\<open>parseLeb128\<close> returns after consuming at
  most nine bytes, its result is the number those bytes denote, with no bit lost to the
  64 bit accumulator.
\<close>

theorem leb_read_exact:
  assumes "parseLeb128 h i = Ok (v, j)" and "below_size i h" and "j - i \<le> 9"
  shows "unat v = leb_value (take (nat (j - i)) (drop (nat i) h))"
proof -
  have i: "0 \<le> i" "nat i < length h"
    using assms(2) by (simp_all add: below_size_def nat_less_iff)
  have "leb_loop h i 0 0 (nat i) = Ok (v, j)"
    using assms(1,2) by (simp add: parseLeb128_def)
  moreover have "nat (j - i) = nat j - nat i"
    using i(1) by (simp add: nat_diff_distrib)
  ultimately show ?thesis
    using leb_loop_value [of h i 0 0 "nat i" v j] i assms(3) by simp
qed

theorem leb_read_exact_witness:
  "parseLeb128 [0xE5, 0x8E, 0x26] 0 = Ok (624485, 3) \<and> leb_value [0xE5, 0x8E, 0x26] = 624485"
proof -
  have r: "parseLeb128 [0xE5, 0x8E, 0x26] 0 = Ok (624485, 3)"
    by (simp add: parseLeb128_def below_size_def leb_loop.simps)
  from leb_read_exact [OF r] r show ?thesis
    by (simp add: below_size_def)
qed

text \<open>
  The readers are free of undefined behaviour on every buffer without a long run of
  continuation bytes: ten for the unsigned reader, whose shift then reaches 64, and five for
  the signed one, whose sign extension shifts a 32 bit constant.
\<close>

theorem leb_reads_defined:
  assumes "no_cont_run n h"
  shows "(n \<le> 10 \<longrightarrow> parseLeb128 h i \<noteq> Undef) \<and> (n \<le> 5 \<longrightarrow> parseSignedLeb128 h i \<noteq> Undef)"
  using assms no_cont_run_mono parseLeb128_defined parseSignedLeb128_defined by blast

theorem leb_reads_defined_witness:
  "no_cont_run 5 [0x80, 0x80, 0x80, 0x80, 0x01]
   \<and> parseLeb128 [0x80, 0x80, 0x80, 0x80, 0x01] 0 \<noteq> Undef
   \<and> parseSignedLeb128 [0x80, 0x80, 0x80, 0x80, 0x01] 0 \<noteq> Undef"
proof -
  have h: "no_cont_run 5 [0x80, 0x80, 0x80, 0x80, 0x01]"
    by (rule no_cont_run_last) simp_all
  from leb_reads_defined [OF h] h show ?thesis by auto
qed

section \<open>Where the readers fall short\<close>

text \<open>
  The bounds above are sharp. A tenth byte may carry more than the one bit that fits, and the
  comparison with the previous value does not notice: here the bytes denote \<open>2 ^ 64\<close> and 0 is
  returned. With ten continuation bytes the shift itself is undefined.
\<close>

lemma leb_overflow_missed:
  "parseLeb128 [0x80, 0x80, 0x80, 0x80, 0x80, 0x80, 0x80, 0x80, 0x80, 0x02] 0 = Ok (0, 10)"
  "leb_value [0x80, 0x80, 0x80, 0x80, 0x80, 0x80, 0x80, 0x80, 0x80, 0x02] = 2 ^ 64"
  by (simp_all add: parseLeb128_def below_size_def leb_loop.simps)

lemma leb_shift_undefined: "parseLeb128 [0x80, 0x80, 0x80, 0x80, 0x80, 0x80, 0x80, 0x80, 0x80, 0x80, 0x00] 0 = Undef"
  by (simp add: parseLeb128_def below_size_def leb_loop.simps)

text \<open>
  The signed reader extends the sign from the position of the last group's lowest bit instead
  of the one after its highest: the one-byte encoding of -64 is read as -1.
\<close>

lemma sleb_sign_misplaced: "parseSignedLeb128 [0x40] 0 = Ok (- 1, 1)"
  by (simp add: parseSignedLeb128_def below_size_def sleb_loop.simps)

end
