(* ===== verification/Ieee_Double.thy ===== *)
theory Ieee_Double
  imports Complex_Main "HOL-Library.Log_Nat"
begin

text \<open>
  The non-negative IEEE 754 doubles the sources compute with, as rational numbers, and the
  rounding (to nearest, ties to even, 53 bit significand) that every arithmetic operation and
  every conversion from an integer performs. The values met lie between \<open>10 ^ -96\<close> and
  \<open>10 ^ 96\<close>, far inside the range of normal doubles, so neither subnormals nor infinities occur.
\<close>

type_synonym double = rat

definition pow2 :: "int \<Rightarrow> rat" where
  "pow2 k = (if 0 \<le> k then 2 ^ nat k else 1 / 2 ^ nat (- k))"

text \<open>The exponent of the leading binary digit of a positive rational.\<close>

definition lead_exp :: "rat \<Rightarrow> int" where
  "lead_exp x =
     (case quotient_of x of (a, b) \<Rightarrow>
        let k = bitlen a - bitlen b in if pow2 k \<le> x then k else k - 1)"

definition round_half_even :: "rat \<Rightarrow> int" where
  "round_half_even x =
     (let f = \<lfloor>x\<rfloor>; d = x - of_int f
      in if d < 1 / 2 then f else if 1 / 2 < d then f + 1 else if even f then f else f + 1)"

definition dbl :: "rat \<Rightarrow> double" where
  "dbl x = (if x = 0 then 0
            else let u = pow2 (lead_exp x - 52) in of_int (round_half_even (x / u)) * u)"

lemma pow2_pos [simp]: "0 < pow2 k"
  by (simp add: pow2_def)

lemma pow2_neq_0 [simp]: "pow2 k \<noteq> 0"
  by (simp add: pow2_def)

lemma pow2_add: "pow2 (a + b) = pow2 a * pow2 b"
proof -
  have "pow2 k = 2 powi k" for k
    by (simp add: pow2_def power_int_def field_simps)
  then show ?thesis by (simp add: power_int_add)
qed

lemma pow2_1 [simp]: "pow2 1 = 2"
  by (simp add: pow2_def)

lemma pow2_nat: "pow2 (int n) = 2 ^ n"
  by (simp add: pow2_def)

lemma pow2_mono: "a \<le> b \<Longrightarrow> pow2 a \<le> pow2 b"
  using pow2_add [of a "b - a"] by (simp add: pow2_def [of "b - a"])

lemma bitlen_pow2_bounds:
  assumes "0 < (a::int)"
  shows "pow2 (bitlen a - 1) \<le> of_int a" and "of_int a < pow2 (bitlen a)"
proof -
  have "0 < bitlen a"
    using assms bitlen_nonneg [of a] bitlen_eq_zero_iff [of a] by linarith
  then have k: "pow2 (bitlen a - 1) = 2 ^ nat (bitlen a - 1)" "pow2 (bitlen a) = 2 ^ nat (bitlen a)"
    by (simp_all add: pow2_def)
  from bitlen_bounds [OF assms]
  have "2 ^ nat (bitlen a - 1) \<le> a \<and> a < 2 ^ nat (bitlen a)" .
  then have "(of_int (2 ^ nat (bitlen a - 1)) :: rat) \<le> of_int a \<and> (of_int a :: rat) < of_int (2 ^ nat (bitlen a))"
    by (simp only: of_int_le_iff of_int_less_iff)
  then show "pow2 (bitlen a - 1) \<le> of_int a" "of_int a < pow2 (bitlen a)"
    by (simp_all add: k)
qed

lemma lead_exp_bounds:
  assumes "0 < x"
  shows "pow2 (lead_exp x) \<le> x" and "x < pow2 (lead_exp x + 1)"
proof -
  obtain a b where q: "quotient_of x = (a, b)"
    by (cases "quotient_of x")
  have b: "0 < b" and x: "x = of_int a / of_int b"
    using q quotient_of_denom_pos quotient_of_div by auto
  have a: "0 < a"
    using assms b by (simp add: x zero_less_divide_iff)
  define k where "k = bitlen a - bitlen b"
  have "x < pow2 (bitlen a) / pow2 (bitlen b - 1)"
    unfolding x using bitlen_pow2_bounds [OF a] bitlen_pow2_bounds [OF b] a b
    by (intro frac_less) auto
  also have "\<dots> = pow2 (k + 1)"
    using pow2_add [of "k + 1" "bitlen b - 1"] by (simp add: k_def)
  finally have up: "x < pow2 (k + 1)" .
  have "pow2 (bitlen a - 1) / pow2 (bitlen b) \<le> x"
    unfolding x using bitlen_pow2_bounds [OF a] bitlen_pow2_bounds [OF b] a b
    by (intro frac_le) auto
  moreover have "pow2 (bitlen a - 1) / pow2 (bitlen b) = pow2 (k - 1)"
    using pow2_add [of "k - 1" "bitlen b"] by (simp add: k_def)
  ultimately have lo: "pow2 (k - 1) \<le> x" by simp
  show "pow2 (lead_exp x) \<le> x" and "x < pow2 (lead_exp x + 1)"
    using up lo by (auto simp: lead_exp_def q Let_def k_def [symmetric])
qed

lemma round_half_even_int [simp]: "round_half_even (of_int n) = n"
  by (simp add: round_half_even_def)

lemma round_half_even_near: "\<bar>of_int (round_half_even x) - x\<bar> \<le> 1 / 2"
  using floor_correct [of x] by (auto simp: round_half_even_def Let_def)

text \<open>Every integer below \<open>2 ^ 53\<close> is a double.\<close>

lemma dbl_of_nat:
  assumes "n < 2 ^ 53"
  shows "dbl (of_nat n) = of_nat n"
proof (cases "n = 0")
  case False
  let ?e = "lead_exp (of_nat n)"
  have "pow2 ?e \<le> of_nat n"
    using False by (intro lead_exp_bounds) simp
  also have "(of_nat n :: rat) < of_nat (2 ^ 53)"
    using assms by (simp only: of_nat_less_iff)
  finally have "pow2 ?e < pow2 53"
    by (simp add: pow2_def)
  then have "?e \<le> 52"
    using pow2_mono [of 53 ?e] by linarith
  then obtain m where m: "52 - ?e = int m"
    using nonneg_int_cases [of "52 - ?e"] by auto
  have "pow2 (?e - 52) * pow2 (int m) = 1"
    using pow2_add [of "?e - 52" "int m"] m by (simp add: pow2_def)
  then have "of_nat n / pow2 (?e - 52) = of_nat n * pow2 (int m)"
    by (simp add: divide_eq_eq mult.assoc mult.commute [of "pow2 (int m)"])
  also have "\<dots> = of_int (int n * 2 ^ m)"
    by (simp add: pow2_nat)
  finally have q: "of_nat n / pow2 (?e - 52) = of_int (int n * 2 ^ m)" .
  have "dbl (of_nat n) = of_int (round_half_even (of_nat n / pow2 (?e - 52))) * pow2 (?e - 52)"
    using False by (simp add: dbl_def Let_def)
  also have "\<dots> = of_nat n / pow2 (?e - 52) * pow2 (?e - 52)"
    by (simp only: q round_half_even_int)
  finally show ?thesis
    using pow2_pos [of "?e - 52"] by simp
qed (simp add: dbl_def)

text \<open>The relative error of a rounding is at most \<open>2 ^ -53\<close>.\<close>

lemma dbl_error:
  assumes "0 < x"
  shows "\<bar>dbl x - x\<bar> \<le> x * pow2 (- 53)"
proof -
  let ?u = "pow2 (lead_exp x - 52)"
  have "\<bar>of_int (round_half_even (x / ?u)) - x / ?u\<bar> * ?u \<le> 1 / 2 * ?u"
    by (intro mult_right_mono round_half_even_near) (simp add: less_imp_le)
  moreover have "\<bar>of_int (round_half_even (x / ?u)) - x / ?u\<bar> * ?u = \<bar>dbl x - x\<bar>"
    using assms abs_mult [of "of_int (round_half_even (x / ?u)) - x / ?u" ?u]
    by (simp add: dbl_def Let_def left_diff_distrib abs_of_pos)
  moreover have "1 / 2 * ?u = pow2 (lead_exp x) * pow2 (- 53)"
    using pow2_add [of "lead_exp x - 53" 1] pow2_add [of "lead_exp x" "- 53"] by simp
  moreover have "pow2 (lead_exp x) * pow2 (- 53) \<le> x * pow2 (- 53)"
    using lead_exp_bounds(1) [OF assms] by (intro mult_right_mono) (simp_all add: less_imp_le)
  ultimately show ?thesis by linarith
qed

end
