(* ===== verification/Wasm_Blocks.thy ===== *)
theory Wasm_Blocks
  imports Hook_Prelude Ieee_Double
begin

text \<open>
  The tree of wasm blocks the guard checker builds while it scans a function body
  (\<^verbatim>\<open>WasmBlkInf\<close> of \<^verbatim>\<open>src/ripple/app/hook/Guard.h\<close>) and the worst-case instruction count
  computed over it (\<^verbatim>\<open>compute_wce\<close>).

  The nodes are heap objects linked by pointers in both directions. The heap is a list of
  nodes and a pointer is an index into it; following a pointer outside the list is undefined
  behaviour. Nodes are only ever added, so the heap grows at its end.
\<close>

section \<open>Blocks\<close>

record wasm_blk =
  sanity_check :: u32
  iteration_bound :: u32
  instruction_count :: u32
  parent :: "nat option"
  children :: "nat list"
  start_byte :: u32
  is_root :: bool

type_synonym blk_heap = "wasm_blk list"

definition sanity_magic :: u32 where
  "sanity_magic = 0x1234ABCD"

definition WasmBlkInf :: "u32 \<Rightarrow> u32 \<Rightarrow> nat option \<Rightarrow> u32 \<Rightarrow> bool \<Rightarrow> wasm_blk" where
  "WasmBlkInf bound count par start rt =
     \<lparr>sanity_check = sanity_magic, iteration_bound = bound, instruction_count = count,
      parent = par, children = [], start_byte = start, is_root = rt\<rparr>"

definition blk_at :: "blk_heap \<Rightarrow> nat \<Rightarrow> wasm_blk outcome" where
  "blk_at H b = (if b < length H then Ok (H ! b) else Undef)"

lemma blk_at_eq [outcome_simps]:
  "blk_at H b = Ok x \<longleftrightarrow> b < length H \<and> x = H ! b"
  "blk_at H b = Undef \<longleftrightarrow> \<not> b < length H"
  "blk_at H b \<noteq> Reject e" "blk_at H b \<noteq> Throw t"
  by (auto simp: blk_at_def)

text \<open>\<^verbatim>\<open>this->add_child(bound, start)\<close>: the new node's address and the heap that holds it.\<close>

definition add_child :: "blk_heap \<Rightarrow> nat \<Rightarrow> u32 \<Rightarrow> u32 \<Rightarrow> nat \<times> blk_heap" where
  "add_child H this bound start =
     (let child = length H;
          H' = H[this := (H ! this)\<lparr>children := children (H ! this) @ [child]\<rparr>]
      in (child, H' @ [WasmBlkInf bound 0 (Some this) start False]))"

section \<open>Worst-case execution\<close>

text \<open>
  \<^verbatim>\<open>worst_case_execution *= multiplier\<close> with the multiplier the quotient of the two bounds, all
  in \<^verbatim>\<open>double\<close>, then back to \<^verbatim>\<open>uint64_t\<close> by truncation, which is undefined from \<open>2 ^ 64\<close> on; a
  result below 1 becomes 1.
\<close>

definition scale_wce :: "u64 \<Rightarrow> u32 \<Rightarrow> u32 \<Rightarrow> u64 outcome" where
  "scale_wce w bound pbound =
     (let multiplier = dbl (of_nat (unat bound) / of_nat (unat pbound));
          product = dbl (dbl (of_nat (unat w)) * multiplier)
      in if 2 ^ 64 \<le> product then Undef
         else let w' = of_int \<lfloor>product\<rfloor> :: u64 in if w' < 1 then Ok 1 else Ok w')"

text \<open>
  \<^verbatim>\<open>compute_wce(blk, level, &recursion_limit_reached)\<close>: the flag is threaded through as \<open>rl\<close>.
  The second function is the loop over the children.
\<close>

function compute_wce :: "blk_heap \<Rightarrow> nat \<Rightarrow> nat \<Rightarrow> bool \<Rightarrow> (u64 \<times> bool) outcome"
  and wce_children :: "blk_heap \<Rightarrow> nat list \<Rightarrow> nat \<Rightarrow> u64 \<Rightarrow> bool \<Rightarrow> (u64 \<times> bool) outcome"
where
  "compute_wce H b level rl =
     (if 16 < level then Ok (0, True)
      else obind (blk_at H b) (\<lambda>blk.
        if sanity_check blk \<noteq> sanity_magic then Ok (- 1, True)
        else (case parent blk of
            None \<Rightarrow> wce_children H (children blk) (level + 1) (ucast (instruction_count blk)) rl
          | Some p \<Rightarrow> obind (blk_at H p) (\<lambda>par.
              if sanity_check par \<noteq> sanity_magic then Ok (- 1, True)
              else obind (wce_children H (children blk) (level + 1) (ucast (instruction_count blk)) rl)
                (\<lambda>(w, rl'). if iteration_bound par = 0 then Ok (w, rl')
                  else obind (scale_wce w (iteration_bound blk) (iteration_bound par))
                    (\<lambda>w'. Ok (w', rl')))))))"
| "wce_children H [] level w rl = Ok (w, rl)"
| "wce_children H (c # cs) level w rl =
     obind (compute_wce H c level rl) (\<lambda>(v, rl'). wce_children H cs level (w + v) rl')"
  by pat_completeness auto
termination
  by (relation "measures [\<lambda>x. case x of Inl (H, b, level, rl) \<Rightarrow> 2 * (18 - level)
                            | Inr (H, cs, level, w, rl) \<Rightarrow> 2 * (18 - level) + 1,
                          \<lambda>x. case x of Inl _ \<Rightarrow> 0 | Inr (H, cs, level, w, rl) \<Rightarrow> length cs]") auto

declare compute_wce.simps [simp del]

section \<open>The exact count the computation stands for\<close>

text \<open>
  A guard bounds the total number of times its loop body is entered, so a block whose bound is
  \<open>n\<close> executes its own instructions at most \<open>n\<close> times. The reference is the sum of
  \<open>instruction_count * iteration_bound\<close> over the blocks of a subtree, down to \<open>d\<close> levels.
\<close>

fun block_total :: "blk_heap \<Rightarrow> nat \<Rightarrow> nat \<Rightarrow> nat" where
  "block_total H 0 b = 0"
| "block_total H (Suc d) b =
     unat (instruction_count (H ! b)) * unat (iteration_bound (H ! b))
     + (\<Sum>c \<leftarrow> children (H ! b). block_total H d c)"

text \<open>
  The trees on which no division has a remainder: links agree in both directions, every block
  has an instruction and a non-zero bound that its parent's bound divides, and the depth limit
  \<open>d\<close> is not reached.
\<close>

fun even_tree :: "blk_heap \<Rightarrow> nat \<Rightarrow> nat \<Rightarrow> bool" where
  "even_tree H 0 b \<longleftrightarrow> False"
| "even_tree H (Suc d) b \<longleftrightarrow>
     b < length H \<and> sanity_check (H ! b) = sanity_magic
     \<and> instruction_count (H ! b) \<noteq> 0 \<and> iteration_bound (H ! b) \<noteq> 0
     \<and> (\<forall>c \<in> set (children (H ! b)).
          parent (H ! c) = Some b
          \<and> unat (iteration_bound (H ! b)) dvd unat (iteration_bound (H ! c))
          \<and> even_tree H d c)"

text \<open>The two recursions at a numeral depth, for evaluation.\<close>

lemmas block_total_numeral = block_total.simps(2) [of _ "pred_numeral k" for k, folded numeral_eq_Suc]
lemmas even_tree_numeral = even_tree.simps(2) [of _ "pred_numeral k" for k, folded numeral_eq_Suc]

lemma scale_wce_exact:
  assumes k: "unat bound = k * unat pbound" and "pbound \<noteq> 0" and "0 < k" and "0 < unat w"
    and small: "unat w * k < 2 ^ 53"
  shows "scale_wce w bound pbound = Ok (of_nat (unat w * k))"
proof -
  have "(of_nat (unat pbound) :: rat) \<noteq> 0"
    using assms(2) by (simp only: of_nat_eq_0_iff unat_eq_0 not_False_eq_True)
  then have q: "(of_nat (unat bound) / of_nat (unat pbound) :: rat) = of_nat k"
    unfolding k of_nat_mult by (rule nonzero_mult_div_cancel_right)
  have "unat w \<le> unat w * k" "k \<le> unat w * k"
    using assms(3,4) by auto
  then have w53: "unat w < 2 ^ 53" and k53: "k < 2 ^ 53"
    using small by linarith+
  have prod: "dbl (dbl (of_nat (unat w)) * dbl (of_nat (unat bound) / of_nat (unat pbound)))
            = of_nat (unat w * k)"
    unfolding q dbl_of_nat [OF w53] dbl_of_nat [OF k53]
    using dbl_of_nat [OF small] by simp
  have lt: "(of_nat (unat w * k) :: rat) < of_nat (2 ^ 64)"
    unfolding of_nat_less_iff by (rule less_trans [OF small]) simp
  have nz: "\<not> (of_nat (unat w * k) :: u64) < 1"
    using assms(3,4) small unat_of_nat_u64 [of "unat w * k"]
    by (simp add: word_less_nat_alt del: of_nat_mult)
  show ?thesis
    unfolding scale_wce_def Let_def prod using lt nz
    by (simp add: not_le del: of_nat_mult)
qed

lemma wce_children_exact:
  assumes "\<And>c rl. c \<in> set cs \<Longrightarrow> \<exists>v. compute_wce H c level rl = Ok (v, rl) \<and> unat v * B = T c"
    and "0 < B" and "unat w * B + (\<Sum>c \<leftarrow> cs. T c) < 2 ^ 53"
  shows "\<exists>v. wce_children H cs level w rl = Ok (v, rl)
           \<and> unat v * B = unat w * B + (\<Sum>c \<leftarrow> cs. T c)"
  using assms
proof (induction cs arbitrary: w)
  case (Cons c cs)
  obtain v where v: "compute_wce H c level rl = Ok (v, rl)" "unat v * B = T c"
    using Cons.prems(1) [of c rl] by auto
  have "unat w * B + unat v * B < 2 ^ 53"
    using Cons.prems(3) v(2) by simp
  moreover have "unat w + unat v \<le> (unat w + unat v) * B"
    using Cons.prems(2) by simp
  ultimately have "unat w + unat v < 2 ^ 64"
    by (simp add: distrib_right)
  then have sum: "unat (w + v) = unat w + unat v"
    by (simp add: unat_word_ariths)
  have "\<exists>u. wce_children H cs level (w + v) rl = Ok (u, rl)
          \<and> unat u * B = unat (w + v) * B + (\<Sum>c \<leftarrow> cs. T c)"
    using Cons.prems v(2) by (intro Cons.IH) (auto simp: sum distrib_right)
  then show ?case
    using v by (auto simp: sum distrib_right)
qed simp

lemma compute_wce_even:
  assumes "even_tree H d b" and "level + d = 17" and "block_total H d b < 2 ^ 53"
    and "parent (H ! b) = Some p" and "p < length H" and "sanity_check (H ! p) = sanity_magic"
    and "iteration_bound (H ! p) \<noteq> 0"
    and "unat (iteration_bound (H ! p)) dvd unat (iteration_bound (H ! b))"
  shows "\<exists>w. compute_wce H b level rl = Ok (w, rl)
           \<and> unat w * unat (iteration_bound (H ! p)) = block_total H d b"
  using assms
proof (induction d arbitrary: b level p rl)
  case (Suc d)
  let ?B = "unat (iteration_bound (H ! b))"
  have b: "b < length H" "sanity_check (H ! b) = sanity_magic" "0 < ?B"
      "0 < unat (instruction_count (H ! b))"
    using Suc.prems(1) by (auto simp: unat_gt_0)
  have tot: "block_total H (Suc d) b
      = unat (ucast (instruction_count (H ! b)) :: u64) * ?B + (\<Sum>c \<leftarrow> children (H ! b). block_total H d c)"
    by simp
  have "\<exists>v. wce_children H (children (H ! b)) (level + 1) (ucast (instruction_count (H ! b))) rl = Ok (v, rl)
      \<and> unat v * ?B = block_total H (Suc d) b"
    unfolding tot
  proof (rule wce_children_exact)
    fix c rl
    assume c: "c \<in> set (children (H ! b))"
    then have "block_total H d c \<le> (\<Sum>c \<leftarrow> children (H ! b). block_total H d c)"
      by (intro member_le_sum_list) auto
    then have "block_total H d c < 2 ^ 53"
      using Suc.prems(3) by simp
    then show "\<exists>v. compute_wce H c (level + 1) rl = Ok (v, rl) \<and> unat v * ?B = block_total H d c"
      using Suc.prems(1,2) c b by (intro Suc.IH) auto
  qed (use Suc.prems(3) tot b in auto)
  then obtain v where v: "wce_children H (children (H ! b)) (level + 1) (ucast (instruction_count (H ! b))) rl = Ok (v, rl)"
      "unat v * ?B = block_total H (Suc d) b"
    by blast
  obtain k where k: "?B = k * unat (iteration_bound (H ! p))"
    using Suc.prems(8) by (auto simp: dvd_def mult.commute)
  have "0 < unat v * ?B"
    unfolding v(2) tot using b(3,4) by simp
  then have pos: "0 < k" "0 < unat v" "0 < unat (iteration_bound (H ! p))"
    using b(3) unfolding k by (simp_all only: nat_0_less_mult_iff)
  have "unat v * k \<le> unat v * ?B"
    using k pos by simp
  then have small: "unat v * k < 2 ^ 53"
    using v(2) Suc.prems(3) by linarith
  have "compute_wce H b level rl = Ok (of_nat (unat v * k), rl)"
    using Suc.prems(2,4,5,6,7) b(1,2) v(1) scale_wce_exact [OF k Suc.prems(7) pos(1,2) small]
    by (subst compute_wce.simps) (simp add: blk_at_def del: of_nat_mult)
  moreover have "unat (of_nat (unat v * k) :: u64) = unat v * k"
    using small by (intro unat_of_nat_u64) simp
  ultimately show ?case
    using v(2) k by (auto simp: mult.assoc)
qed simp

text \<open>
  C26: on a tree whose bounds divide one another the floating point recursion is exact. Whenever
  every block's bound is a multiple of its parent's and fewer than 17 levels are nested, the
  value \<^verbatim>\<open>compute_wce\<close> returns for the root is the sum of \<open>instruction_count * iteration_bound\<close>
  over all blocks, the depth flag stays unset, and no conversion or pointer is undefined.
\<close>

theorem compute_wce_exact:
  assumes "even_tree H 17 r" and "parent (H ! r) = None" and "iteration_bound (H ! r) = 1"
    and "block_total H 17 r < 2 ^ 53"
  shows "compute_wce H r 0 False = Ok (of_nat (block_total H 17 r), False)"
proof -
  note tree = even_tree.simps(2) [of H 16 r] and total = block_total.simps(2) [of H 16 r]
  have r: "r < length H" "sanity_check (H ! r) = sanity_magic"
    using assms(1) tree by simp_all
  have tot: "block_total H 17 r
      = unat (ucast (instruction_count (H ! r)) :: u64) * 1 + (\<Sum>c \<leftarrow> children (H ! r). block_total H 16 c)"
    using assms(3) total by simp
  have "\<exists>v. wce_children H (children (H ! r)) 1 (ucast (instruction_count (H ! r))) False = Ok (v, False)
      \<and> unat v * 1 = block_total H 17 r"
    unfolding tot
  proof (rule wce_children_exact)
    fix c rl
    assume c: "c \<in> set (children (H ! r))"
    then have "block_total H 16 c \<le> (\<Sum>c \<leftarrow> children (H ! r). block_total H 16 c)"
      by (intro member_le_sum_list) auto
    then have "block_total H 16 c < 2 ^ 53"
      using assms(4) tot by simp
    then show "\<exists>v. compute_wce H c 1 rl = Ok (v, rl) \<and> unat v * 1 = block_total H 16 c"
      using compute_wce_even [of H 16 c 1 r rl] assms(1,3) c r tree by simp
  qed (use assms(4) tot in auto)
  then obtain v where v: "wce_children H (children (H ! r)) 1 (ucast (instruction_count (H ! r))) False = Ok (v, False)"
      "unat v = block_total H 17 r"
    by auto
  then have "v = of_nat (block_total H 17 r)"
    by (metis of_nat_unat ucast_id)
  with v(1) assms(2) r show ?thesis
    by (subst compute_wce.simps) (simp add: blk_at_def)
qed

definition wce_example :: blk_heap where
  "wce_example =
     [(WasmBlkInf 1 7 None 40 True)\<lparr>children := [1]\<rparr>,
      (WasmBlkInf 10 6 (Some 0) 44 False)\<lparr>children := [2]\<rparr>,
      WasmBlkInf 50 5 (Some 1) 52 False]"

theorem compute_wce_exact_witness:
  "block_total wce_example 17 0 = 317 \<and> compute_wce wce_example 0 0 False = Ok (317, False)"
proof -
  have t: "block_total wce_example 17 0 = 317"
    by (simp add: wce_example_def WasmBlkInf_def block_total_numeral)
  have "even_tree wce_example 17 0"
    by (simp add: wce_example_def WasmBlkInf_def even_tree_numeral)
  then have "compute_wce wce_example 0 0 False = Ok (of_nat (block_total wce_example 17 0), False)"
    by (rule compute_wce_exact) (simp_all add: t, simp_all add: wce_example_def WasmBlkInf_def)
  then show ?thesis by (simp add: t)
qed

section \<open>The nesting limit\<close>

text \<open>\<open>block_path H n r c\<close>: \<open>c\<close> is reached from \<open>r\<close> through \<open>n\<close> child links.\<close>

inductive block_path :: "blk_heap \<Rightarrow> nat \<Rightarrow> nat \<Rightarrow> nat \<Rightarrow> bool" where
  here: "block_path H 0 r r"
| down: "block_path H n r b \<Longrightarrow> c \<in> set (children (H ! b)) \<Longrightarrow> block_path H (Suc n) r c"

text \<open>Once set, the flag stays set.\<close>

lemma wce_flag_sticky:
  "compute_wce H b level rl = Ok (w, rl') \<Longrightarrow> rl \<Longrightarrow> rl'"
  "wce_children H cs level w0 rl = Ok (w, rl') \<Longrightarrow> rl \<Longrightarrow> rl'"
proof (induction H b level rl and H cs level w0 rl arbitrary: w rl' and w rl'
    rule: compute_wce_wce_children.induct)
  case (1 H b level rl)
  from "1.prems" show ?case
    by (subst (asm) compute_wce.simps)
      (auto simp: outcome_simps split: if_splits option.splits dest: "1.IH")
qed (auto simp: outcome_simps)

lemma wce_children_visits:
  "wce_children H cs level w0 rl = Ok (w, False) \<Longrightarrow> c \<in> set cs \<Longrightarrow>
     \<exists>v rl0. compute_wce H c level rl0 = Ok (v, False)"
proof (induction cs arbitrary: w0 rl)
  case (Cons d cs)
  then show ?case
    by (auto simp: outcome_simps) (metis (full_types) wce_flag_sticky(2))+
qed simp

lemma compute_wce_visits:
  assumes "compute_wce H b level rl = Ok (w, False)"
  shows "level \<le> 16" and "c \<in> set (children (H ! b)) \<Longrightarrow> \<exists>v rl0. compute_wce H c (Suc level) rl0 = Ok (v, False)"
  using assms by (subst (asm) compute_wce.simps,
      auto simp: outcome_simps split: if_splits option.splits dest: wce_children_visits)+

lemma block_path_visited:
  assumes "block_path H n r c" and "compute_wce H r 0 rl = Ok (w, False)"
  shows "\<exists>v rl0. compute_wce H c n rl0 = Ok (v, False)"
  using assms
  by (induction rule: block_path.induct) (auto dest: compute_wce_visits(2))

lemma nesting_bounded:
  "block_path H n r c \<Longrightarrow> compute_wce H r 0 rl = Ok (w, False) \<Longrightarrow> n \<le> 16"
  using block_path_visited compute_wce_visits(1) by blast

section \<open>Well-formed block heaps\<close>

text \<open>
  What the scan keeps true of the heap: the root is node 0 and the only node without a parent,
  every other node is younger than its parent, the links agree in both directions, no node is
  corrupted and no bound is zero.
\<close>

definition blocks_wf :: "blk_heap \<Rightarrow> bool" where
  "blocks_wf H \<longleftrightarrow>
     0 < length H \<and> iteration_bound (H ! 0) = 1
     \<and> (\<forall>b < length H. sanity_check (H ! b) = sanity_magic \<and> iteration_bound (H ! b) \<noteq> 0
          \<and> (case parent (H ! b) of None \<Rightarrow> b = 0 | Some p \<Rightarrow> p < b)
          \<and> (\<forall>c \<in> set (children (H ! b)). c < length H \<and> parent (H ! c) = Some b))"

lemma blocks_wfD:
  assumes "blocks_wf H" and "b < length H"
  shows "sanity_check (H ! b) = sanity_magic" and "iteration_bound (H ! b) \<noteq> 0"
    and "parent (H ! b) = Some p \<Longrightarrow> p < b" and "parent (H ! b) = None \<Longrightarrow> b = 0"
    and "c \<in> set (children (H ! b)) \<Longrightarrow> c < length H \<and> parent (H ! c) = Some b"
proof -
  from assms have node: "sanity_check (H ! b) = sanity_magic \<and> iteration_bound (H ! b) \<noteq> 0
      \<and> (case parent (H ! b) of None \<Rightarrow> b = 0 | Some p \<Rightarrow> p < b)
      \<and> (\<forall>c \<in> set (children (H ! b)). c < length H \<and> parent (H ! c) = Some b)"
    unfolding blocks_wf_def by blast
  then show "sanity_check (H ! b) = sanity_magic" "iteration_bound (H ! b) \<noteq> 0"
    by simp_all
  from node show "parent (H ! b) = Some p \<Longrightarrow> p < b" "parent (H ! b) = None \<Longrightarrow> b = 0"
    by simp_all
  from node show "c \<in> set (children (H ! b)) \<Longrightarrow> c < length H \<and> parent (H ! c) = Some b"
    by simp
qed

text \<open>\<open>ancestry H b n\<close>: \<open>b\<close> has exactly \<open>n\<close> ancestors.\<close>

inductive ancestry :: "blk_heap \<Rightarrow> nat \<Rightarrow> nat \<Rightarrow> bool" where
  top: "parent (H ! b) = None \<Longrightarrow> ancestry H b 0"
| up: "parent (H ! b) = Some p \<Longrightarrow> ancestry H p n \<Longrightarrow> ancestry H b (Suc n)"

inductive_simps ancestry_0: "ancestry H b 0"
inductive_simps ancestry_Suc: "ancestry H b (Suc n)"

lemma ancestry_frame:
  assumes "ancestry H b n" and "blocks_wf H" and "b < length H"
    and "\<And>x. x < length H \<Longrightarrow> parent (H' ! x) = parent (H ! x)"
  shows "ancestry H' b n"
  using assms
proof (induction rule: ancestry.induct)
  case (top H b)
  then show ?case by (auto intro: ancestry.top)
next
  case (up H b p n)
  then have "p < length H"
    using blocks_wfD(3) by (metis less_trans)
  with up show ?case by (auto intro: ancestry.up)
qed

lemma blocks_wf_add_child:
  assumes "blocks_wf H" and "b < length H" and "bound \<noteq> 0"
  shows "blocks_wf (snd (add_child H b bound start))"
  using assms
  by (auto simp: blocks_wf_def add_child_def WasmBlkInf_def Let_def nth_append nth_list_update
      less_Suc_eq split: option.splits if_splits)

lemma add_child_nth:
  "fst (add_child H b bound start) = length H"
  "length (snd (add_child H b bound start)) = Suc (length H)"
  "x < length H \<Longrightarrow> parent (snd (add_child H b bound start) ! x) = parent (H ! x)"
  "parent (snd (add_child H b bound start) ! length H) = Some b"
  by (cases "x = b"; simp add: add_child_def Let_def nth_append WasmBlkInf_def)+

lemma ancestry_add_child:
  assumes "blocks_wf H" and "b < length H" and "ancestry H b n"
  shows "ancestry (snd (add_child H b bound start)) (length H) (Suc n)"
proof (rule ancestry.up)
  show "parent (snd (add_child H b bound start) ! length H) = Some b"
    by (rule add_child_nth)
  show "ancestry (snd (add_child H b bound start)) b n"
    by (rule ancestry_frame [OF assms(3,1,2)]) (rule add_child_nth)
qed

end
