(* ===== verification/Guard_Check.thy ===== *)
theory Guard_Check
  imports Leb128 Wasm_Blocks
begin

unbundle bit_operations_syntax

text \<open>
  \<^verbatim>\<open>check_guard\<close> of \<^verbatim>\<open>src/ripple/app/hook/Guard.h\<close>: the scan of one function body of a hook,
  instruction by instruction, that refuses unguarded loops, calls outside the imports,
  indirect calls and \<^verbatim>\<open>memory.grow\<close>, and computes the worst-case instruction count.

  One turn of the scanning loop is \<open>guard_step\<close>, a function from the state of the loop's
  variables to the next one; its branches are the instruction groups of the source in the
  source's order. Offsets are mathematical integers: a hook is at most 65535 bytes long.
\<close>

section \<open>State of the scan\<close>

record guard_state =
  gi :: int
  guard_count :: u32
  block_depth :: int
  blocks :: blk_heap
  current :: "nat option"

record guard_cfg =
  end_offset :: int
  guard_func_idx :: int
  last_import_idx :: int

datatype step_result = Continue guard_state | Break guard_state

definition MAX_GUARD_CALLS :: u32 where
  "MAX_GUARD_CALLS = 1024"

section \<open>The macros\<close>

text \<open>\<^verbatim>\<open>REQUIRE(x)\<close>, and the two shapes that consume operands: an LEB128 number that is
  discarded, preceded by \<^verbatim>\<open>REQUIRE(1)\<close>, and a run of raw bytes.\<close>

definition REQUIRE :: "bytes \<Rightarrow> int \<Rightarrow> int \<Rightarrow> unit outcome" where
  "REQUIRE h i x = refuse_if (\<not> within_size (i + x) h) SHORT_HOOK"

definition skip_leb :: "bytes \<Rightarrow> int \<Rightarrow> int outcome" where
  "skip_leb h i = obind (REQUIRE h i 1) (\<lambda>_. obind (parseLeb128 h i) (\<lambda>(_, i'). Ok i'))"

definition skip_bytes :: "bytes \<Rightarrow> int \<Rightarrow> int \<Rightarrow> int outcome" where
  "skip_bytes h i n = obind (REQUIRE h i n) (\<lambda>_. Ok (i + n))"

fun skip_lebs :: "bytes \<Rightarrow> nat \<Rightarrow> int \<Rightarrow> int outcome" where
  "skip_lebs h 0 i = Ok i"
| "skip_lebs h (Suc n) i = obind (skip_leb h i) (skip_lebs h n)"

section \<open>Instruction groups\<close>

text \<open>\<^verbatim>\<open>block\<close>, \<^verbatim>\<open>loop\<close>, \<^verbatim>\<open>if\<close>: the block type, one byte or a signed LEB128 type index.\<close>

definition skip_block_type :: "bytes \<Rightarrow> int \<Rightarrow> int outcome" where
  "skip_block_type h i =
     obind (REQUIRE h i 1) (\<lambda>_. obind (byte_at h i) (\<lambda>block_type.
       if (0x7C \<le> block_type \<and> block_type \<le> 0x7F) \<or> block_type = 0x7B \<or> block_type = 0x70
          \<or> block_type = 0x7B \<or> block_type = 0x40
       then Ok (i + 1)
       else obind (parseSignedLeb128 h i) (\<lambda>(_, i'). Ok i')))"

text \<open>
  The three instructions that must open a loop body: \<^verbatim>\<open>i32.const id\<close>, \<^verbatim>\<open>i32.const bound\<close>,
  \<^verbatim>\<open>call _g\<close>. Returns the bound, the callee and the offset after the call.
\<close>

definition expect_opcode :: "bytes \<Rightarrow> int \<Rightarrow> u8 \<Rightarrow> int outcome" where
  "expect_opcode h i op =
     obind (REQUIRE h i 1) (\<lambda>_. obind (byte_at h i) (\<lambda>b.
       obind (refuse_if (b \<noteq> op) GUARD_MISSING) (\<lambda>_. Ok (i + 1))))"

definition guard_prologue :: "bytes \<Rightarrow> int \<Rightarrow> (u32 \<times> u64 \<times> int) outcome" where
  "guard_prologue h i =
     obind (expect_opcode h i 0x41) (\<lambda>i.
     obind (parseSignedLeb128 h i) (\<lambda>(_, i).
     obind (expect_opcode h i 0x41) (\<lambda>i.
     obind (parseLeb128 h i) (\<lambda>(bound, i).
     obind (expect_opcode h i 0x10) (\<lambda>i.
     obind (parseLeb128 h i) (\<lambda>(callee, i).
     Ok (ucast bound, callee, i)))))))"

definition step_block ::
  "bytes \<Rightarrow> guard_cfg \<Rightarrow> u8 \<Rightarrow> nat \<Rightarrow> guard_state \<Rightarrow> step_result outcome" where
  "step_block h cfg instr cur st =
     obind (skip_block_type h (gi st)) (\<lambda>i.
     obind (blk_at (blocks st) cur) (\<lambda>blk.
     obind
       (if instr = 0x03 then
          obind (guard_prologue h i) (\<lambda>(bound, call_func_idx, i).
          obind (refuse_if (bound = 0) GUARD_MISSING) (\<lambda>_.
          obind (refuse_if (call_func_idx \<noteq> of_int (guard_func_idx cfg)) GUARD_MISSING) (\<lambda>_.
          obind (refuse_if (MAX_GUARD_CALLS < guard_count st) GUARD_MISSING) (\<lambda>_.
          Ok (bound, guard_count st + 1, i)))))
        else Ok (if parent blk = None then 1 else iteration_bound blk, guard_count st, i))
       (\<lambda>(bound, gcount, i).
          let (child, H) = add_child (blocks st) cur bound (of_int i)
          in Ok (Continue (st\<lparr>gi := i, guard_count := gcount, blocks := H, current := Some child,
                             block_depth := block_depth st + 1\<rparr>)))))"

text \<open>\<^verbatim>\<open>end\<close>: back to the parent block; the end of the body leaves the loop.\<close>

definition step_end :: "guard_cfg \<Rightarrow> nat \<Rightarrow> guard_state \<Rightarrow> step_result outcome" where
  "step_end cfg cur st =
     obind (blk_at (blocks st) cur) (\<lambda>blk.
       let depth = block_depth st - 1;
           st' = st\<lparr>block_depth := depth, current := parent blk\<rparr>
       in (case parent blk of
             None \<Rightarrow> if depth = - 1 \<and> end_offset cfg \<le> gi st then Ok (Break st') else Reject GUARD_MISSING
           | Some p \<Rightarrow> if depth < 0 then Reject GUARD_MISSING
                       else obind (blk_at (blocks st) p) (\<lambda>par.
                              if sanity_check par \<noteq> sanity_magic then Reject GUARD_MISSING
                              else Ok (Continue st'))))"

text \<open>\<^verbatim>\<open>br_table\<close>: the count is read without \<^verbatim>\<open>REQUIRE\<close> and kept in an \<^verbatim>\<open>int\<close>.\<close>

definition skip_br_table :: "bytes \<Rightarrow> int \<Rightarrow> int outcome" where
  "skip_br_table h i =
     obind (parseLeb128 h i) (\<lambda>(vec_count, i).
     obind (skip_lebs h (nat (to_int32 vec_count)) i) (skip_leb h))"

definition step_call :: "bytes \<Rightarrow> guard_cfg \<Rightarrow> guard_state \<Rightarrow> step_result outcome" where
  "step_call h cfg st =
     obind (REQUIRE h (gi st) 1) (\<lambda>_.
     obind (parseLeb128 h (gi st)) (\<lambda>(callee_idx, i).
     obind (refuse_if (of_int (last_import_idx cfg) < callee_idx) CALL_ILLEGAL) (\<lambda>_.
     if callee_idx = of_int (guard_func_idx cfg) then
       obind (refuse_if (MAX_GUARD_CALLS < guard_count st) GUARD_MISSING) (\<lambda>_.
         Ok (Continue (st\<lparr>gi := i, guard_count := guard_count st + 1\<rparr>)))
     else Ok (Continue (st\<lparr>gi := i\<rparr>)))))"

definition skip_reference :: "bytes \<Rightarrow> u8 \<Rightarrow> int \<Rightarrow> int outcome" where
  "skip_reference h instr i =
     (if instr = 0xD0 then
        obind (REQUIRE h i 1) (\<lambda>_. obind (byte_at h i) (\<lambda>b.
          obind (refuse_if (\<not> (b = 0x70 \<or> b = 0x6F)) GUARD_MISSING) (\<lambda>_. Ok (i + 1))))
      else if instr = 0xD2 then skip_leb h i
      else Ok i)"

text \<open>\<^verbatim>\<open>select t*\<close>: a vector of value types.\<close>

fun skip_valtypes :: "bytes \<Rightarrow> nat \<Rightarrow> int \<Rightarrow> int outcome" where
  "skip_valtypes h 0 i = Ok i"
| "skip_valtypes h (Suc n) i =
     obind (REQUIRE h i 1) (\<lambda>_. obind (byte_at h i) (\<lambda>v.
       if (0x7B \<le> v \<and> v \<le> 0x7F) \<or> v = 0x70 \<or> v = 0x6F then skip_valtypes h n (i + 1)
       else Reject GUARD_MISSING))"

definition skip_parametric :: "bytes \<Rightarrow> u8 \<Rightarrow> int \<Rightarrow> int outcome" where
  "skip_parametric h instr i =
     (if instr = 0x1C then
        obind (REQUIRE h i 1) (\<lambda>_. obind (parseLeb128 h i) (\<lambda>(vec_count, i).
          skip_valtypes h (unat vec_count) i))
      else Ok i)"

definition skip_table :: "bytes \<Rightarrow> u8 \<Rightarrow> int \<Rightarrow> int outcome" where
  "skip_table h instr i =
     obind (REQUIRE h i 1) (\<lambda>_.
     if instr \<noteq> 0xFC then obind (parseLeb128 h i) (\<lambda>(_, i). Ok i)
     else
       obind (parseLeb128 h i) (\<lambda>(fc_type, i).
       obind (REQUIRE h i 1) (\<lambda>_.
       if 12 \<le> fc_type \<and> fc_type \<le> 17 then
         obind (parseLeb128 h i) (\<lambda>(_, i).
           if fc_type = 12 \<or> fc_type = 14 then skip_leb h i else Ok i)
       else if fc_type = 8 then
         obind (parseLeb128 h i) (\<lambda>(_, i). skip_bytes h i 1)
       else if fc_type = 9 then obind (parseLeb128 h i) (\<lambda>(_, i). Ok i)
       else if fc_type = 10 then skip_bytes h i 2
       else if fc_type = 11 then Ok (i + 1)
       else if fc_type \<le> 7 then Ok i
       else Reject GUARD_MISSING)))"

definition skip_vector :: "bytes \<Rightarrow> int \<Rightarrow> int outcome" where
  "skip_vector h i =
     obind (REQUIRE h i 1) (\<lambda>_. obind (parseLeb128 h i) (\<lambda>(v, i).
       if v \<le> 11 then skip_lebs h 2 i
       else if 84 \<le> v \<and> v \<le> 91 then obind (skip_lebs h 2 i) (\<lambda>i. skip_bytes h i 1)
       else if 21 \<le> v \<and> v \<le> 34 then skip_bytes h i 1
       else if v = 12 \<or> v = 13 then skip_bytes h i 16
       else Ok i))"

section \<open>One turn of the loop\<close>

text \<open>The instructions that only consume operands, from the table instructions on.\<close>

definition skip_operands :: "bytes \<Rightarrow> u8 \<Rightarrow> int \<Rightarrow> int outcome" where
  "skip_operands h instr i =
     (if 0xD0 \<le> instr \<and> instr \<le> 0xD2 then skip_reference h instr i
      else if instr = 0x1A \<or> instr = 0x1B \<or> instr = 0x1C then skip_parametric h instr i
      else if 0x20 \<le> instr \<and> instr \<le> 0x24 then skip_leb h i
      else if instr = 0x25 \<or> instr = 0x26 \<or> instr = 0xFC then skip_table h instr i
      else if 0x28 \<le> instr \<and> instr \<le> 0x3E then skip_lebs h 2 i
      else if instr = 0x3F \<or> instr = 0x40 then
        obind (REQUIRE h i 1) (\<lambda>_. if instr = 0x40 then Reject MEMORY_GROW else Ok (i + 1))
      else if instr = 0x41 \<or> instr = 0x42 then skip_leb h i
      else if instr = 0x43 then skip_bytes h i 4
      else if instr = 0x44 then skip_bytes h i 8
      else if 0x45 \<le> instr \<and> instr \<le> 0xC4 then Ok i
      else if instr = 0xFD then skip_vector h i
      else Reject GUARD_MISSING)"

definition count_instruction :: "blk_heap \<Rightarrow> nat \<Rightarrow> blk_heap" where
  "count_instruction H cur =
     H[cur := (H ! cur)\<lparr>instruction_count := instruction_count (H ! cur) + 1\<rparr>]"

definition guard_step :: "bytes \<Rightarrow> guard_cfg \<Rightarrow> guard_state \<Rightarrow> step_result outcome" where
  "guard_step h cfg st =
     obind (REQUIRE h (gi st) 1) (\<lambda>_.
     obind (byte_at h (gi st)) (\<lambda>instr.
     (case current st of
        None \<Rightarrow> Undef
      | Some cur \<Rightarrow>
          obind (blk_at (blocks st) cur) (\<lambda>_.
          let st = st\<lparr>gi := gi st + 1, blocks := count_instruction (blocks st) cur\<rparr> in
          if instr = 0x00 \<or> instr = 0x01 \<or> instr = 0x05 then Ok (Continue st)
          else if instr = 0x02 \<or> instr = 0x03 \<or> instr = 0x04 then step_block h cfg instr cur st
          else if instr = 0x0B then step_end cfg cur st
          else if instr = 0x0C \<or> instr = 0x0D then
            obind (skip_leb h (gi st)) (\<lambda>i. Ok (Continue (st\<lparr>gi := i\<rparr>)))
          else if instr = 0x0E then
            obind (skip_br_table h (gi st)) (\<lambda>i. Ok (Continue (st\<lparr>gi := i\<rparr>)))
          else if instr = 0x0F then Ok (Continue st)
          else if instr = 0x10 then step_call h cfg st
          else if instr = 0x11 then Reject CALL_INDIRECT
          else obind (skip_operands h instr (gi st)) (\<lambda>i. Ok (Continue (st\<lparr>gi := i\<rparr>)))))))"

section \<open>What consuming operands promises\<close>

text \<open>
  Every operand group is a function from an offset to a later one, and is defined as long as
  the buffer has no run of five continuation bytes. The laws are closed under sequencing.
\<close>

locale skipper =
  fixes sk :: "bytes \<Rightarrow> int \<Rightarrow> int outcome"
  assumes sk_mono: "sk h i = Ok j \<Longrightarrow> i \<le> j"
    and sk_defined: "no_cont_run 5 h \<Longrightarrow> 0 \<le> i \<Longrightarrow> sk h i \<noteq> Undef"
begin

lemma sk_then:
  assumes "skipper sk2"
  shows "skipper (\<lambda>h i. obind (sk h i) (sk2 h))"
proof unfold_locales
  fix h i j
  assume "obind (sk h i) (sk2 h) = Ok j"
  then show "i \<le> j"
    using sk_mono skipper.sk_mono [OF assms] by (force simp: outcome_simps)
next
  fix h i
  assume "no_cont_run 5 h" and "0 \<le> (i::int)"
  then show "obind (sk h i) (sk2 h) \<noteq> Undef"
    using sk_mono sk_defined skipper.sk_defined [OF assms] by (force simp: outcome_simps)
qed

end

lemma REQUIRE_eq [outcome_simps]:
  "REQUIRE h i x = Ok u \<longleftrightarrow> within_size (i + x) h" "REQUIRE h i x \<noteq> Undef"
  "REQUIRE h i x = Reject e \<longleftrightarrow> \<not> within_size (i + x) h \<and> e = SHORT_HOOK"
  "REQUIRE h i x \<noteq> Throw t"
  by (auto simp: REQUIRE_def outcome_simps)

lemma within_below: "within_size (i + 1) h \<Longrightarrow> 0 \<le> i \<Longrightarrow> below_size i h"
  by (simp add: within_size_def below_size_def)

lemma reads_defined [simp]:
  "no_cont_run 5 h \<Longrightarrow> parseLeb128 h i \<noteq> Undef" "no_cont_run 5 h \<Longrightarrow> parseSignedLeb128 h i \<noteq> Undef"
  by (simp_all add: parseLeb128_defined parseSignedLeb128_defined no_cont_run_mono [of 5 h 10])

lemmas read_mono = uleb.rd_mono sleb.rd_mono

named_theorems skip_intro "the operand groups are skippers"

interpretation skip_leb: skipper skip_leb
  by unfold_locales (auto simp: skip_leb_def outcome_simps dest!: read_mono)

interpretation skip_bytes: skipper "\<lambda>h i. skip_bytes h i (int n)" for n
  by unfold_locales (auto simp: skip_bytes_def outcome_simps)

lemma skipper_lebs: "skipper (\<lambda>h. skip_lebs h n)"
proof (induction n)
  case 0
  show ?case by unfold_locales auto
next
  case (Suc n)
  then show ?case
    using skip_leb.sk_then [of "\<lambda>h. skip_lebs h n"] by simp
qed

interpretation skip_lebs: skipper "\<lambda>h. skip_lebs h n" for n
  by (rule skipper_lebs)

interpretation skip_block_type: skipper skip_block_type
  by unfold_locales
    (auto simp: skip_block_type_def outcome_simps within_below split: if_splits dest!: read_mono)

lemma skip_br_table_mono: "skip_br_table h i = Ok j \<Longrightarrow> i \<le> j"
  unfolding skip_br_table_def outcome_simps
  by (clarsimp simp: outcome_simps) (meson order_trans uleb.rd_mono skip_lebs.sk_mono skip_leb.sk_mono)

lemma skip_br_table_defined: "no_cont_run 5 h \<Longrightarrow> 0 \<le> i \<Longrightarrow> skip_br_table h i \<noteq> Undef"
  unfolding skip_br_table_def outcome_simps
  by (auto simp: outcome_simps)
    (meson order_trans uleb.rd_mono skip_lebs.sk_mono skip_leb.sk_defined skip_lebs.sk_defined)+

interpretation skip_br_table: skipper skip_br_table
  by unfold_locales (rule skip_br_table_mono skip_br_table_defined; assumption)+

lemma skipper_valtypes: "skipper (\<lambda>h. skip_valtypes h n)"
proof (induction n)
  case 0
  show ?case by unfold_locales auto
next
  case (Suc n)
  note mono = skipper.sk_mono [OF Suc] and defined = skipper.sk_defined [OF Suc]
  show ?case
    by unfold_locales
      (auto simp: outcome_simps within_below defined split: if_splits dest: mono)
qed

interpretation skip_valtypes: skipper "\<lambda>h. skip_valtypes h n" for n
  by (rule skipper_valtypes)

lemmas skip_mono = uleb.rd_mono sleb.rd_mono skip_leb.sk_mono skip_bytes.sk_mono skip_lebs.sk_mono
  skip_valtypes.sk_mono

lemmas skip_defined = reads_defined skip_leb.sk_defined skip_bytes.sk_defined skip_lebs.sk_defined
  skip_valtypes.sk_defined

interpretation skip_reference: skipper "\<lambda>h. skip_reference h instr" for instr
  by unfold_locales
    (auto simp: skip_reference_def outcome_simps within_below skip_defined split: if_splits dest: skip_mono)

interpretation skip_parametric: skipper "\<lambda>h. skip_parametric h instr" for instr
  by unfold_locales
    (auto simp: skip_parametric_def outcome_simps within_below skip_defined split: if_splits
      dest!: skip_mono)

interpretation skip_table: skipper "\<lambda>h. skip_table h instr" for instr
  by unfold_locales
    (auto simp: skip_table_def skip_bytes_def outcome_simps within_below skip_defined split: if_splits
      dest!: skip_mono)

interpretation skip_vector: skipper skip_vector
  by unfold_locales
    (auto simp: skip_vector_def skip_bytes_def outcome_simps within_below skip_defined split: if_splits
      dest!: skip_mono)

interpretation skip_operands: skipper "\<lambda>h. skip_operands h instr" for instr
  by unfold_locales
    (auto simp: skip_operands_def skip_bytes_def outcome_simps within_below skip_defined
        skip_reference.sk_defined skip_parametric.sk_defined skip_table.sk_defined
        skip_vector.sk_defined split: if_splits
      dest!: skip_mono skip_reference.sk_mono skip_parametric.sk_mono skip_table.sk_mono
        skip_vector.sk_mono)

section \<open>The scanning loop\<close>

lemma expect_opcode_eq_Ok [outcome_simps]:
  "expect_opcode h i op = Ok j \<longleftrightarrow> within_size (i + 1) h \<and> below_size i h \<and> h ! nat i = op \<and> j = i + 1"
  by (auto simp: expect_opcode_def outcome_simps)

lemma guard_prologue_mono: "guard_prologue h i = Ok (bound, callee, j) \<Longrightarrow> i < j"
  by (auto simp: guard_prologue_def outcome_simps dest!: read_mono)

lemma step_block_advances:
  "step_block h cfg instr cur st = Ok (Continue st') \<Longrightarrow> gi st \<le> gi st'"
  by (auto simp: step_block_def outcome_simps add_child_def Let_def split: if_splits
      dest!: skip_block_type.sk_mono guard_prologue_mono)

lemma guard_step_advances:
  assumes "guard_step h cfg st = Ok (Continue st')"
  shows "gi st < gi st'"
  using assms
  by (auto simp: guard_step_def step_end_def step_call_def outcome_simps Let_def
      split: if_splits option.splits
      dest!: step_block_advances skip_leb.sk_mono skip_br_table.sk_mono skip_operands.sk_mono read_mono)

function guard_loop :: "bytes \<Rightarrow> guard_cfg \<Rightarrow> guard_state \<Rightarrow> guard_state outcome" where
  "guard_loop h cfg st =
     (if gi st < end_offset cfg then
        obind (guard_step h cfg st) (\<lambda>r. case r of
            Continue st' \<Rightarrow> guard_loop h cfg st'
          | Break st' \<Rightarrow> Ok st')
      else Ok st)"
  by pat_completeness auto
termination
  by (relation "measure (\<lambda>(h, cfg, st). nat (end_offset cfg - gi st))")
    (auto dest!: guard_step_advances)

declare guard_loop.simps [simp del]

definition guard_init :: "int \<Rightarrow> guard_state" where
  "guard_init start_offset =
     \<lparr>gi = start_offset, guard_count = 0, block_depth = 0,
      blocks = [WasmBlkInf 1 0 None (of_int start_offset) True], current = Some 0\<rparr>"

text \<open>The whole function: the scan, then the worst-case count of the root and its limit.\<close>

definition check_cfg :: "bytes \<Rightarrow> int \<Rightarrow> int \<Rightarrow> int \<Rightarrow> guard_cfg" where
  "check_cfg h end_off guard_idx last_import =
     \<lparr>end_offset = (if end_off \<le> 0 then int (length h) else end_off),
      guard_func_idx = guard_idx, last_import_idx = last_import\<rparr>"

definition check_guard :: "bytes \<Rightarrow> int \<Rightarrow> int \<Rightarrow> int \<Rightarrow> int \<Rightarrow> u64 outcome" where
  "check_guard h start_offset end_off guard_idx last_import =
     obind (guard_loop h (check_cfg h end_off guard_idx last_import) (guard_init start_offset)) (\<lambda>st.
     obind (compute_wce (blocks st) 0 0 False) (\<lambda>(wce, recursion_limit_reached).
     obind (refuse_if recursion_limit_reached NESTING_LIMIT) (\<lambda>_.
     obind (refuse_if (0xFFFF \<le> wce) INSTRUCTION_EXCESS) (\<lambda>_. Ok wce))))"

end
