(* ===== verification/Guard_Sound.thy ===== *)
theory Guard_Sound
  imports Guard_Check
begin

text \<open>
  What an accepting run of \<^verbatim>\<open>check_guard\<close> means: the invariant of the scanning loop, its memory
  safety, and the rules every instruction it passed over obeys.
\<close>

section \<open>The invariant of the scan\<close>

lemma count_instruction_length [simp]: "length (count_instruction H cur) = length H"
  by (simp add: count_instruction_def)

lemma count_instruction_nth [simp]:
  assumes "cur < length H"
  shows "parent (count_instruction H cur ! x) = parent (H ! x)"
    and "children (count_instruction H cur ! x) = children (H ! x)"
    and "sanity_check (count_instruction H cur ! x) = sanity_check (H ! x)"
    and "iteration_bound (count_instruction H cur ! x) = iteration_bound (H ! x)"
  using assms by (simp_all add: count_instruction_def nth_list_update)

lemma blocks_wf_count: "blocks_wf H \<Longrightarrow> cur < length H \<Longrightarrow> blocks_wf (count_instruction H cur)"
  unfolding blocks_wf_def by simp

lemma ancestry_count:
  "blocks_wf H \<Longrightarrow> cur < length H \<Longrightarrow> b < length H \<Longrightarrow> ancestry H b n \<Longrightarrow>
     ancestry (count_instruction H cur) b n"
  by (rule ancestry_frame) auto

text \<open>
  The block the scan is in exists, and \<^verbatim>\<open>block_depth\<close> is the number of blocks around it. So
  \<^verbatim>\<open>current\<close> becomes null exactly when the depth falls below zero.
\<close>

definition at_block :: "guard_state \<Rightarrow> nat \<Rightarrow> bool" where
  "at_block st cur \<longleftrightarrow> current st = Some cur \<and> cur < length (blocks st)
     \<and> 0 \<le> block_depth st \<and> ancestry (blocks st) cur (nat (block_depth st))"

definition guard_inv :: "guard_state \<Rightarrow> bool" where
  "guard_inv st \<longleftrightarrow> 0 \<le> gi st \<and> blocks_wf (blocks st) \<and> guard_count st \<le> 1025 \<and> (\<exists>cur. at_block st cur)"

lemma guard_inv_init: "0 \<le> start \<Longrightarrow> guard_inv (guard_init start)"
  by (auto simp: guard_inv_def at_block_def guard_init_def blocks_wf_def WasmBlkInf_def
      intro: ancestry.top)

lemma guard_inv_gi: "guard_inv st \<Longrightarrow> gi st \<le> i \<Longrightarrow> guard_inv (st\<lparr>gi := i\<rparr>)"
  by (auto simp: guard_inv_def at_block_def)

lemma guard_inv_counted:
  "guard_inv st \<Longrightarrow> current st = Some cur \<Longrightarrow>
     guard_inv (st\<lparr>gi := gi st + 1, blocks := count_instruction (blocks st) cur\<rparr>)"
  by (auto simp: guard_inv_def at_block_def blocks_wf_count intro: ancestry_count)

lemma guard_inv_enter:
  assumes "guard_inv st" and "current st = Some cur" and "bound \<noteq> 0" and "gi st \<le> i" and "n \<le> 1025"
  shows "guard_inv (st\<lparr>gi := i, guard_count := n, blocks := snd (add_child (blocks st) cur bound s),
           current := Some (fst (add_child (blocks st) cur bound s)),
           block_depth := block_depth st + 1\<rparr>)"
proof -
  from assms(1,2) have wf: "blocks_wf (blocks st)" and c: "cur < length (blocks st)"
    and d: "0 \<le> block_depth st" and a: "ancestry (blocks st) cur (nat (block_depth st))"
    by (auto simp: guard_inv_def at_block_def)
  have "nat (block_depth st + 1) = Suc (nat (block_depth st))"
    using d by simp
  then show ?thesis
    using assms blocks_wf_add_child [OF wf c assms(3)] ancestry_add_child [OF wf c a] d
    by (simp add: guard_inv_def at_block_def add_child_nth)
qed

lemma step_block_inv:
  assumes "guard_inv st" and "current st = Some cur" and "step_block h cfg instr cur st = Ok (Continue st')"
  shows "guard_inv st'"
proof -
  from assms(3) obtain i bound n where
      st': "st' = st\<lparr>gi := i, guard_count := n, blocks := snd (add_child (blocks st) cur bound (of_int i)),
           current := Some (fst (add_child (blocks st) cur bound (of_int i))),
           block_depth := block_depth st + 1\<rparr>"
    and cases: "bound \<noteq> 0 \<and> guard_count st \<le> MAX_GUARD_CALLS \<and> n = guard_count st + 1
        \<or> bound = (if parent (blocks st ! cur) = None then 1 else iteration_bound (blocks st ! cur))
          \<and> n = guard_count st"
    and le: "gi st \<le> i"
    by (auto simp: step_block_def outcome_simps Let_def split_beta split: if_splits
        dest!: skip_block_type.sk_mono guard_prologue_mono) force+
  from assms(1,2) have "iteration_bound (blocks st ! cur) \<noteq> 0" and "guard_count st \<le> 1025"
    by (auto simp: guard_inv_def at_block_def dest: blocks_wfD(2))
  moreover have "guard_count st + 1 \<le> 1025" if "guard_count st \<le> MAX_GUARD_CALLS"
    using that by (simp add: MAX_GUARD_CALLS_def) uint_arith
  ultimately have "bound \<noteq> 0" and "n \<le> 1025"
    using cases by (auto split: if_splits)
  then show ?thesis
    unfolding st' using assms(1,2) le by (intro guard_inv_enter)
qed

lemma step_end_inv:
  assumes "guard_inv st" and "current st = Some cur" and "step_end cfg cur st = Ok (Continue st')"
  shows "guard_inv st'"
proof -
  from assms(3) obtain p where st': "st' = st\<lparr>block_depth := block_depth st - 1, current := Some p\<rparr>"
    and p: "parent (blocks st ! cur) = Some p" and d: "0 \<le> block_depth st - 1" and pl: "p < length (blocks st)"
    by (auto simp: step_end_def outcome_simps Let_def split: if_splits option.splits)
  from assms(1,2) have a: "ancestry (blocks st) cur (nat (block_depth st))"
    by (auto simp: guard_inv_def at_block_def)
  have "nat (block_depth st) = Suc (nat (block_depth st - 1))"
    using d by simp
  with a p have "ancestry (blocks st) p (nat (block_depth st - 1))"
    by (simp add: ancestry_Suc)
  then show ?thesis
    using assms(1) d pl by (auto simp: st' guard_inv_def at_block_def)
qed

lemma step_call_inv:
  assumes "guard_inv st" and "step_call h cfg st = Ok (Continue st')"
  shows "guard_inv st'"
proof -
  from assms(2) obtain i where "gi st \<le> i"
    and "st' = st\<lparr>gi := i\<rparr>
      \<or> guard_count st \<le> MAX_GUARD_CALLS \<and> st' = st\<lparr>gi := i, guard_count := guard_count st + 1\<rparr>"
    by (auto simp: step_call_def outcome_simps not_less split: if_splits dest!: uleb.rd_mono)
  moreover have "guard_count st + 1 \<le> 1025" if "guard_count st \<le> MAX_GUARD_CALLS"
    using that by (simp add: MAX_GUARD_CALLS_def) uint_arith
  ultimately show ?thesis
    using assms(1) by (auto simp: guard_inv_def at_block_def)
qed

lemma guard_step_inv:
  assumes "guard_inv st" and "guard_step h cfg st = Ok (Continue st')"
  shows "guard_inv st'"
proof -
  obtain cur where cur: "current st = Some cur"
    using assms(1) by (auto simp: guard_inv_def at_block_def)
  define st1 where "st1 = st\<lparr>gi := gi st + 1, blocks := count_instruction (blocks st) cur\<rparr>"
  have inv1: "guard_inv st1"
    unfolding st1_def using assms(1) cur by (rule guard_inv_counted)
  have cur1: "current st1 = Some cur"
    by (simp add: st1_def cur)
  have "st' = st1 \<or> step_block h cfg (h ! nat (gi st)) cur st1 = Ok (Continue st')
      \<or> step_end cfg cur st1 = Ok (Continue st') \<or> step_call h cfg st1 = Ok (Continue st')
      \<or> (\<exists>i. st' = st1\<lparr>gi := i\<rparr> \<and> gi st1 \<le> i)"
    using assms(2) cur
    by (auto simp: guard_step_def outcome_simps st1_def [symmetric] Let_def split: if_splits
        dest: skip_leb.sk_mono skip_br_table.sk_mono skip_operands.sk_mono)
  then show ?thesis
    using inv1 cur1 step_block_inv step_end_inv step_call_inv guard_inv_gi by blast
qed

section \<open>Memory safety of the scan\<close>

lemma expect_opcode_defined: "0 \<le> i \<Longrightarrow> expect_opcode h i op \<noteq> Undef"
  by (auto simp: expect_opcode_def outcome_simps within_below)

lemma guard_prologue_defined:
  assumes "no_cont_run 5 h" and "0 \<le> i"
  shows "guard_prologue h i \<noteq> Undef"
  using assms expect_opcode_defined
  by (fastforce simp: guard_prologue_def outcome_simps dest: read_mono)

lemma step_block_defined:
  assumes "no_cont_run 5 h" and "guard_inv st" and "current st = Some cur"
  shows "step_block h cfg instr cur st \<noteq> Undef"
proof -
  from assms(2,3) have "0 \<le> gi st" and "cur < length (blocks st)"
    by (auto simp: guard_inv_def at_block_def)
  moreover have "guard_prologue h i \<noteq> Undef" if "skip_block_type h (gi st) = Ok i" for i
    using that calculation(1) skip_block_type.sk_mono [of h "gi st" i]
    by (intro guard_prologue_defined assms(1)) auto
  ultimately show ?thesis
    using skip_block_type.sk_defined [OF assms(1)]
    by (auto simp: step_block_def outcome_simps Let_def split_beta)
qed

lemma step_end_defined:
  assumes "guard_inv st" and "current st = Some cur"
  shows "step_end cfg cur st \<noteq> Undef"
proof -
  from assms have wf: "blocks_wf (blocks st)" and c: "cur < length (blocks st)"
    by (auto simp: guard_inv_def at_block_def)
  then have "p < length (blocks st)" if "parent (blocks st ! cur) = Some p" for p
    using blocks_wfD(3) [OF wf c that] by simp
  with c show ?thesis
    by (auto simp: step_end_def outcome_simps Let_def split: option.splits)
qed

lemma guard_step_defined:
  assumes "no_cont_run 5 h" and "guard_inv st"
  shows "guard_step h cfg st \<noteq> Undef"
proof -
  obtain cur where cur: "current st = Some cur" and c: "cur < length (blocks st)" and i: "0 \<le> gi st"
    using assms(2) by (auto simp: guard_inv_def at_block_def)
  define st1 where "st1 = st\<lparr>gi := gi st + 1, blocks := count_instruction (blocks st) cur\<rparr>"
  have inv1: "guard_inv st1"
    unfolding st1_def using assms(2) cur by (rule guard_inv_counted)
  have st1: "current st1 = Some cur" "0 \<le> gi st1"
    using cur i by (simp_all add: st1_def)
  have "step_call h cfg st1 \<noteq> Undef"
    using assms(1) by (auto simp: step_call_def outcome_simps)
  then show ?thesis
    using cur c i st1 assms(1) step_block_defined [OF assms(1) inv1 st1(1)] step_end_defined [OF inv1 st1(1)]
    by (auto simp: guard_step_def outcome_simps st1_def [symmetric] Let_def within_below
        skip_leb.sk_defined skip_br_table.sk_defined skip_operands.sk_defined)
qed

lemma guard_loop_defined:
  assumes "no_cont_run 5 h" and "guard_inv st"
  shows "guard_loop h cfg st \<noteq> Undef"
  using assms
proof (induction h cfg st rule: guard_loop.induct)
  case (1 h cfg st)
  then show ?case
    by (subst guard_loop.simps)
      (auto simp: outcome_simps guard_step_defined split: step_result.splits dest: guard_step_inv)
qed

section \<open>The states a scan passes through\<close>

inductive scans :: "bytes \<Rightarrow> guard_cfg \<Rightarrow> guard_state \<Rightarrow> guard_state \<Rightarrow> bool" for h cfg where
  start: "scans h cfg st st"
| next_instr: "scans h cfg st st' \<Longrightarrow> gi st' < end_offset cfg \<Longrightarrow>
     guard_step h cfg st' = Ok (Continue st'') \<Longrightarrow> scans h cfg st st''"

lemma scans_inv: "scans h cfg st st' \<Longrightarrow> guard_inv st \<Longrightarrow> guard_inv st'"
  by (induction rule: scans.induct) (auto intro: guard_step_inv)

lemma scans_loop: "scans h cfg st st' \<Longrightarrow> guard_loop h cfg st = guard_loop h cfg st'"
  by (induction rule: scans.induct) (auto simp: guard_loop.simps [of h cfg st' for st'])

lemma accepted_step:
  assumes "guard_loop h cfg st = Ok stf" and "scans h cfg st st'" and "gi st' < end_offset cfg"
  shows "\<exists>r. guard_step h cfg st' = Ok r"
  using assms scans_loop [OF assms(2)]
  by (auto simp: guard_loop.simps [of h cfg st'] outcome_simps)

section \<open>The rules an accepted body obeys\<close>

text \<open>
  The bytes at \<open>i\<close> are a guard call: two constants, of which the second is a non-zero bound in
  the low 32 bits, and a call of the function \<open>g\<close>.
\<close>

definition guard_call_at :: "bytes \<Rightarrow> int \<Rightarrow> int \<Rightarrow> bool" where
  "guard_call_at h i g \<longleftrightarrow>
     (\<exists>id i1 bound i2 j.
        below_size i h \<and> h ! nat i = 0x41 \<and> parseSignedLeb128 h (i + 1) = Ok (id, i1)
      \<and> below_size i1 h \<and> h ! nat i1 = 0x41 \<and> parseLeb128 h (i1 + 1) = Ok (bound, i2)
      \<and> (ucast bound :: u32) \<noteq> 0
      \<and> below_size i2 h \<and> h ! nat i2 = 0x10 \<and> parseLeb128 h (i2 + 1) = Ok (of_int g, j))"

lemma step_loop_guarded:
  assumes "step_block h cfg 0x03 cur st = Ok r"
  shows "\<exists>k. skip_block_type h (gi st) = Ok k \<and> guard_call_at h k (guard_func_idx cfg)"
  using assms by (fastforce simp: step_block_def guard_prologue_def guard_call_at_def outcome_simps)

lemma accepted_opcode:
  assumes "guard_step h cfg st = Ok r"
  shows "below_size (gi st) h \<and> h ! nat (gi st) \<noteq> 0x11 \<and> h ! nat (gi st) \<noteq> 0x40
    \<and> (h ! nat (gi st) = 0x10 \<longrightarrow>
        (\<exists>callee j. parseLeb128 h (gi st + 1) = Ok (callee, j) \<and> callee \<le> of_int (last_import_idx cfg)))
    \<and> (h ! nat (gi st) = 0x03 \<longrightarrow>
        (\<exists>k. skip_block_type h (gi st + 1) = Ok k \<and> guard_call_at h k (guard_func_idx cfg)))"
proof (intro conjI impI)
  show "below_size (gi st) h" "h ! nat (gi st) \<noteq> 0x11" "h ! nat (gi st) \<noteq> 0x40"
    using assms by (auto simp: guard_step_def skip_operands_def outcome_simps Let_def split: option.splits)
next
  assume "h ! nat (gi st) = 0x10"
  then show "\<exists>callee j. parseLeb128 h (gi st + 1) = Ok (callee, j) \<and> callee \<le> of_int (last_import_idx cfg)"
    using assms
    by (auto simp: guard_step_def step_call_def outcome_simps Let_def not_less split: option.splits)
next
  assume "h ! nat (gi st) = 0x03"
  then show "\<exists>k. skip_block_type h (gi st + 1) = Ok k \<and> guard_call_at h k (guard_func_idx cfg)"
    using assms
    by (auto simp: guard_step_def outcome_simps Let_def split: option.splits dest!: step_loop_guarded)
qed

text \<open>
  C1: the guard rule. When \<^verbatim>\<open>check_guard\<close> accepts a function body, every instruction its scan
  passed over obeys the rules of the hook sandbox: a loop opens with a guard call with a
  non-zero bound, a call has an imported function as its target, and neither an indirect call
  nor \<^verbatim>\<open>memory.grow\<close> occurs.
\<close>

theorem check_guard_rules:
  assumes "check_guard h start_offset end_off g l = Ok wce"
    and "scans h (check_cfg h end_off g l) (guard_init start_offset) st"
    and "gi st < end_offset (check_cfg h end_off g l)"
  shows "below_size (gi st) h \<and> h ! nat (gi st) \<noteq> 0x11 \<and> h ! nat (gi st) \<noteq> 0x40
    \<and> (h ! nat (gi st) = 0x10 \<longrightarrow>
        (\<exists>callee j. parseLeb128 h (gi st + 1) = Ok (callee, j) \<and> callee \<le> of_int l))
    \<and> (h ! nat (gi st) = 0x03 \<longrightarrow>
        (\<exists>k. skip_block_type h (gi st + 1) = Ok k \<and> guard_call_at h k g))"
proof -
  from assms(1) obtain stf where "guard_loop h (check_cfg h end_off g l) (guard_init start_offset) = Ok stf"
    by (auto simp: check_guard_def outcome_simps)
  from accepted_step [OF this assms(2,3)] show ?thesis
    using accepted_opcode by (fastforce simp: check_cfg_def)
qed

text \<open>A body that loops: \<^verbatim>\<open>loop { _g(1, 10); br 0 } i64.const 0\<close>, the guard being import 0.\<close>

definition loop_body :: bytes where
  "loop_body = [0x03, 0x40, 0x41, 0x01, 0x41, 0x0A, 0x10, 0x00, 0x0C, 0x00, 0x0B, 0x42, 0x00, 0x0B]"

lemma loop_body_accepted: "check_guard loop_body 0 14 0 0 = Ok 23"
  by code_simp

theorem check_guard_rules_witness:
  "check_guard loop_body 0 14 0 0 = Ok 23
   \<and> (\<exists>k. skip_block_type loop_body 1 = Ok k \<and> guard_call_at loop_body k 0)"
proof -
  note ok = loop_body_accepted
  have "gi (guard_init 0) < end_offset (check_cfg loop_body 14 0 0)"
    by (simp add: guard_init_def check_cfg_def)
  from check_guard_rules [OF ok scans.start this] ok show ?thesis
    by (simp add: guard_init_def loop_body_def)
qed

text \<open>
  C24: the limits. An accepted body has a worst-case count below 65535, its blocks are nested
  at most 16 deep, and it calls the guard function at most 1025 times.
\<close>

theorem check_guard_limits:
  assumes "check_guard h start_offset end_off g l = Ok wce" and "0 \<le> start_offset"
  shows "unat wce < 65535
    \<and> (\<exists>st. guard_loop h (check_cfg h end_off g l) (guard_init start_offset) = Ok st
         \<and> (\<forall>n b. block_path (blocks st) n 0 b \<longrightarrow> n \<le> 16))
    \<and> (\<forall>st. scans h (check_cfg h end_off g l) (guard_init start_offset) st \<longrightarrow> unat (guard_count st) \<le> 1025)"
proof -
  from assms(1) obtain stf where loop: "guard_loop h (check_cfg h end_off g l) (guard_init start_offset) = Ok stf"
    and wce: "compute_wce (blocks stf) 0 0 False = Ok (wce, False)" and lim: "\<not> 0xFFFF \<le> wce"
    by (auto simp: check_guard_def outcome_simps)
  have "unat (guard_count st) \<le> 1025"
    if "scans h (check_cfg h end_off g l) (guard_init start_offset) st" for st
    using scans_inv [OF that guard_inv_init [OF assms(2)]]
    by (simp add: guard_inv_def word_le_nat_alt)
  with loop lim nesting_bounded [OF _ wce] show ?thesis
    by (auto simp: word_le_nat_alt)
qed

theorem check_guard_limits_witness:
  "check_guard loop_body 0 14 0 0 = Ok 23
   \<and> (\<exists>st. guard_loop loop_body (check_cfg loop_body 14 0 0) (guard_init 0) = Ok st
        \<and> (\<forall>n b. block_path (blocks st) n 0 b \<longrightarrow> n \<le> 16))"
proof -
  note ok = loop_body_accepted
  from check_guard_limits [OF ok] ok show ?thesis by simp
qed

text \<open>
  C25: memory safety of the scan. On a hook without five consecutive continuation bytes, the
  scanning loop of \<^verbatim>\<open>check_guard\<close> never reads outside the hook, never follows a dangling or
  null block pointer and never performs an undefined shift, whatever the other arguments are.
\<close>

theorem check_guard_scan_safe:
  assumes "no_cont_run 5 h" and "0 \<le> start_offset"
  shows "guard_loop h cfg (guard_init start_offset) \<noteq> Undef"
  using assms guard_inv_init guard_loop_defined by blast

theorem check_guard_scan_safe_witness:
  "no_cont_run 5 loop_body
   \<and> guard_loop loop_body (check_cfg loop_body 14 0 0) (guard_init 0) \<noteq> Undef"
proof -
  have h: "no_cont_run 5 loop_body"
    by (rule no_cont_run_plain) (simp_all add: loop_body_def)
  from check_guard_scan_safe [OF h order_refl] h show ?thesis by simp
qed

end
