(* ===== verification/Guard_Validate.thy ===== *)
theory Guard_Validate
  imports Guard_Sound
begin

text \<open>
  \<^verbatim>\<open>validateGuards\<close> of \<^verbatim>\<open>src/ripple/app/hook/Guard.h\<close>: the two passes over the sections of a
  proposed hook binary. The first collects imports, exports and function types, the second
  checks the function types against the API signatures and runs \<^verbatim>\<open>check_guard\<close> on every body.

  The section loops follow the section lengths found in the binary, which are converted to
  \<^verbatim>\<open>int\<close> and may be negative, so they may revisit a section and need not end: they are
  \<^theory_text>\<open>partial_function (option)\<close>, with \<open>None\<close> for a run that never returns.
\<close>

section \<open>Reading helpers\<close>

definition CHECK_SHORT_HOOK :: "bytes \<Rightarrow> int \<Rightarrow> unit outcome" where
  "CHECK_SHORT_HOOK h i = refuse_if (\<not> below_size i h) SHORT_HOOK"

text \<open>\<^verbatim>\<open>int x = parseLeb128(hook, i, &i); CHECK_SHORT_HOOK();\<close>\<close>

definition read_int :: "bytes \<Rightarrow> int \<Rightarrow> (int \<times> int) outcome" where
  "read_int h i =
     obind (parseLeb128 h i) (\<lambda>(v, i). obind (CHECK_SHORT_HOOK h i) (\<lambda>_. Ok (to_int32 v, i)))"

definition byte_string :: "bytes \<Rightarrow> int \<Rightarrow> int \<Rightarrow> string" where
  "byte_string h i n = map (\<lambda>b. char_of (unat b)) (take (nat n) (drop (nat i) h))"

text \<open>A comparison byte by byte that stops at the first difference.\<close>

fun match_bytes :: "bytes \<Rightarrow> int \<Rightarrow> bytes \<Rightarrow> bool outcome" where
  "match_bytes h i [] = Ok True"
| "match_bytes h i (x # xs) =
     obind (byte_at h i) (\<lambda>b. if b = x then match_bytes h (i + 1) xs else Ok False)"

text \<open>\<^verbatim>\<open>std::map::emplace\<close> on a map kept in key order: an existing key is left alone.\<close>

fun map_emplace :: "int \<Rightarrow> 'v \<Rightarrow> (int \<times> 'v) list \<Rightarrow> (int \<times> 'v) list" where
  "map_emplace k v [] = [(k, v)]"
| "map_emplace k v ((k', v') # m) =
     (if k < k' then (k, v) # (k', v') # m
      else if k = k' then (k', v') # m
      else (k', v') # map_emplace k v m)"

section \<open>First pass\<close>

record pass1 =
  hook_func_idx :: "int option"
  cbak_func_idx :: "int option"
  func_type_map :: "int \<rightharpoonup> int"
  import_type_map :: "int \<rightharpoonup> (int \<times> string) list"
  guard_import_number :: int
  last_import_number :: int
  import_count :: int
  last_section_type :: int

definition pass1_init :: pass1 where
  "pass1_init =
     \<lparr>hook_func_idx = None, cbak_func_idx = None, func_type_map = Map.empty,
      import_type_map = Map.empty, guard_import_number = - 1, last_import_number = - 1,
      import_count = 0, last_section_type = 0\<rparr>"

subsection \<open>Import section\<close>

text \<open>A length-prefixed name: the length must be at least 1 and the name must lie in the hook.\<close>

definition read_name :: "bytes \<Rightarrow> hook_log_code \<Rightarrow> int \<Rightarrow> (string \<times> int \<times> int) outcome" where
  "read_name h bad i =
     obind (read_int h i) (\<lambda>(len, i).
     obind (refuse_if (len < 1 \<or> int (length h) - i < len) bad) (\<lambda>_.
     Ok (byte_string h i len, len, i)))"

definition read_import :: "bytes \<Rightarrow> int \<Rightarrow> (string \<times> int \<times> int) outcome" where
  "read_import h i =
     obind (read_name h IMPORT_MODULE_BAD i) (\<lambda>(module, mod_length, i).
     obind (refuse_if (module \<noteq> ''env'') IMPORT_MODULE_ENV) (\<lambda>_.
     obind (CHECK_SHORT_HOOK h (i + mod_length)) (\<lambda>_.
     obind (read_name h IMPORT_NAME_BAD (i + mod_length)) (\<lambda>(import_name, name_length, i).
     obind (CHECK_SHORT_HOOK h (i + name_length)) (\<lambda>_.
     obind (byte_at h (i + name_length)) (\<lambda>kind.
     obind (refuse_if (0 < kind) IMPORT_ILLEGAL) (\<lambda>_.
     obind (CHECK_SHORT_HOOK h (i + name_length + 1)) (\<lambda>_.
     obind (read_int h (i + name_length + 1)) (\<lambda>(type_idx, i).
     Ok (import_name, type_idx, i))))))))))"

definition add_import :: "pass1 \<Rightarrow> int \<Rightarrow> string \<Rightarrow> int \<Rightarrow> pass1 outcome" where
  "add_import p func_upto import_name type_idx =
     obind
       (if import_name = ''_g'' then Ok (p\<lparr>guard_import_number := func_upto\<rparr>)
        else obind (refuse_if (map_of import_whitelist import_name = None) IMPORT_ILLEGAL) (\<lambda>_. Ok p))
       (\<lambda>p. Ok (p\<lparr>import_type_map :=
          (case import_type_map p type_idx of
             None \<Rightarrow> (import_type_map p)(type_idx \<mapsto> [(func_upto, import_name)])
           | Some m \<Rightarrow> (import_type_map p)(type_idx \<mapsto> map_emplace func_upto import_name m))\<rparr>))"

fun import_loop :: "bytes \<Rightarrow> nat \<Rightarrow> int \<Rightarrow> int \<Rightarrow> pass1 \<Rightarrow> (int \<times> pass1) outcome" where
  "import_loop h 0 func_upto i p = Ok (func_upto, p)"
| "import_loop h (Suc n) func_upto i p =
     obind (read_import h i) (\<lambda>(import_name, type_idx, i).
     obind (add_import p func_upto import_name type_idx) (\<lambda>p.
     import_loop h n (func_upto + 1) i p))"

definition import_section :: "bytes \<Rightarrow> int \<Rightarrow> pass1 \<Rightarrow> pass1 outcome" where
  "import_section h i p =
     obind (read_int h i) (\<lambda>(count, i).
     obind (refuse_if (count \<le> 0) IMPORTS_MISSING) (\<lambda>_.
     obind (import_loop h (nat count) 0 i (p\<lparr>import_count := count\<rparr>)) (\<lambda>(func_upto, p).
     obind (refuse_if (guard_import_number p = - 1) GUARD_IMPORT) (\<lambda>_.
     Ok (p\<lparr>last_import_number := func_upto - 1\<rparr>)))))"

subsection \<open>Export section\<close>

text \<open>An export of \<^verbatim>\<open>hook\<close> or \<^verbatim>\<open>cbak\<close>: the kind byte must say function, then its index.\<close>

definition read_export_idx :: "bytes \<Rightarrow> hook_log_code \<Rightarrow> int \<Rightarrow> (int \<times> int) outcome" where
  "read_export_idx h bad i =
     obind (CHECK_SHORT_HOOK h (i + 4)) (\<lambda>_.
     obind (byte_at h (i + 4)) (\<lambda>kind.
     obind (refuse_if (kind \<noteq> 0) bad) (\<lambda>_.
     obind (CHECK_SHORT_HOOK h (i + 5)) (\<lambda>_. read_int h (i + 5)))))"

definition read_export :: "bytes \<Rightarrow> int \<Rightarrow> pass1 \<Rightarrow> (int \<times> pass1) outcome" where
  "read_export h i p =
     obind (read_int h i) (\<lambda>(name_len, i).
     obind (if name_len = 4 then match_bytes h i [0x68, 0x6F, 0x6F, 0x6B] else Ok False) (\<lambda>is_hook.
     if is_hook then
       obind (read_export_idx h EXPORT_HOOK_FUNC i) (\<lambda>(idx, i). Ok (i, p\<lparr>hook_func_idx := Some idx\<rparr>))
     else
     obind (if name_len = 4 then match_bytes h i [0x63, 0x62, 0x61, 0x6B] else Ok False) (\<lambda>is_cbak.
     if is_cbak then
       obind (read_export_idx h EXPORT_CBAK_FUNC i) (\<lambda>(idx, i). Ok (i, p\<lparr>cbak_func_idx := Some idx\<rparr>))
     else
       obind (int_chk (name_len + 1)) (\<lambda>n.
       obind (int_chk (i + n)) (\<lambda>i.
       obind (read_int h i) (\<lambda>(_, i). Ok (i, p)))))))"

fun export_loop :: "bytes \<Rightarrow> nat \<Rightarrow> int \<Rightarrow> pass1 \<Rightarrow> pass1 outcome" where
  "export_loop h 0 i p = Ok p"
| "export_loop h (Suc n) i p = obind (read_export h i p) (\<lambda>(i, p). export_loop h n i p)"

definition export_section :: "bytes \<Rightarrow> int \<Rightarrow> pass1 \<Rightarrow> pass1 outcome" where
  "export_section h i p =
     obind (read_int h i) (\<lambda>(export_count, i).
     obind (refuse_if (export_count \<le> 0) EXPORTS_MISSING) (\<lambda>_.
     obind (export_loop h (nat export_count) i p) (\<lambda>p.
     obind (refuse_if (hook_func_idx p = None) EXPORT_MISSING) (\<lambda>_. Ok p))))"

subsection \<open>Function section\<close>

fun function_loop :: "bytes \<Rightarrow> nat \<Rightarrow> int \<Rightarrow> int \<Rightarrow> pass1 \<Rightarrow> pass1 outcome" where
  "function_loop h 0 j i p = Ok p"
| "function_loop h (Suc n) j i p =
     obind (read_int h i) (\<lambda>(type_idx, i).
     function_loop h n (j + 1) i (p\<lparr>func_type_map := (func_type_map p)(j \<mapsto> type_idx)\<rparr>))"

definition function_section :: "bytes \<Rightarrow> int \<Rightarrow> pass1 \<Rightarrow> pass1 outcome" where
  "function_section h i p =
     obind (read_int h i) (\<lambda>(function_count, i).
     obind (refuse_if (function_count \<le> 0) FUNCS_MISSING) (\<lambda>_.
     function_loop h (nat function_count) 0 i p))"

subsection \<open>The pass\<close>

text \<open>One section: its header, its contents, and the offset of the next one.\<close>

definition pass1_section :: "bytes \<Rightarrow> int \<Rightarrow> pass1 \<Rightarrow> (int \<times> pass1) outcome" where
  "pass1_section h i p =
     obind (byte_at h i) (\<lambda>b.
     let section_type = uint b in
     obind (refuse_if (section_type = 0) CUSTOM_SECTION_DISALLOWED) (\<lambda>_.
     obind (refuse_if (section_type \<le> last_section_type p) SECTIONS_OUT_OF_SEQUENCE) (\<lambda>_.
     obind (read_int h (i + 1)) (\<lambda>(section_length, i).
     obind (int_chk (i + section_length)) (\<lambda>next_section.
     obind
       (if section_type = 2 then import_section h i p
        else if section_type = 7 then export_section h i p
        else if section_type = 3 then function_section h i p
        else Ok p)
       (\<lambda>p. Ok (next_section, p)))))))"

partial_function (option) pass1_loop :: "bytes \<Rightarrow> int \<Rightarrow> int \<Rightarrow> pass1 \<Rightarrow> pass1 outcome option" where
  "pass1_loop h i j p =
     (if \<not> below_size i h then Some (Ok p)
      else if j = i then Some (Reject WASM_PARSE_LOOP)
      else (case pass1_section h i p of
          Ok (next_section, p) \<Rightarrow> pass1_loop h next_section i p
        | Reject e \<Rightarrow> Some (Reject e)
        | Throw x \<Rightarrow> Some (Throw x)
        | Undef \<Rightarrow> Some Undef))"

declare pass1_loop.simps [code]

subsection \<open>The functions hook and cbak\<close>

text \<open>
  After the first pass the indices are made relative to the function section. The source takes
  \<^verbatim>\<open>*hook_func_idx\<close> without a test, which is undefined when no export section was seen.
\<close>

record targets =
  hook_idx :: int
  cbak_idx :: "int option"
  hook_type_idx :: int

definition resolve_targets :: "pass1 \<Rightarrow> targets outcome" where
  "resolve_targets p =
     (case hook_func_idx p of
        None \<Rightarrow> Undef
      | Some hf \<Rightarrow>
          obind (int_chk (hf - import_count p)) (\<lambda>hf.
          obind (case cbak_func_idx p of
                   None \<Rightarrow> Ok None
                 | Some cf \<Rightarrow> obind (int_chk (cf - import_count p)) (\<lambda>cf. Ok (Some cf))) (\<lambda>cf.
          case func_type_map p hf of
            None \<Rightarrow> Reject FUNC_TYPELESS
          | Some ht \<Rightarrow>
              (case cf of
                 None \<Rightarrow> Ok \<lparr>hook_idx = hf, cbak_idx = None, hook_type_idx = ht\<rparr>
               | Some c \<Rightarrow>
                   (case func_type_map p c of
                      None \<Rightarrow> Reject FUNC_TYPELESS
                    | Some ct \<Rightarrow>
                        if ct \<noteq> ht then Reject HOOK_CBAK_DIFF_TYPES
                        else Ok \<lparr>hook_idx = hf, cbak_idx = cf, hook_type_idx = ht\<rparr>)))))"

section \<open>Second pass\<close>

subsection \<open>Type section\<close>

text \<open>\<^verbatim>\<open>import_whitelist.find(name)->second\<close>; the end iterator must not be followed.\<close>

definition api_signature :: "string \<Rightarrow> bytes outcome" where
  "api_signature name = (case map_of import_whitelist name of None \<Rightarrow> Undef | Some sig \<Rightarrow> Ok sig)"

text \<open>All imports that share a type must have the signature of the first of them.\<close>

fun same_signature :: "(int \<times> string) list \<Rightarrow> bytes \<Rightarrow> unit outcome" where
  "same_signature [] first = Ok ()"
| "same_signature ((_, name) # usage) first =
     obind (api_signature name) (\<lambda>sig.
     obind (refuse_if (sig \<noteq> first) FUNC_TYPE_INVALID) (\<lambda>_. same_signature usage first))"

definition first_signature :: "pass1 \<Rightarrow> targets \<Rightarrow> int \<Rightarrow> bytes option outcome" where
  "first_signature p t j =
     (case import_type_map p j of
        Some [] \<Rightarrow> Ok None
      | Some ((_, name) # usage) \<Rightarrow>
          obind (api_signature name) (\<lambda>first.
          obind (same_signature usage first) (\<lambda>_. Ok (Some first)))
      | None \<Rightarrow> if j = hook_type_idx t then Ok None else Reject FUNC_TYPE_INVALID)"

text \<open>\<^verbatim>\<open>(*first_signature).get()[k]\<close>: the optional must hold a value and the index be in range.\<close>

definition sig_at :: "bytes option \<Rightarrow> nat \<Rightarrow> int outcome" where
  "sig_at sig k =
     (case sig of None \<Rightarrow> Undef | Some s \<Rightarrow> if k < length s then Ok (uint (s ! k)) else Undef)"

definition numeric_type :: "int \<Rightarrow> bool" where
  "numeric_type t \<longleftrightarrow> t = 0x7F \<or> t = 0x7E \<or> t = 0x7D \<or> t = 0x7C"

fun param_loop :: "bytes \<Rightarrow> bool \<Rightarrow> bytes option \<Rightarrow> nat \<Rightarrow> nat \<Rightarrow> int \<Rightarrow> int outcome" where
  "param_loop h is_hook sig 0 k i = Ok i"
| "param_loop h is_hook sig (Suc n) k i =
     obind (read_int h i) (\<lambda>(param_type, i).
     obind (refuse_if (\<not> numeric_type param_type) FUNC_PARAM_INVALID) (\<lambda>_.
     obind
       (if is_hook then refuse_if (param_type \<noteq> 0x7F) PARAM_HOOK_CBAK
        else obind (sig_at sig (k + 1)) (\<lambda>t. refuse_if (t \<noteq> param_type) FUNC_PARAM_INVALID))
       (\<lambda>_. param_loop h is_hook sig n (k + 1) i)))"

fun result_loop :: "bytes \<Rightarrow> bool \<Rightarrow> bytes option \<Rightarrow> int \<Rightarrow> nat \<Rightarrow> int \<Rightarrow> int outcome" where
  "result_loop h is_hook sig result_count 0 i = Ok i"
| "result_loop h is_hook sig result_count (Suc n) i =
     obind (read_int h i) (\<lambda>(result_type, i).
     obind (refuse_if (\<not> numeric_type result_type) FUNC_RETURN_INVALID) (\<lambda>_.
     obind
       (if is_hook then refuse_if (result_count \<noteq> 1 \<or> result_type \<noteq> 0x7E) RETURN_HOOK_CBAK
        else obind (sig_at sig 0) (\<lambda>t. refuse_if (t \<noteq> result_type) FUNC_RETURN_INVALID))
       (\<lambda>_. result_loop h is_hook sig result_count n i)))"

text \<open>One function type. The size comparison converts \<^verbatim>\<open>param_count\<close> to an unsigned type.\<close>

definition check_type :: "bytes \<Rightarrow> pass1 \<Rightarrow> targets \<Rightarrow> int \<Rightarrow> int \<Rightarrow> int outcome" where
  "check_type h p t j i =
     (let is_hook = (j = hook_type_idx t) in
     obind (byte_at h i) (\<lambda>form.
     obind (refuse_if (form \<noteq> 0x60) FUNC_TYPE_INVALID) (\<lambda>_.
     obind (CHECK_SHORT_HOOK h (i + 1)) (\<lambda>_.
     obind (first_signature p t j) (\<lambda>sig.
     obind (read_int h (i + 1)) (\<lambda>(param_count, i).
     obind
       (if is_hook then refuse_if (param_count \<noteq> 1) PARAM_HOOK_CBAK
        else (case sig of
            None \<Rightarrow> Undef
          | Some s \<Rightarrow> refuse_if (param_count \<noteq> int (length s) - 1) FUNC_TYPE_INVALID))
       (\<lambda>_.
     obind (param_loop h is_hook sig (nat param_count) 0 i) (\<lambda>i.
     obind (read_int h i) (\<lambda>(result_count, i).
     obind (refuse_if (result_count \<noteq> 1) FUNC_RETURN_COUNT) (\<lambda>_.
     result_loop h is_hook sig result_count (nat result_count) i))))))))))"

fun type_loop :: "bytes \<Rightarrow> pass1 \<Rightarrow> targets \<Rightarrow> nat \<Rightarrow> int \<Rightarrow> int \<Rightarrow> int outcome" where
  "type_loop h p t 0 j i = Ok i"
| "type_loop h p t (Suc n) j i =
     obind (check_type h p t j i) (\<lambda>i. type_loop h p t n (j + 1) i)"

definition type_section :: "bytes \<Rightarrow> pass1 \<Rightarrow> targets \<Rightarrow> int \<Rightarrow> unit outcome" where
  "type_section h p t i =
     obind (read_int h i) (\<lambda>(type_count, i).
     obind (type_loop h p t (nat type_count) 0 i) (\<lambda>_. Ok ()))"

subsection \<open>Code section\<close>

fun locals_loop :: "bytes \<Rightarrow> nat \<Rightarrow> int \<Rightarrow> int outcome" where
  "locals_loop h 0 i = Ok i"
| "locals_loop h (Suc n) i =
     obind (read_int h i) (\<lambda>(_, i).
     obind (byte_at h i) (\<lambda>ty.
     obind (refuse_if (\<not> (0x7C \<le> ty \<and> ty \<le> 0x7F)) TYPE_INVALID) (\<lambda>_.
     obind (CHECK_SHORT_HOOK h (i + 1)) (\<lambda>_. locals_loop h n (i + 1)))))"

text \<open>The worst-case counts found so far, for hook and for cbak.\<close>

type_synonym counts = "u64 \<times> u64"

definition record_count :: "targets \<Rightarrow> int \<Rightarrow> u64 \<Rightarrow> counts \<Rightarrow> counts" where
  "record_count t j wce c =
     (if hook_idx t = j then (wce, snd c)
      else if cbak_idx t = Some j then (fst c, wce)
      else c)"

definition check_body :: "bytes \<Rightarrow> pass1 \<Rightarrow> targets \<Rightarrow> int \<Rightarrow> int \<Rightarrow> counts \<Rightarrow> (int \<times> counts) outcome" where
  "check_body h p t j i c =
     obind (read_int h i) (\<lambda>(code_size, i).
     obind (int_chk (i + code_size)) (\<lambda>code_end.
     obind (read_int h i) (\<lambda>(local_count, i).
     obind (locals_loop h (nat local_count) i) (\<lambda>i.
     if i = code_end then Ok (i, c)
     else
       obind (check_guard h i code_end (guard_import_number p) (last_import_number p)) (\<lambda>wce.
       Ok (code_end, record_count t j wce c))))))"

fun code_loop :: "bytes \<Rightarrow> pass1 \<Rightarrow> targets \<Rightarrow> nat \<Rightarrow> int \<Rightarrow> int \<Rightarrow> counts \<Rightarrow> counts outcome" where
  "code_loop h p t 0 j i c = Ok c"
| "code_loop h p t (Suc n) j i c =
     obind (check_body h p t j i c) (\<lambda>(i, c). code_loop h p t n (j + 1) i c)"

definition code_section :: "bytes \<Rightarrow> pass1 \<Rightarrow> targets \<Rightarrow> int \<Rightarrow> counts \<Rightarrow> counts outcome" where
  "code_section h p t i c =
     obind (read_int h i) (\<lambda>(func_count, i). code_loop h p t (nat func_count) 0 i c)"

subsection \<open>The pass\<close>

definition pass2_section :: "bytes \<Rightarrow> pass1 \<Rightarrow> targets \<Rightarrow> int \<Rightarrow> counts \<Rightarrow> (int \<times> counts) outcome" where
  "pass2_section h p t i c =
     obind (byte_at h i) (\<lambda>b.
     let section_type = uint b in
     obind (read_int h (i + 1)) (\<lambda>(section_length, i).
     obind (int_chk (i + section_length)) (\<lambda>next_section.
     obind
       (if section_type = 1 then obind (type_section h p t i) (\<lambda>_. Ok c)
        else if section_type = 10 then code_section h p t i c
        else Ok c)
       (\<lambda>c. Ok (next_section, c)))))"

partial_function (option) pass2_loop ::
    "bytes \<Rightarrow> pass1 \<Rightarrow> targets \<Rightarrow> int \<Rightarrow> counts \<Rightarrow> counts outcome option" where
  "pass2_loop h p t i c =
     (if \<not> below_size i h then Some (Ok c)
      else (case pass2_section h p t i c of
          Ok (next_section, c) \<Rightarrow> pass2_loop h p t next_section c
        | Reject e \<Rightarrow> Some (Reject e)
        | Throw x \<Rightarrow> Some (Throw x)
        | Undef \<Rightarrow> Some Undef))"

declare pass2_loop.simps [code]

section \<open>The validator\<close>

definition wasm_header :: bytes where
  "wasm_header = [0x00, 0x61, 0x73, 0x6D, 0x01, 0x00, 0x00, 0x00]"

definition validateGuards :: "bytes \<Rightarrow> counts outcome option" where
  "validateGuards h =
     (if length h < 10 then Some (Reject WASM_TOO_SMALL)
      else if take 8 h \<noteq> wasm_header then Some (Reject WASM_BAD_MAGIC)
      else (case pass1_loop h 8 0 pass1_init of
          None \<Rightarrow> None
        | Some (Ok p) \<Rightarrow>
            (case resolve_targets p of
               Ok t \<Rightarrow> pass2_loop h p t 8 (0, 0)
             | Reject e \<Rightarrow> Some (Reject e)
             | Throw x \<Rightarrow> Some (Throw x)
             | Undef \<Rightarrow> Some Undef)
        | Some (Reject e) \<Rightarrow> Some (Reject e)
        | Some (Throw x) \<Rightarrow> Some (Throw x)
        | Some Undef \<Rightarrow> Some Undef))"

end
