(* ===== verification/Guard_Validate_Props.thy ===== *)
theory Guard_Validate_Props
  imports Guard_Validate
begin

text \<open>
  Properties of \<^verbatim>\<open>validateGuards\<close>: what acceptance means for every function body, import and
  function type of the binary, when the validator returns, and inputs on which it does not
  return or is undefined.
\<close>

section \<open>Sections as the binary lays them out\<close>

text \<open>The header at \<open>i\<close>: section type, offset of the contents, offset of the next section.\<close>

definition section_header :: "bytes \<Rightarrow> int \<Rightarrow> (int \<times> int \<times> int) outcome" where
  "section_header h i =
     obind (byte_at h i) (\<lambda>b.
     obind (read_int h (i + 1)) (\<lambda>(len, i).
     obind (int_chk (i + len)) (\<lambda>nx. Ok (uint b, i, nx))))"

text \<open>The offsets both passes visit.\<close>

inductive section_at :: "bytes \<Rightarrow> int \<Rightarrow> bool" for h where
  first: "section_at h 8"
| next_one: "section_at h i \<Longrightarrow> below_size i h \<Longrightarrow> section_header h i = Ok (ty, c, nx) \<Longrightarrow> section_at h nx"

lemma pass1_section_next:
  "pass1_section h i p = Ok (nx, p') \<Longrightarrow> \<exists>ty c. section_header h i = Ok (ty, c, nx)"
  by (auto simp: pass1_section_def section_header_def outcome_simps Let_def)

lemma pass2_section_next:
  "pass2_section h p t i c = Ok (nx, c') \<Longrightarrow> \<exists>ty j. section_header h i = Ok (ty, j, nx)"
  by (auto simp: pass2_section_def section_header_def outcome_simps Let_def)

text \<open>Every section of the binary begins after the one before it.\<close>

definition forward_sections :: "bytes \<Rightarrow> bool" where
  "forward_sections h \<longleftrightarrow>
     (\<forall>i ty c nx. section_at h i \<longrightarrow> below_size i h \<longrightarrow> section_header h i = Ok (ty, c, nx) \<longrightarrow> i < nx)"

section \<open>Termination\<close>

lemma pass1_loop_returns:
  assumes "forward_sections h" and "section_at h i" and "0 \<le> i"
  shows "\<exists>r. pass1_loop h i j p = Some r"
  using assms(2,3)
proof (induction "nat (int (length h) - i)" arbitrary: i j p rule: less_induct)
  case less
  show ?case
  proof (cases "\<exists>nx p'. below_size i h \<and> j \<noteq> i \<and> pass1_section h i p = Ok (nx, p')")
    case False
    then show ?thesis
      by (subst pass1_loop.simps) (auto split: outcome.splits)
  next
    case True
    then obtain nx p' where b: "below_size i h" and ne: "j \<noteq> i" and s: "pass1_section h i p = Ok (nx, p')"
      by blast
    from pass1_section_next [OF s] obtain ty c where hd: "section_header h i = Ok (ty, c, nx)"
      by blast
    have "i < nx" and "section_at h nx"
      using assms(1) less.prems(1) b hd
      by (auto simp: forward_sections_def intro: section_at.next_one)
    then have "\<exists>r. pass1_loop h nx i p' = Some r"
      using less.hyps [of nx i p'] less.prems b by (auto simp: below_size_def)
    then show ?thesis
      using b ne s by (subst pass1_loop.simps) auto
  qed
qed

lemma pass2_loop_returns:
  assumes "forward_sections h" and "section_at h i" and "0 \<le> i"
  shows "\<exists>r. pass2_loop h p t i c = Some r"
  using assms(2,3)
proof (induction "nat (int (length h) - i)" arbitrary: i c rule: less_induct)
  case less
  show ?case
  proof (cases "\<exists>nx c'. below_size i h \<and> pass2_section h p t i c = Ok (nx, c')")
    case False
    then show ?thesis
      by (subst pass2_loop.simps) (auto split: outcome.splits)
  next
    case True
    then obtain nx c' where b: "below_size i h" and s: "pass2_section h p t i c = Ok (nx, c')"
      by blast
    from pass2_section_next [OF s] obtain ty j where hd: "section_header h i = Ok (ty, j, nx)"
      by blast
    have "i < nx" and "section_at h nx"
      using assms(1) less.prems(1) b hd
      by (auto simp: forward_sections_def intro: section_at.next_one)
    then have "\<exists>r. pass2_loop h p t nx c' = Some r"
      using less.hyps [of nx c'] less.prems b by (auto simp: below_size_def)
    then show ?thesis
      using b s by (subst pass2_loop.simps) auto
  qed
qed

text \<open>
  C23: termination of the validator. On a binary in which every section begins after the one
  before it, both passes of \<^verbatim>\<open>validateGuards\<close> end and it returns a verdict.
\<close>

theorem validateGuards_returns:
  assumes "forward_sections h"
  shows "\<exists>r. validateGuards h = Some r"
proof -
  obtain r1 where r1: "pass1_loop h 8 0 pass1_init = Some r1"
    using pass1_loop_returns [OF assms section_at.first] by auto
  have "\<exists>r. pass2_loop h p t 8 (0, 0) = Some r" for p t
    using pass2_loop_returns [OF assms section_at.first] by auto
  then show ?thesis
    using r1 by (auto simp: validateGuards_def split: outcome.splits)
qed

text \<open>Without continuation bytes every length is small, so no section can lead back.\<close>

lemma parseLeb128_plain:
  assumes "list_all (\<lambda>b. unat b < 128) h" and "below_size i h"
  shows "parseLeb128 h i = Ok (ucast (h ! nat i), i + 1)"
proof -
  let ?b = "h ! nat i"
  have i: "0 \<le> i" "nat i < length h"
    using assms(2) by (simp_all add: below_size_def nat_less_iff)
  then have b: "unat ?b < 128"
    using assms(1) by (simp add: list_all_length)
  have "unat ((ucast ?b :: u64) AND 0x7F) = unat (ucast ?b :: u64)"
    using b by (simp add: unat_low7)
  then have "(ucast ?b :: u64) AND 0x7F = ucast ?b"
    by (simp only: word_unat_eq_iff)
  then show ?thesis
    using leb_loop_last [OF i(2) b, of 0 0] i assms(2) by (simp add: parseLeb128_def)
qed

lemma to_int32_small: "unat (w :: u64) < 128 \<Longrightarrow> to_int32 w = int (unat w)"
proof -
  assume "unat w < 128"
  then have "int (unat w) < 128" by linarith
  then have w: "0 \<le> uint w" "uint w < 128"
    by simp_all
  then have "uint (ucast w :: u32) = uint w"
    by (simp add: unsigned_ucast_eq take_bit_int_eq_self)
  moreover have "sint (ucast w :: u32) = uint (ucast w :: u32)"
    unfolding sint_uint calculation
    by (rule signed_take_bit_int_eq_self) (use w in \<open>simp_all add: order_trans [of _ 0]\<close>)
  ultimately show ?thesis by (simp add: to_int32_def)
qed

lemma forward_plain:
  assumes "list_all (\<lambda>b. unat b < 128) h"
  shows "forward_sections h"
  unfolding forward_sections_def
proof (intro allI impI)
  fix i ty c nx
  assume "section_header h i = Ok (ty, c, nx)"
  then obtain v j where r: "parseLeb128 h (i + 1) = Ok (v, j)" and b: "below_size j h"
    and nx: "nx = j + to_int32 v" and i: "below_size i h"
    by (auto simp: section_header_def read_int_def CHECK_SHORT_HOOK_def outcome_simps)
  have i1: "below_size (i + 1) h"
    using uleb.rd_below [OF r b] i by (simp add: below_size_def)
  then have v: "v = ucast (h ! nat (i + 1))" "j = i + 2"
    using parseLeb128_plain [OF assms i1] r by auto
  have "unat (h ! nat (i + 1)) < 128"
    using assms i1 by (auto simp: list_all_length below_size_def nat_less_iff)
  then have "0 \<le> to_int32 v"
    using to_int32_small [of v] v by simp
  then show "i < nx" using nx v by simp
qed

text \<open>
  A complete hook: it imports \<^verbatim>\<open>_g\<close> and \<^verbatim>\<open>accept\<close>, exports \<^verbatim>\<open>hook\<close>, and runs a guarded loop of
  at most ten turns before it accepts.
\<close>

definition sample_hook :: bytes where
  "sample_hook = [
    0x00, 0x61, 0x73, 0x6D, 0x01, 0x00, 0x00, 0x00, 0x01, 0x13, 0x03, 0x60, 0x02, 0x7F, 0x7F,
    0x01, 0x7F, 0x60, 0x03, 0x7F, 0x7F, 0x7E, 0x01, 0x7E, 0x60, 0x01, 0x7F, 0x01, 0x7E, 0x02,
    0x17, 0x02, 0x03, 0x65, 0x6E, 0x76, 0x02, 0x5F, 0x67, 0x00, 0x00, 0x03, 0x65, 0x6E, 0x76,
    0x06, 0x61, 0x63, 0x63, 0x65, 0x70, 0x74, 0x00, 0x01, 0x03, 0x02, 0x01, 0x02, 0x07, 0x08,
    0x01, 0x04, 0x68, 0x6F, 0x6F, 0x6B, 0x00, 0x02, 0x0A, 0x15, 0x01, 0x13, 0x00, 0x03, 0x40,
    0x41, 0x01, 0x41, 0x0A, 0x10, 0x00, 0x0B, 0x41, 0x00, 0x41, 0x00, 0x42, 0x00, 0x10, 0x01,
    0x0B]"

lemma sample_hook_accepted: "validateGuards sample_hook = Some (Ok (16, 0))"
  by code_simp

lemma sample_hook_forward: "forward_sections sample_hook"
  by (rule forward_plain) (simp add: sample_hook_def)

theorem validateGuards_returns_witness:
  "forward_sections sample_hook \<and> (\<exists>r. validateGuards sample_hook = Some r)"
  using validateGuards_returns [OF sample_hook_forward] sample_hook_forward by simp

text \<open>
  The hypothesis cannot be dropped. A section length is converted to \<^verbatim>\<open>int\<close>, so a length of
  \<open>2 ^ 32 - 8\<close> leads eight bytes back, and the test for a parse loop compares with the
  immediately preceding offset only. On these 17 bytes the first pass alternates between the
  offsets 8 and 10 for ever.
\<close>

definition looping_hook :: bytes where
  "looping_hook = [
    0x00, 0x61, 0x73, 0x6D, 0x01, 0x00, 0x00, 0x00, 0x01, 0x00, 0x01, 0xF8, 0xFF, 0xFF, 0xFF,
    0x0F, 0x00]"

lemma looping_hook_sections:
  "pass1_section looping_hook 8 pass1_init = Ok (10, pass1_init)"
  "pass1_section looping_hook 10 pass1_init = Ok (8, pass1_init)"
  by (simp_all add: pass1_section_def looping_hook_def pass1_init_def byte_at_def below_size_def
      read_int_def parseLeb128_def leb_loop.simps CHECK_SHORT_HOOK_def int_chk_def int32_range_def
      to_int32_def)

lemma looping_hook_pass1:
  assumes "pass1_loop h i j p = Some r"
  shows "\<not> (h = looping_hook \<and> p = pass1_init \<and> (i = 8 \<and> j \<noteq> 8 \<or> i = 10 \<and> j \<noteq> 10))"
proof (rule pass1_loop.raw_induct [where P = "\<lambda>h i j p r.
    \<not> (h = looping_hook \<and> p = pass1_init \<and> (i = 8 \<and> j \<noteq> 8 \<or> i = 10 \<and> j \<noteq> 10))", OF _ assms])
  fix f h i j p r
  assume IH: "\<And>h i j p r. f h i j p = Some r \<Longrightarrow>
      \<not> (h = looping_hook \<and> p = pass1_init \<and> (i = 8 \<and> j \<noteq> 8 \<or> i = 10 \<and> j \<noteq> 10))"
    and eq: "(if \<not> below_size i h then Some (Ok p)
      else if j = i then Some (Reject WASM_PARSE_LOOP)
      else (case pass1_section h i p of
          Ok (next_section, p) \<Rightarrow> f h next_section i p
        | Reject e \<Rightarrow> Some (Reject e)
        | Throw x \<Rightarrow> Some (Throw x)
        | Undef \<Rightarrow> Some Undef)) = Some r"
  have b: "below_size 8 looping_hook" "below_size 10 looping_hook"
    by (simp_all add: looping_hook_def below_size_def)
  show "\<not> (h = looping_hook \<and> p = pass1_init \<and> (i = 8 \<and> j \<noteq> 8 \<or> i = 10 \<and> j \<noteq> 10))"
    using eq b looping_hook_sections
      IH [of looping_hook 10 8 pass1_init] IH [of looping_hook 8 10 pass1_init]
    by (auto split: if_splits)
qed

lemma looping_hook_diverges: "validateGuards looping_hook = None"
proof -
  have "pass1_loop looping_hook 8 0 pass1_init = None"
    using looping_hook_pass1 [of looping_hook 8 0 pass1_init] by fastforce
  then show ?thesis
    by (simp add: validateGuards_def) (simp add: looping_hook_def wasm_header_def)
qed

section \<open>Every body is checked\<close>

text \<open>
  The spans of the function bodies as the code section lays them out: from the end of the
  local declarations to the end the size field gives, where the next body begins.
\<close>

definition body_span :: "bytes \<Rightarrow> int \<Rightarrow> (int \<times> int) outcome" where
  "body_span h i =
     obind (read_int h i) (\<lambda>(code_size, i).
     obind (int_chk (i + code_size)) (\<lambda>code_end.
     obind (read_int h i) (\<lambda>(local_count, i).
     obind (locals_loop h (nat local_count) i) (\<lambda>i. Ok (i, code_end)))))"

fun body_spans :: "bytes \<Rightarrow> nat \<Rightarrow> int \<Rightarrow> (int \<times> int) list outcome" where
  "body_spans h 0 i = Ok []"
| "body_spans h (Suc n) i =
     obind (body_span h i) (\<lambda>(s, e). obind (body_spans h n e) (\<lambda>spans. Ok ((s, e) # spans)))"

definition bodies_checked :: "bytes \<Rightarrow> pass1 \<Rightarrow> int \<Rightarrow> bool" where
  "bodies_checked h p i \<longleftrightarrow>
     (\<exists>n j spans. read_int h i = Ok (n, j) \<and> body_spans h (nat n) j = Ok spans
        \<and> (\<forall>(s, e) \<in> set spans. s \<noteq> e \<longrightarrow>
             (\<exists>w. check_guard h s e (guard_import_number p) (last_import_number p) = Ok w)))"

lemma check_body_span:
  assumes "check_body h p t j i c = Ok (i', c')"
  shows "\<exists>s. body_span h i = Ok (s, i')
     \<and> (s = i' \<and> c' = c \<or> s \<noteq> i' \<and>
        (\<exists>w. check_guard h s i' (guard_import_number p) (last_import_number p) = Ok w
           \<and> c' = record_count t j w c))"
  using assms by (auto simp: check_body_def body_span_def outcome_simps split: if_splits)

lemma code_loop_spans:
  assumes "code_loop h p t n j i c = Ok c'"
  shows "\<exists>spans. body_spans h n i = Ok spans
     \<and> (\<forall>(s, e) \<in> set spans. s \<noteq> e \<longrightarrow>
          (\<exists>w. check_guard h s e (guard_import_number p) (last_import_number p) = Ok w))"
  using assms
proof (induction n arbitrary: j i c)
  case (Suc n)
  then obtain i1 c1 where b: "check_body h p t j i c = Ok (i1, c1)"
    and r: "code_loop h p t n (j + 1) i1 c1 = Ok c'"
    by (auto simp: outcome_simps)
  from check_body_span [OF b] obtain s where "body_span h i = Ok (s, i1)"
    and "s \<noteq> i1 \<Longrightarrow> \<exists>w. check_guard h s i1 (guard_import_number p) (last_import_number p) = Ok w"
    by blast
  with Suc.IH [OF r] show ?case
    by (fastforce simp: outcome_simps)
qed simp

lemma code_section_checked: "code_section h p t i c = Ok c' \<Longrightarrow> bodies_checked h p i"
  unfolding code_section_def bodies_checked_def
  by (auto simp: outcome_simps dest!: code_loop_spans)

text \<open>What the second pass has established when it reaches an accepting end.\<close>

lemma pass2_loop_sections:
  assumes "pass2_loop h p t i c = Some (Ok c')" and "below_size i h"
  shows "\<exists>nx c1. pass2_section h p t i c = Ok (nx, c1) \<and> pass2_loop h p t nx c1 = Some (Ok c')"
  using assms by (subst (asm) pass2_loop.simps) (auto split: outcome.splits)

lemma pass2_visits:
  assumes "section_at h i" and "pass2_loop h p t 8 (0, 0) = Some (Ok c')"
  shows "\<exists>c. pass2_loop h p t i c = Some (Ok c')"
  using assms(1)
proof (induction rule: section_at.induct)
  case first
  then show ?case using assms(2) by blast
next
  case (next_one i ty c nx)
  then obtain c0 where c0: "pass2_loop h p t i c0 = Some (Ok c')"
    by blast
  from pass2_loop_sections [OF c0 next_one.hyps(2)] obtain nx' c1
    where s: "pass2_section h p t i c0 = Ok (nx', c1)" and l: "pass2_loop h p t nx' c1 = Some (Ok c')"
    by blast
  from pass2_section_next [OF s] next_one.hyps(3) have "nx = nx'" by auto
  with l show ?case by blast
qed

lemma validateGuards_accepts:
  assumes "validateGuards h = Some (Ok c)"
  obtains p t where "take 8 h = wasm_header" and "pass1_loop h 8 0 pass1_init = Some (Ok p)"
    and "resolve_targets p = Ok t" and "pass2_loop h p t 8 (0, 0) = Some (Ok c)"
  using assms that
  by (auto simp: validateGuards_def split: if_splits option.splits outcome.splits)

text \<open>
  C2: no body escapes the guard checker. When \<^verbatim>\<open>validateGuards\<close> accepts a binary, every
  non-empty function body of every code section of it was accepted by \<^verbatim>\<open>check_guard\<close>, with the
  guard function and the import limit the first pass found.
\<close>

theorem validateGuards_checks_bodies:
  assumes "validateGuards h = Some (Ok c)" and "section_at h i" and "below_size i h"
    and "section_header h i = Ok (10, j, nx)"
  shows "\<exists>p. pass1_loop h 8 0 pass1_init = Some (Ok p) \<and> bodies_checked h p j"
proof -
  obtain p t where p: "pass1_loop h 8 0 pass1_init = Some (Ok p)"
    and l: "pass2_loop h p t 8 (0, 0) = Some (Ok c)"
    using validateGuards_accepts [OF assms(1)] by blast
  from pass2_visits [OF assms(2) l] obtain c0 where "pass2_loop h p t i c0 = Some (Ok c)"
    by blast
  from pass2_loop_sections [OF this assms(3)] obtain nx' c1
    where "pass2_section h p t i c0 = Ok (nx', c1)"
    by blast
  with assms(4) have "code_section h p t j c0 = Ok c1"
    by (auto simp: pass2_section_def section_header_def outcome_simps Let_def)
  with p show ?thesis using code_section_checked by blast
qed

lemma sample_hook_code: "section_at sample_hook 68 \<and> below_size 68 sample_hook \<and>
    section_header sample_hook 68 = Ok (10, 70, 91)"
proof -
  have hd: "section_header sample_hook 8 = Ok (1, 10, 29)" "section_header sample_hook 29 = Ok (2, 31, 54)"
    "section_header sample_hook 54 = Ok (3, 56, 58)" "section_header sample_hook 58 = Ok (7, 60, 68)"
    "section_header sample_hook 68 = Ok (10, 70, 91)"
    by code_simp+
  have b: "below_size 8 sample_hook" "below_size 29 sample_hook" "below_size 54 sample_hook"
    "below_size 58 sample_hook" "below_size 68 sample_hook"
    by (simp_all add: sample_hook_def below_size_def)
  have "section_at sample_hook 68"
    using section_at.first b hd by (meson section_at.next_one)
  with b hd show ?thesis by simp
qed

theorem validateGuards_checks_bodies_witness:
  "validateGuards sample_hook = Some (Ok (16, 0))
   \<and> (\<exists>p. pass1_loop sample_hook 8 0 pass1_init = Some (Ok p) \<and> bodies_checked sample_hook p 70)"
  using validateGuards_checks_bodies [OF sample_hook_accepted] sample_hook_code sample_hook_accepted
  by blast

section \<open>The counts it reports\<close>

definition counts_ok :: "counts \<Rightarrow> bool" where
  "counts_ok c \<longleftrightarrow> unat (fst c) < 65535 \<and> unat (snd c) < 65535"

lemma check_guard_below: "check_guard h s e g l = Ok w \<Longrightarrow> unat w < 65535"
  by (auto simp: check_guard_def outcome_simps word_le_nat_alt)

lemma code_loop_counts: "code_loop h p t n j i c = Ok c' \<Longrightarrow> counts_ok c \<Longrightarrow> counts_ok c'"
proof (induction n arbitrary: j i c)
  case (Suc n)
  then obtain i1 c1 where b: "check_body h p t j i c = Ok (i1, c1)"
    and r: "code_loop h p t n (j + 1) i1 c1 = Ok c'"
    by (auto simp: outcome_simps)
  have "counts_ok c1"
    using check_body_span [OF b] Suc.prems(2) check_guard_below
    by (auto simp: counts_ok_def record_count_def)
  with Suc.IH [OF r] show ?case by simp
qed simp

lemma pass2_section_counts:
  "pass2_section h p t i c = Ok (nx, c') \<Longrightarrow> counts_ok c \<Longrightarrow> counts_ok c'"
  by (auto simp: pass2_section_def code_section_def outcome_simps Let_def split: if_splits
      dest: code_loop_counts)

lemma pass2_loop_counts:
  assumes "pass2_loop h p t i c = Some r"
  shows "counts_ok c \<longrightarrow> (\<forall>c'. r = Ok c' \<longrightarrow> counts_ok c')"
proof (rule pass2_loop.raw_induct [where P = "\<lambda>h p t i c r.
    counts_ok c \<longrightarrow> (\<forall>c'. r = Ok c' \<longrightarrow> counts_ok c')", OF _ assms])
  fix f h p t i c r
  assume IH: "\<And>h p t i c r. f h p t i c = Some r \<Longrightarrow> counts_ok c \<longrightarrow> (\<forall>c'. r = Ok c' \<longrightarrow> counts_ok c')"
    and eq: "(if \<not> below_size i h then Some (Ok c)
      else (case pass2_section h p t i c of
          Ok (next_section, c) \<Rightarrow> f h p t next_section c
        | Reject e \<Rightarrow> Some (Reject e)
        | Throw x \<Rightarrow> Some (Throw x)
        | Undef \<Rightarrow> Some Undef)) = Some r"
  then show "counts_ok c \<longrightarrow> (\<forall>c'. r = Ok c' \<longrightarrow> counts_ok c')"
    by (auto split: if_splits outcome.splits dest: pass2_section_counts)
qed

text \<open>
  C20: the fee base is bounded. The worst-case counts \<^verbatim>\<open>validateGuards\<close> reports for \<^verbatim>\<open>hook\<close> and
  \<^verbatim>\<open>cbak\<close>, from which the execution fee is computed, are each below 65535.
\<close>

theorem validateGuards_counts:
  assumes "validateGuards h = Some (Ok (max_hook, max_cbak))"
  shows "unat max_hook < 65535 \<and> unat max_cbak < 65535"
proof -
  obtain p t where "pass2_loop h p t 8 (0, 0) = Some (Ok (max_hook, max_cbak))"
    using validateGuards_accepts [OF assms] by blast
  from pass2_loop_counts [OF this] show ?thesis
    by (simp add: counts_ok_def)
qed

theorem validateGuards_counts_witness:
  "validateGuards sample_hook = Some (Ok (16, 0)) \<and> unat (16 :: u64) < 65535"
  using validateGuards_counts [OF sample_hook_accepted] sample_hook_accepted by simp

section \<open>Imports\<close>

text \<open>
  The entries of an import section as the binary lays them out: two length-prefixed names, the
  module and the function, a kind and a type index.
\<close>

type_synonym import_entry = "string \<times> string \<times> u8"

definition entry_at :: "bytes \<Rightarrow> int \<Rightarrow> (import_entry \<times> int) outcome" where
  "entry_at h i =
     obind (read_name h IMPORT_MODULE_BAD i) (\<lambda>(module, len, i).
     obind (read_name h IMPORT_NAME_BAD (i + len)) (\<lambda>(name, len, i).
     obind (byte_at h (i + len)) (\<lambda>kind.
     obind (read_int h (i + len + 1)) (\<lambda>(_, i). Ok ((module, name, kind), i)))))"

fun entries_at :: "bytes \<Rightarrow> nat \<Rightarrow> int \<Rightarrow> import_entry list outcome" where
  "entries_at h 0 i = Ok []"
| "entries_at h (Suc n) i =
     obind (entry_at h i) (\<lambda>(x, i). obind (entries_at h n i) (\<lambda>xs. Ok (x # xs)))"

definition imports_at :: "bytes \<Rightarrow> int \<Rightarrow> import_entry list \<Rightarrow> bool" where
  "imports_at h s xs \<longleftrightarrow>
     section_at h s \<and> below_size s h
     \<and> (\<exists>i nx count j. section_header h s = Ok (2, i, nx) \<and> read_int h i = Ok (count, j)
          \<and> entries_at h (nat count) j = Ok xs)"

text \<open>A function of the API, imported from the module \<^verbatim>\<open>env\<close>.\<close>

definition api_import :: "import_entry \<Rightarrow> bool" where
  "api_import = (\<lambda>(module, name, kind). module = ''env'' \<and> kind = 0 \<and> map_of import_whitelist name \<noteq> None)"

definition is_guard_at :: "import_entry list \<Rightarrow> int \<Rightarrow> bool" where
  "is_guard_at xs g \<longleftrightarrow> 0 \<le> g \<and> nat g < length xs \<and> fst (snd (xs ! nat g)) = ''_g''"

lemma read_import_entry:
  "read_import h i = Ok (name, ty, j) \<Longrightarrow> entry_at h i = Ok ((''env'', name, 0), j)"
  by (auto simp: read_import_def entry_at_def outcome_simps word_gt_0)

lemma add_import_effect:
  assumes "add_import p n name ty = Ok p'"
  shows "map_of import_whitelist name \<noteq> None \<and> last_import_number p' = last_import_number p
    \<and> guard_import_number p' = (if name = ''_g'' then n else guard_import_number p)"
proof (cases "name = ''_g''")
  case True
  have "map_of import_whitelist ''_g'' \<noteq> None"
    by (simp add: import_whitelist_def)
  with True assms show ?thesis
    by (auto simp: add_import_def outcome_simps)
next
  case False
  with assms show ?thesis
    by (auto simp: add_import_def outcome_simps)
qed

text \<open>The import loop reads the entries of the section, and the number it keeps for the guard
  function is either the one it had or the position of an entry named \<^verbatim>\<open>_g\<close>.\<close>

lemma import_loop_entries:
  assumes "import_loop h n k i p = Ok (k', p')"
  shows "k' = k + int n \<and> (\<exists>xs. entries_at h n i = Ok xs \<and> length xs = n \<and> list_all api_import xs
    \<and> (guard_import_number p' = guard_import_number p \<or> is_guard_at xs (guard_import_number p' - k)))"
  using assms
proof (induction n arbitrary: k i p)
  case (Suc n)
  then obtain name ty i1 p1 where r: "read_import h i = Ok (name, ty, i1)"
    and a: "add_import p k name ty = Ok p1" and l: "import_loop h n (k + 1) i1 p1 = Ok (k', p')"
    by (auto simp: outcome_simps)
  from Suc.IH [OF l] obtain xs where k': "k' = k + 1 + int n" and xs: "entries_at h n i1 = Ok xs"
      "length xs = n" "list_all api_import xs"
    and g: "guard_import_number p' = guard_import_number p1 \<or> is_guard_at xs (guard_import_number p' - (k + 1))"
    by blast
  have cons: "is_guard_at (x # xs) (g - k)" if "is_guard_at xs (g - (k + 1))" for x g
  proof -
    have "nat (g - k) = Suc (nat (g - (k + 1)))"
      using that by (simp add: is_guard_at_def Suc_nat_eq_nat_zadd1)
    then show ?thesis
      using that by (simp add: is_guard_at_def)
  qed
  from g show ?case
    using add_import_effect [OF a] xs k' read_import_entry [OF r] cons
    by (auto simp: outcome_simps api_import_def is_guard_at_def [of _ 0] split: if_splits)
qed simp

lemma import_section_entries:
  assumes "import_section h i p = Ok p'"
  shows "\<exists>count j xs. read_int h i = Ok (count, j) \<and> entries_at h (nat count) j = Ok xs \<and> xs \<noteq> []
    \<and> list_all api_import xs \<and> last_import_number p' = int (length xs) - 1
    \<and> guard_import_number p' \<noteq> - 1
    \<and> (guard_import_number p' = guard_import_number p \<or> is_guard_at xs (guard_import_number p'))"
proof -
  from assms obtain count j k p1 where "read_int h i = Ok (count, j)" and "0 < count"
    and l: "import_loop h (nat count) 0 j (p\<lparr>import_count := count\<rparr>) = Ok (k, p1)"
    and "guard_import_number p1 \<noteq> - 1" and "p' = p1\<lparr>last_import_number := k - 1\<rparr>"
    by (auto simp: import_section_def outcome_simps not_le)
  with import_loop_entries [OF l] show ?thesis
    by auto
qed

text \<open>The other sections leave both numbers alone.\<close>

abbreviation same_imports :: "pass1 \<Rightarrow> pass1 \<Rightarrow> bool" where
  "same_imports p p' \<equiv> guard_import_number p' = guard_import_number p
     \<and> last_import_number p' = last_import_number p"

lemma export_loop_frame: "export_loop h n i p = Ok p' \<Longrightarrow> same_imports p p'"
proof (induction n arbitrary: i p)
  case (Suc n)
  then obtain i1 p1 where r: "read_export h i p = Ok (i1, p1)" and l: "export_loop h n i1 p1 = Ok p'"
    by (auto simp: outcome_simps)
  from r have "same_imports p p1"
    by (auto simp: read_export_def outcome_simps split: if_splits)
  with Suc.IH [OF l] show ?case by simp
qed simp

lemma function_loop_frame: "function_loop h n j i p = Ok p' \<Longrightarrow> same_imports p p'"
  by (induction n arbitrary: j i p) (fastforce simp: outcome_simps)+

lemma pass1_section_imports:
  assumes "pass1_section h i p = Ok (nx, p')"
  shows "\<exists>ty c. section_header h i = Ok (ty, c, nx)
    \<and> (if ty = 2 then import_section h c p = Ok p' else same_imports p p')"
proof -
  have frames: "export_section h c p = Ok p' \<Longrightarrow> same_imports p p'"
      "function_section h c p = Ok p' \<Longrightarrow> same_imports p p'" for c
    by (auto simp: export_section_def function_section_def outcome_simps
        dest: export_loop_frame function_loop_frame)
  obtain ty c where "section_header h i = Ok (ty, c, nx)"
    and "(if ty = 2 then import_section h c p else if ty = 7 then export_section h c p
      else if ty = 3 then function_section h c p else Ok p) = Ok p'"
    using assms by (auto simp: pass1_section_def section_header_def outcome_simps Let_def)
  with frames show ?thesis
    by (intro exI [of _ ty] exI [of _ c]) (auto split: if_splits)
qed

text \<open>What holds of the two numbers throughout the first pass.\<close>

definition imports_tracked :: "bytes \<Rightarrow> pass1 \<Rightarrow> bool" where
  "imports_tracked h p \<longleftrightarrow>
     guard_import_number p = - 1 \<and> last_import_number p = - 1
     \<or> (\<exists>s xs. imports_at h s xs \<and> is_guard_at xs (guard_import_number p))
       \<and> (\<exists>s xs. imports_at h s xs \<and> last_import_number p = int (length xs) - 1)"

lemma pass1_section_tracked:
  assumes "pass1_section h i p = Ok (nx, p')" and "section_at h i" and "below_size i h"
    and "imports_tracked h p"
  shows "section_at h nx \<and> imports_tracked h p' \<and> (guard_import_number p \<noteq> - 1 \<longrightarrow> guard_import_number p' \<noteq> - 1)"
proof -
  obtain ty c where hd: "section_header h i = Ok (ty, c, nx)"
    and eff: "if ty = 2 then import_section h c p = Ok p' else same_imports p p'"
    using pass1_section_imports [OF assms(1)] by blast
  have nx: "section_at h nx"
    using assms(2,3) hd by (rule section_at.next_one)
  show ?thesis
  proof (cases "ty = 2")
    case True
    with eff have "import_section h c p = Ok p'" by simp
    from import_section_entries [OF this] obtain xs where at: "imports_at h i xs"
      and l: "last_import_number p' = int (length xs) - 1" and g: "guard_import_number p' \<noteq> - 1"
      and k: "guard_import_number p' = guard_import_number p \<or> is_guard_at xs (guard_import_number p')"
      using assms(2,3) hd True by (auto simp: imports_at_def)
    have "\<exists>s xs. imports_at h s xs \<and> is_guard_at xs (guard_import_number p')"
      using k g at assms(4) by (metis imports_tracked_def)
    with at l g nx show ?thesis
      by (auto simp: imports_tracked_def)
  next
    case False
    with eff assms(4) nx show ?thesis
      by (simp add: imports_tracked_def)
  qed
qed

lemma pass1_loop_tracked:
  assumes "pass1_loop h i j p = Some r"
  shows "section_at h i \<longrightarrow> imports_tracked h p \<longrightarrow> (\<forall>p'. r = Ok p' \<longrightarrow>
    imports_tracked h p' \<and> (guard_import_number p \<noteq> - 1 \<longrightarrow> guard_import_number p' \<noteq> - 1))"
proof (rule pass1_loop.raw_induct [where P = "\<lambda>h i j p r.
    section_at h i \<longrightarrow> imports_tracked h p \<longrightarrow> (\<forall>p'. r = Ok p' \<longrightarrow>
    imports_tracked h p' \<and> (guard_import_number p \<noteq> - 1 \<longrightarrow> guard_import_number p' \<noteq> - 1))", OF _ assms])
  fix f h i j p r
  assume IH: "\<And>h i j p r. f h i j p = Some r \<Longrightarrow>
      section_at h i \<longrightarrow> imports_tracked h p \<longrightarrow> (\<forall>p'. r = Ok p' \<longrightarrow>
      imports_tracked h p' \<and> (guard_import_number p \<noteq> - 1 \<longrightarrow> guard_import_number p' \<noteq> - 1))"
    and eq: "(if \<not> below_size i h then Some (Ok p)
      else if j = i then Some (Reject WASM_PARSE_LOOP)
      else (case pass1_section h i p of
          Ok (next_section, p) \<Rightarrow> f h next_section i p
        | Reject e \<Rightarrow> Some (Reject e)
        | Throw x \<Rightarrow> Some (Throw x)
        | Undef \<Rightarrow> Some Undef)) = Some r"
  then show "section_at h i \<longrightarrow> imports_tracked h p \<longrightarrow> (\<forall>p'. r = Ok p' \<longrightarrow>
      imports_tracked h p' \<and> (guard_import_number p \<noteq> - 1 \<longrightarrow> guard_import_number p' \<noteq> - 1))"
    by (auto split: if_splits outcome.splits dest: pass1_section_tracked)
qed

text \<open>The pass reaches every section, with the numbers tracked.\<close>

lemma pass1_loop_section:
  assumes "pass1_loop h i j p = Some (Ok p')" and "below_size i h"
  shows "\<exists>nx p1. pass1_section h i p = Ok (nx, p1) \<and> pass1_loop h nx i p1 = Some (Ok p')"
  using assms by (subst (asm) pass1_loop.simps) (auto split: outcome.splits if_splits)

lemma pass1_visits:
  assumes "section_at h i" and "pass1_loop h 8 0 pass1_init = Some (Ok p')"
  shows "\<exists>j p. pass1_loop h i j p = Some (Ok p') \<and> imports_tracked h p"
  using assms(1)
proof (induction rule: section_at.induct)
  case first
  have "imports_tracked h pass1_init"
    by (simp add: imports_tracked_def pass1_init_def)
  with assms(2) show ?case by blast
next
  case (next_one i ty c nx)
  then obtain j p where l: "pass1_loop h i j p = Some (Ok p')" and t: "imports_tracked h p"
    by blast
  from pass1_loop_section [OF l next_one.hyps(2)] obtain nx' p1
    where s: "pass1_section h i p = Ok (nx', p1)" and l1: "pass1_loop h nx' i p1 = Some (Ok p')"
    by blast
  from pass1_section_next [OF s] next_one.hyps(3) have "nx = nx'" by auto
  with l1 pass1_section_tracked [OF s next_one.hyps(1,2) t] show ?case by blast
qed


lemma sample_hook_imports: "section_at sample_hook 29 \<and> below_size 29 sample_hook \<and>
    section_header sample_hook 29 = Ok (2, 31, 54)"
proof -
  have hd: "section_header sample_hook 8 = Ok (1, 10, 29)" "section_header sample_hook 29 = Ok (2, 31, 54)"
    by code_simp+
  have b: "below_size 8 sample_hook" "below_size 29 sample_hook"
    by (simp_all add: sample_hook_def below_size_def)
  with hd show ?thesis
    by (meson section_at.first section_at.next_one)
qed


section \<open>Function types\<close>

text \<open>The next \<open>n\<close> LEB128 type codes.\<close>

fun read_types :: "bytes \<Rightarrow> nat \<Rightarrow> int \<Rightarrow> (int list \<times> int) outcome" where
  "read_types h 0 i = Ok ([], i)"
| "read_types h (Suc n) i =
     obind (read_int h i) (\<lambda>(ty, i). obind (read_types h n i) (\<lambda>(tys, i). Ok (ty # tys, i)))"

lemma param_loop_types:
  assumes "param_loop h False (Some s) n k i = Ok i'"
  shows "read_types h n i = Ok (map uint (take n (drop (Suc k) s)), i') \<and> k + n < length s \<or> n = 0"
  using assms
proof (induction n arbitrary: k i)
  case (Suc n)
  then obtain ty i1 where r: "read_int h i = Ok (ty, i1)"
    and s: "Suc k < length s" "ty = uint (s ! Suc k)"
    and l: "param_loop h False (Some s) n (Suc k) i1 = Ok i'"
    by (auto simp: outcome_simps sig_at_def split: if_splits)
  have "take (Suc n) (drop (Suc k) s) = s ! Suc k # take n (drop (Suc (Suc k)) s)"
    using s(1) by (simp add: Cons_nth_drop_Suc [symmetric])
  with Suc.IH [OF l] r s l show ?case
    by (cases n) (auto simp: outcome_simps)
qed simp

text \<open>
  C22: API calls are well typed. A function type that imported functions use, and that is not
  the type of \<^verbatim>\<open>hook\<close>, is accepted only if it declares exactly the parameter types and the one
  result type that the signature of every one of these API functions prescribes.
\<close>

theorem check_type_signature:
  assumes "check_type h p t j i = Ok i'" and "j \<noteq> hook_type_idx t"
    and "import_type_map p j = Some usage" and "(k, name) \<in> set usage"
  shows "\<exists>sig i1 i2. map_of import_whitelist name = Some sig
     \<and> read_int h (i + 1) = Ok (int (length sig) - 1, i1)
     \<and> read_types h (length sig - 1) i1 = Ok (map uint (tl sig), i2)
     \<and> read_types h 2 i2 = Ok ([1, uint (hd sig)], i')"
proof -
  from assms obtain s i1 i2 i3 where f: "first_signature p t j = Ok (Some s)"
    and pc: "read_int h (i + 1) = Ok (int (length s) - 1, i1)"
    and pl: "param_loop h False (Some s) (nat (int (length s) - 1)) 0 i1 = Ok i2"
    and rc: "read_int h i2 = Ok (1, i3)"
    and rl: "result_loop h False (Some s) 1 (nat 1) i3 = Ok i'"
    by (auto simp: check_type_def outcome_simps Let_def split: option.splits)
  have sigs: "same_signature us s = Ok u \<Longrightarrow> (k, name) \<in> set us \<Longrightarrow> map_of import_whitelist name = Some s" for us u
    by (induction us s rule: same_signature.induct)
      (auto simp: outcome_simps api_signature_def split: option.splits)
  have name: "map_of import_whitelist name = Some s"
    using f assms(3,4) sigs
    by (auto simp: first_signature_def outcome_simps api_signature_def split: list.splits option.splits)
  have "0 < length s \<and> read_types h 1 i3 = Ok ([uint (s ! 0)], i')"
    using rl by (auto simp: outcome_simps sig_at_def split: if_splits)
  then have s0: "s \<noteq> []" and "read_types h 2 i2 = Ok ([1, uint (hd s)], i')"
    using rc by (auto simp: numeral_2_eq_2 hd_conv_nth)
  moreover have "read_types h (length s - 1) i1 = Ok (map uint (tl s), i2)"
    using param_loop_types [OF pl] pl s0
    by (cases s) (auto simp: nat_diff_distrib)
  ultimately show ?thesis
    using name pc by blast
qed

theorem check_type_signature_witness:
  "\<exists>sig i1 i2. map_of import_whitelist ''_g'' = Some sig
     \<and> read_int sample_hook 12 = Ok (int (length sig) - 1, i1)
     \<and> read_types sample_hook (length sig - 1) i1 = Ok (map uint (tl sig), i2)
     \<and> read_types sample_hook 2 i2 = Ok ([1, uint (hd sig)], 17)"
proof -
  let ?p = "pass1_init\<lparr>import_type_map := [0 \<mapsto> [(0, ''_g'')]]\<rparr>"
  let ?t = "\<lparr>hook_idx = 0, cbak_idx = None, hook_type_idx = 2\<rparr>"
  have ok: "check_type sample_hook ?p ?t 0 11 = Ok 17"
    by code_simp
  from check_type_signature [OF ok, of "[(0, ''_g'')]" 0 "''_g''"] show ?thesis
    by simp
qed

section \<open>Where the validator falls short\<close>

text \<open>
  The requirement to import the guard function is enforced inside the import section only. A
  binary without one is accepted, and since the import limit is then -1, which becomes the
  largest \<^verbatim>\<open>uint64_t\<close> in the comparison, its calls are not restricted at all: this hook calls
  itself, and three instructions are reported as its worst case.
\<close>

definition recursive_hook :: bytes where
  "recursive_hook = [
    0x00, 0x61, 0x73, 0x6D, 0x01, 0x00, 0x00, 0x00, 0x01, 0x06, 0x01, 0x60, 0x01, 0x7F, 0x01,
    0x7E, 0x03, 0x02, 0x01, 0x00, 0x07, 0x08, 0x01, 0x04, 0x68, 0x6F, 0x6F, 0x6B, 0x00, 0x00,
    0x0A, 0x08, 0x01, 0x06, 0x00, 0x20, 0x00, 0x10, 0x00, 0x0B]"

lemma recursive_hook_accepted: "validateGuards recursive_hook = Some (Ok (3, 0))"
  by code_simp

text \<open>
  The variable that should hold the type of the previous section is never assigned, so sections
  in any order, and repeated ones, pass the test for their sequence.
\<close>

lemma last_section_type_fixed:
  "pass1_section h i p = Ok (nx, p') \<Longrightarrow> last_section_type p' = last_section_type p"
proof -
  have imp: "import_loop h n k i p = Ok (k', p') \<Longrightarrow> last_section_type p' = last_section_type p" for n k k' i p p'
    by (induction n arbitrary: k i p)
      (fastforce simp: outcome_simps add_import_def split: if_splits option.splits)+
  have exp: "export_loop h n i p = Ok p' \<Longrightarrow> last_section_type p' = last_section_type p" for n i p p'
    by (induction n arbitrary: i p) (fastforce simp: outcome_simps read_export_def split: if_splits)+
  have fn: "function_loop h n j i p = Ok p' \<Longrightarrow> last_section_type p' = last_section_type p" for n j i p p'
    by (induction n arbitrary: j i p) (fastforce simp: outcome_simps)+
  assume "pass1_section h i p = Ok (nx, p')"
  then show ?thesis
    by (auto simp: pass1_section_def import_section_def export_section_def function_section_def
        outcome_simps Let_def split: if_splits dest!: imp exp fn)
qed

definition shuffled_hook :: bytes where
  "shuffled_hook = [
    0x00, 0x61, 0x73, 0x6D, 0x01, 0x00, 0x00, 0x00, 0x07, 0x08, 0x01, 0x04, 0x68, 0x6F, 0x6F,
    0x6B, 0x00, 0x02, 0x03, 0x02, 0x01, 0x02, 0x02, 0x17, 0x02, 0x03, 0x65, 0x6E, 0x76, 0x02,
    0x5F, 0x67, 0x00, 0x00, 0x03, 0x65, 0x6E, 0x76, 0x06, 0x61, 0x63, 0x63, 0x65, 0x70, 0x74,
    0x00, 0x01, 0x01, 0x13, 0x03, 0x60, 0x02, 0x7F, 0x7F, 0x01, 0x7F, 0x60, 0x03, 0x7F, 0x7F,
    0x7E, 0x01, 0x7E, 0x60, 0x01, 0x7F, 0x01, 0x7E, 0x0A, 0x15, 0x01, 0x13, 0x00, 0x03, 0x40,
    0x41, 0x01, 0x41, 0x0A, 0x10, 0x00, 0x0B, 0x41, 0x00, 0x41, 0x00, 0x42, 0x00, 0x10, 0x01,
    0x0B]"

lemma shuffled_hook_accepted: "validateGuards shuffled_hook = Some (Ok (16, 0))"
  by code_simp

text \<open>
  An export name of length four is compared without a check that four bytes remain, and the
  index of \<^verbatim>\<open>hook\<close> is used even when no export section was present.
\<close>

definition truncated_export :: bytes where
  "truncated_export = [
    0x00, 0x61, 0x73, 0x6D, 0x01, 0x00, 0x00, 0x00, 0x07, 0x10, 0x01, 0x04, 0x68]"

definition exportless_hook :: bytes where
  "exportless_hook = [
    0x00, 0x61, 0x73, 0x6D, 0x01, 0x00, 0x00, 0x00, 0x03, 0x03, 0x01, 0x00, 0x00]"

lemma truncated_export_undefined: "validateGuards truncated_export = Some Undef"
  by code_simp

lemma exportless_hook_undefined: "validateGuards exportless_hook = Some Undef"
  by code_simp

text \<open>
  The loop bound in a guard call is the operand of \<^verbatim>\<open>i32.const\<close>, which WebAssembly encodes as a
  signed LEB128 number, but the checker reads it with the unsigned reader: the one-byte operand
  0x7F is -1 for the virtual machine, that is a bound of 4294967295, and 127 for the checker.
\<close>

primrec sleb_value :: "bytes \<Rightarrow> int" where
  "sleb_value [] = 0"
| "sleb_value (b # bs) =
     (if bs = [] then (if 64 \<le> uint b then uint b - 128 else uint b)
      else uint b mod 128 + 128 * sleb_value bs)"

lemma guard_bound_misread:
  "guard_prologue [0x41, 0x01, 0x41, 0x7F, 0x10, 0x00] 0 = Ok (127, 0, 6)"
  "(of_int (sleb_value [0x7F]) :: u32) = 4294967295"
  by code_simp simp

text \<open>The limit of guard calls is tested before the count is incremented: 1025 calls pass.\<close>

lemma guard_limit_1025:
  assumes "guard_count st = 1024" and "gi st = 0" and "guard_func_idx cfg = 0" and "last_import_idx cfg = 0"
  shows "step_call [0x00] cfg st = Ok (Continue (st\<lparr>gi := 1, guard_count := 1025\<rparr>))"
  using assms
  by (simp add: step_call_def REQUIRE_def within_size_def parseLeb128_def below_size_def
      leb_loop.simps MAX_GUARD_CALLS_def)

end
