(* ===== verification/Xfl.thy ===== *)
theory Xfl
  imports Hook_Prelude Complex_Main
begin

unbundle bit_operations_syntax

text \<open>
  The decimal floating point format of the hook API ("XFL"), namespace \<^verbatim>\<open>hook_float\<close> of
  \<^verbatim>\<open>src/ripple/app/hook/impl/applyHook.cpp\<close>: a sign bit, eight bits of exponent and 54 bits of
  mantissa packed in an \<^verbatim>\<open>int64_t\<close>, with 0 for the number zero and negative values for errors.
  An \<^verbatim>\<open>int64_t\<close> is an \<open>int\<close>; the bit operations of \<open>int\<close> are those of two's complement.
\<close>

section \<open>Packing and unpacking\<close>

definition minMantissa :: int where
  "minMantissa = 1000000000000000"

definition maxMantissa :: int where
  "maxMantissa = 9999999999999999"

definition minExponent :: int where
  "minExponent = - 96"

definition maxExponent :: int where
  "maxExponent = 80"

lemmas xfl_limits = minMantissa_def maxMantissa_def minExponent_def maxExponent_def

definition power_of_ten :: "int \<Rightarrow> int outcome" where
  "power_of_ten i = (if 0 \<le> i \<and> i < 19 then Ok (10 ^ nat i) else Undef)"

definition get_exponent :: "int \<Rightarrow> int" where
  "get_exponent float1 =
     (if float1 < 0 then INVALID_FLOAT
      else if float1 = 0 then 0
      else (drop_bit 54 (to_uint64 float1) AND 0xFF) - 97)"

definition get_mantissa :: "int \<Rightarrow> int" where
  "get_mantissa float1 =
     (if float1 < 0 then INVALID_FLOAT
      else if float1 = 0 then 0
      else to_int64 (float1 - push_bit 54 (drop_bit 54 (to_uint64 float1))))"

definition is_negative :: "int \<Rightarrow> bool" where
  "is_negative float1 \<longleftrightarrow> drop_bit 62 float1 AND 1 = 0"

definition invert_sign :: "int \<Rightarrow> int" where
  "invert_sign float1 = to_int64 (to_uint64 float1 XOR push_bit 62 1)"

definition set_sign :: "int \<Rightarrow> bool \<Rightarrow> int" where
  "set_sign float1 set_negative =
     (let neg = is_negative float1 in
      if (neg \<and> set_negative) \<or> (\<not> neg \<and> \<not> set_negative) then float1 else invert_sign float1)"

definition set_mantissa :: "int \<Rightarrow> int \<Rightarrow> int" where
  "set_mantissa float1 mantissa =
     (if maxMantissa < mantissa then MANTISSA_OVERSIZED
      else if mantissa < minMantissa then MANTISSA_UNDERSIZED
      else to_int64 (float1 - get_mantissa float1 + mantissa))"

definition set_exponent :: "int \<Rightarrow> int \<Rightarrow> int" where
  "set_exponent float1 exponent =
     (if maxExponent < exponent then EXPONENT_OVERSIZED
      else if exponent < minExponent then EXPONENT_UNDERSIZED
      else (float1 AND NOT (push_bit 54 0xFF)) + push_bit 54 (exponent + 97))"

text \<open>\<^verbatim>\<open>make_float(uint64_t mantissa, int32_t exponent, bool neg)\<close>\<close>

definition make_float :: "int \<Rightarrow> int \<Rightarrow> bool \<Rightarrow> int" where
  "make_float mantissa exponent neg =
     (if mantissa = 0 then 0
      else if maxMantissa < mantissa then MANTISSA_OVERSIZED
      else if mantissa < minMantissa then MANTISSA_UNDERSIZED
      else if maxExponent < exponent then EXPONENT_OVERSIZED
      else if exponent < minExponent then EXPONENT_UNDERSIZED
      else set_sign (set_exponent (set_mantissa 0 mantissa) exponent) neg)"

text \<open>The test of \<^verbatim>\<open>RETURN_IF_INVALID_FLOAT\<close>; negative numbers fail it first.\<close>

definition invalid_float :: "int \<Rightarrow> bool" where
  "invalid_float float1 \<longleftrightarrow>
     float1 < 0
     \<or> float1 \<noteq> 0
       \<and> (get_mantissa float1 < minMantissa \<or> maxMantissa < get_mantissa float1
          \<or> maxExponent < get_exponent float1 \<or> get_exponent float1 < minExponent)"

section \<open>The layout\<close>

text \<open>The number a sign, an exponent and a mantissa are packed into.\<close>

definition xfl_pack :: "bool \<Rightarrow> int \<Rightarrow> int \<Rightarrow> int" where
  "xfl_pack neg e m = (if neg then 0 else 2 ^ 62) + (e + 97) * 2 ^ 54 + m"

definition in_xfl_range :: "int \<Rightarrow> int \<Rightarrow> bool" where
  "in_xfl_range e m \<longleftrightarrow> minExponent \<le> e \<and> e \<le> maxExponent \<and> minMantissa \<le> m \<and> m \<le> maxMantissa"

lemma xfl_pack_bounds:
  "in_xfl_range e m \<Longrightarrow> 0 < xfl_pack neg e m"
  "in_xfl_range e m \<Longrightarrow> xfl_pack neg e m < 2 ^ 63"
  by (simp_all add: xfl_pack_def in_xfl_range_def xfl_limits)

lemma drop_bit_54: "drop_bit 54 (x :: int) = x div 18014398509481984"
  by (simp add: drop_bit_eq_div)

lemma and_255: "x AND 255 = x mod (256 :: int)"
  using take_bit_eq_mask [of 8 x] by (simp add: take_bit_eq_mod mask_eq_exp_minus_1)

lemma get_mantissa_mod: "0 \<le> f \<Longrightarrow> f < 2 ^ 63 \<Longrightarrow> get_mantissa f = f mod 2 ^ 54"
proof -
  assume f: "0 \<le> f" "f < 2 ^ 63"
  have "f - push_bit 54 (drop_bit 54 f) = f mod 2 ^ 54"
    by (simp add: push_bit_eq_mult drop_bit_eq_div minus_mult_div_eq_mod [symmetric] mult.commute)
  moreover have "0 \<le> f mod 2 ^ 54" "f mod 2 ^ 54 < 2 ^ 54"
    by simp_all
  ultimately show ?thesis
    using f by (simp add: get_mantissa_def)
qed

lemma get_exponent_div: "0 < f \<Longrightarrow> f < 2 ^ 63 \<Longrightarrow> get_exponent f = f div 2 ^ 54 mod 256 - 97"
  by (simp add: get_exponent_def drop_bit_54 and_255)

lemma is_negative_div: "is_negative f \<longleftrightarrow> even (f div 2 ^ 62)"
  by (simp add: is_negative_def drop_bit_eq_div and_one_eq even_iff_mod_2_eq_zero)

lemma pack_digits:
  assumes "in_xfl_range e m"
  shows "xfl_pack neg e m mod 2 ^ 54 = m" "xfl_pack neg e m div 2 ^ 54 mod 256 = e + 97"
    "xfl_pack neg e m div 2 ^ 62 = (if neg then 0 else 1)"
proof -
  define E where "E = (if neg then 0 else 256) + (e + 97)"
  have pack: "xfl_pack neg e m = m + E * 2 ^ 54"
    by (simp add: xfl_pack_def E_def algebra_simps)
  have m: "0 \<le> m" "m < 2 ^ 54" and e: "0 \<le> e + 97" "e + 97 < 256"
    using assms by (simp_all add: in_xfl_range_def xfl_limits)
  then have quot: "xfl_pack neg e m div 2 ^ 54 = E"
    by (simp add: pack)
  show "xfl_pack neg e m mod 2 ^ 54 = m"
    using m by (simp add: pack)
  have "E mod 256 = (e + 97) mod 256"
    unfolding E_def by (cases neg) (simp_all only: if_True if_False add_0 mod_add_self1)
  then show "xfl_pack neg e m div 2 ^ 54 mod 256 = e + 97"
    unfolding quot using e by simp
  have "xfl_pack neg e m div 2 ^ 62 = E div 256"
    using quot zdiv_zmult2_eq [of 256 "xfl_pack neg e m" "2 ^ 54"] by simp
  then show "xfl_pack neg e m div 2 ^ 62 = (if neg then 0 else 1)"
    using e unfolding E_def by (cases neg) (simp_all only: if_True if_False add_0 div_add_self1 div_pos_pos_trivial)
qed

lemma unpack_pack [simp]:
  assumes "in_xfl_range e m"
  shows "get_mantissa (xfl_pack neg e m) = m" "get_exponent (xfl_pack neg e m) = e"
    "is_negative (xfl_pack neg e m) \<longleftrightarrow> neg"
  using xfl_pack_bounds [OF assms, of neg] pack_digits [OF assms, of neg]
  by (simp_all add: get_mantissa_mod get_exponent_div is_negative_div)

lemma bit_below: "0 \<le> (x :: int) \<Longrightarrow> x < 2 ^ k \<Longrightarrow> bit x n \<Longrightarrow> n < k"
  using take_bit_int_eq_self [of x k] bit_take_bit_iff [of k x n] by auto

lemma and_exp_zero: "0 \<le> (x :: int) \<Longrightarrow> x < 2 ^ k \<Longrightarrow> k \<le> j \<Longrightarrow> x AND 2 ^ j = 0"
  by (rule bit_eqI) (auto simp: bit_and_iff bit_exp_iff dest: bit_below)

lemma clear_exponent:
  assumes "0 \<le> m" and "m < 2 ^ 54" and "s = 0 \<or> s = 2 ^ 62"
  shows "(s + m) AND NOT (push_bit 54 0xFF) = s + (m :: int)"
proof (rule bit_eqI)
  fix n
  have disj: "s AND m = 0"
    using assms(3) and_exp_zero [OF assms(1,2), of 62] by (auto simp: and.commute)
  have s: "bit s n \<Longrightarrow> n = 62"
    using assms(3) by (elim disjE) (simp_all only: bit_exp_iff bit_0_eq bot_fun_def bot_bool_def)
  have m: "bit m n \<Longrightarrow> n < 54"
    by (rule bit_below [OF assms(1,2)])
  have ff: "bit (255 :: int) k \<longleftrightarrow> k < 8" for k
    using bit_mask_iff [of 8 k, where 'a = int] by (simp add: mask_eq_exp_minus_1)
  have "bit (s + m) n \<longleftrightarrow> bit s n \<or> bit m n"
    using disj by (simp add: disjunctive_add_eq_or bit_or_iff)
  then show "bit ((s + m) AND NOT (push_bit 54 0xFF)) n \<longleftrightarrow> bit (s + m) n"
    using s m unfolding bit_and_iff bit_not_iff_eq bit_push_bit_iff_int ff by auto
qed

lemma set_exponent_pack:
  assumes "in_xfl_range e m" and "s = 0 \<or> s = 2 ^ 62"
  shows "set_exponent (s + m) e = s + (e + 97) * 2 ^ 54 + m"
  using assms clear_exponent [of m s]
  by (simp add: set_exponent_def in_xfl_range_def xfl_limits push_bit_eq_mult)

lemma xor_bit_62:
  assumes "0 \<le> f" and "f < 2 ^ 62"
  shows "f XOR push_bit 62 1 = f + (2 ^ 62 :: int)"
proof -
  have "f AND 2 ^ 62 = 0"
    by (rule and_exp_zero [OF assms]) simp
  then show ?thesis
    by (simp add: push_bit_eq_mult disjunctive_add_eq_xor)
qed

lemma xor_bit_62_off:
  assumes "0 \<le> f" and "f < 2 ^ 62"
  shows "(f + 2 ^ 62) XOR push_bit 62 1 = (f :: int)"
  using xor_bit_62 [OF assms] by (metis xor.assoc xor_self_eq xor.right_neutral)

lemma invert_sign_pack [simp]:
  assumes "in_xfl_range e m"
  shows "invert_sign (xfl_pack neg e m) = xfl_pack (\<not> neg) e m"
proof -
  have pos: "0 \<le> xfl_pack True e m" "xfl_pack True e m < 2 ^ 62"
    using assms by (simp_all add: xfl_pack_def in_xfl_range_def xfl_limits)
  have split: "xfl_pack False e m = xfl_pack True e m + 2 ^ 62"
    by (simp add: xfl_pack_def)
  show ?thesis
  proof (cases neg)
    case True
    then show ?thesis
      using pos xor_bit_62 [OF pos] by (simp add: invert_sign_def split)
  next
    case False
    then show ?thesis
      using pos xor_bit_62_off [OF pos] by (simp add: invert_sign_def split)
  qed
qed

lemma make_float_pack:
  assumes "in_xfl_range e m"
  shows "make_float m e neg = xfl_pack neg e m"
proof -
  have "set_mantissa 0 m = 0 + m"
    using assms by (simp add: set_mantissa_def get_mantissa_def in_xfl_range_def xfl_limits)
  then have "set_exponent (set_mantissa 0 m) e = xfl_pack True e m"
    using set_exponent_pack [OF assms, of 0] by (simp add: xfl_pack_def)
  then have "make_float m e neg = set_sign (xfl_pack True e m) neg"
    using assms by (simp add: make_float_def in_xfl_range_def xfl_limits)
  then show ?thesis
    using assms by (simp add: set_sign_def Let_def)
qed

section \<open>The numbers represented\<close>

text \<open>The valid words are zero and the packed words; each stands for a rational number.\<close>

definition xfl_value :: "int \<Rightarrow> rat" where
  "xfl_value f =
     (if f = 0 then 0
      else (if is_negative f then - 1 else 1) * of_int (get_mantissa f) * 10 powi get_exponent f)"

lemma valid_cases:
  assumes "\<not> invalid_float f" and "f < 2 ^ 63"
  obtains "f = 0" | neg e m where "in_xfl_range e m" "f = xfl_pack neg e m"
proof (cases "f = 0")
  case False
  with assms have f: "0 < f" "f < 2 ^ 63" and range: "in_xfl_range (get_exponent f) (get_mantissa f)"
    by (auto simp: invalid_float_def in_xfl_range_def)
  define E where "E = f div 2 ^ 54"
  have digits: "f = E * 2 ^ 54 + f mod 2 ^ 54" "f div 2 ^ 62 = E div 256"
    using zdiv_zmult2_eq [of 256 f "2 ^ 54"] by (simp_all add: E_def)
  have E: "E = 256 * (E div 256) + E mod 256" "0 \<le> E div 256" "E div 256 < 2"
    using f by (simp_all add: E_def div_less_iff_less_mult)
  then have "E div 256 = 0 \<or> E div 256 = 1"
    by linarith
  then have "256 * (E div 256) * 2 ^ 54 = (if even (E div 256) then 0 else 2 ^ 62)"
    by auto
  then have "f = (if even (E div 256) then 0 else 2 ^ 62) + E mod 256 * 2 ^ 54 + f mod 2 ^ 54"
    using arg_cong [OF E(1), of "\<lambda>x. x * 2 ^ 54"] digits(1) by (simp only: distrib_right)
  then have "f = xfl_pack (is_negative f) (get_exponent f) (get_mantissa f)"
    using f digits(2) E_def
    by (simp only: xfl_pack_def get_mantissa_mod get_exponent_div is_negative_div less_imp_le diff_add_cancel)
  with range show ?thesis
    by (rule that(2))
qed (rule that(1))

lemma pack_valid [simp]: "in_xfl_range e m \<Longrightarrow> \<not> invalid_float (xfl_pack neg e m)"
  using xfl_pack_bounds [of e m neg] by (auto simp: invalid_float_def in_xfl_range_def)

lemma pack_nonzero [simp]: "in_xfl_range e m \<Longrightarrow> xfl_pack neg e m \<noteq> 0"
  using xfl_pack_bounds(1) [of e m neg] by simp

lemma value_pack [simp]:
  "in_xfl_range e m \<Longrightarrow> xfl_value (xfl_pack neg e m) = (if neg then - 1 else 1) * of_int m * 10 powi e"
  by (simp add: xfl_value_def)

text \<open>Mantissas in range make the exponent decide the order; this is why the form is canonical.\<close>

lemma scaled_less:
  fixes m1 m2 :: int
  assumes "m1 \<le> maxMantissa" and "minMantissa \<le> m2" and "e1 < e2"
  shows "of_int m1 * 10 powi e1 < (of_int m2 * 10 powi e2 :: rat)"
proof -
  have "10 powi (e1 + 1) \<le> (10 powi e2 :: rat)"
    using assms(3) by (intro power_int_increasing) auto
  then have step: "10 * 10 powi e1 \<le> (10 powi e2 :: rat)"
    by (simp add: power_int_add)
  have "m1 < 10 * m2"
    using assms(1,2) by (simp add: xfl_limits)
  then have "of_int m1 < (10 * of_int m2 :: rat)"
    by (metis of_int_less_iff of_int_mult of_int_numeral)
  then have "of_int m1 * 10 powi e1 < (10 * of_int m2 * 10 powi e1 :: rat)"
    by (rule mult_strict_right_mono) simp
  also have "\<dots> = of_int m2 * (10 * 10 powi e1)"
    by simp
  also have "\<dots> \<le> of_int m2 * 10 powi e2"
    using assms(2) step by (intro mult_left_mono) (auto simp: xfl_limits)
  finally show ?thesis .
qed

lemma scaled_less_iff:
  assumes "in_xfl_range e1 m1" and "in_xfl_range e2 m2"
  shows "of_int m1 * 10 powi e1 < (of_int m2 * 10 powi e2 :: rat) \<longleftrightarrow> e1 < e2 \<or> e1 = e2 \<and> m1 < m2"
  using assms scaled_less [of m1 m2 e1 e2] scaled_less [of m2 m1 e2 e1]
  by (cases e1 e2 rule: linorder_cases) (auto simp: in_xfl_range_def)

lemma scaled_pos: "in_xfl_range e m \<Longrightarrow> 0 < (of_int m * 10 powi e :: rat)"
  by (simp add: in_xfl_range_def xfl_limits)

lemma scaled_eq_iff:
  assumes "in_xfl_range e1 m1" and "in_xfl_range e2 m2"
  shows "of_int m1 * 10 powi e1 = (of_int m2 * 10 powi e2 :: rat) \<longleftrightarrow> e1 = e2 \<and> m1 = m2"
  using scaled_less_iff [OF assms] scaled_less_iff [OF assms(2,1)] by auto

text \<open>
  C28: the packed form is canonical. Two words that pass the validity test and stand for the same
  number are the same word, so hooks may compare floats by comparing words.
\<close>

theorem xfl_canonical:
  assumes "\<not> invalid_float f" and "f < 2 ^ 63" and "\<not> invalid_float g" and "g < 2 ^ 63"
    and "xfl_value f = xfl_value g"
  shows "f = g"
proof -
  note pos = scaled_pos scaled_eq_iff
  show ?thesis
    using valid_cases [OF assms(1,2)]
  proof cases
    case 1
    show ?thesis
      using valid_cases [OF assms(3,4)]
    proof cases
      case (2 neg e m)
      with 1 assms(5) pos(1) [of e m] show ?thesis
        by (cases neg) (simp_all add: xfl_value_def [of 0])
    qed (use 1 in simp)
  next
    case f: (2 neg e m)
    show ?thesis
      using valid_cases [OF assms(3,4)]
    proof cases
      case 1
      with f assms(5) pos(1) [of e m] show ?thesis
        by (cases neg) (simp_all add: xfl_value_def [of 0])
    next
      case g: (2 neg' e' m')
      with f assms(5) pos(1) [of e m] pos(1) [of e' m'] pos(2) [of e m e' m'] show ?thesis
        by (cases neg; cases neg') auto
    qed
  qed
qed

theorem xfl_canonical_witness:
  "xfl_value (make_float 1000000000000000 (- 15) False) = 1 \<and>
   make_float 1000000000000000 (- 15) False = xfl_pack False (- 15) 1000000000000000"
proof -
  have range: "in_xfl_range (- 15) 1000000000000000"
    by (simp add: in_xfl_range_def xfl_limits)
  have "\<not> invalid_float (make_float 1000000000000000 (- 15) False)"
    and "make_float 1000000000000000 (- 15) False < 2 ^ 63"
    by code_simp+
  then have "make_float 1000000000000000 (- 15) False = xfl_pack False (- 15) 1000000000000000"
    using pack_valid [OF range] xfl_pack_bounds(2) [OF range] make_float_pack [OF range]
    by (intro xfl_canonical) simp_all
  moreover have "xfl_value (xfl_pack False (- 15) 1000000000000000) = 1"
    using range by (simp add: power_int_def power_one_over)
  ultimately show ?thesis
    by simp
qed

text \<open>
  C29: packing and unpacking are inverse. Parts in range are read back from the word made of them,
  and every valid word other than zero is made of the parts read from it.
\<close>

theorem make_float_roundtrip:
  "(in_xfl_range e m \<longrightarrow>
      get_mantissa (make_float m e neg) = m \<and> get_exponent (make_float m e neg) = e
      \<and> is_negative (make_float m e neg) = neg \<and> \<not> invalid_float (make_float m e neg))
   \<and> (\<not> invalid_float f \<and> f < 2 ^ 63 \<longrightarrow>
      make_float (get_mantissa f) (get_exponent f) (is_negative f) = f)"
proof (intro conjI impI)
  assume "\<not> invalid_float f \<and> f < 2 ^ 63"
  then have f: "\<not> invalid_float f" "f < 2 ^ 63" by auto
  show "make_float (get_mantissa f) (get_exponent f) (is_negative f) = f"
    using valid_cases [OF f]
  proof cases
    case 1
    then show ?thesis by (simp add: make_float_def get_mantissa_def)
  qed (simp add: make_float_pack)
qed (simp_all add: make_float_pack)

theorem make_float_roundtrip_witness:
  "get_mantissa (make_float 1234567890123456 (- 20) True) = 1234567890123456
   \<and> make_float (get_mantissa 6089866696204910592) (get_exponent 6089866696204910592)
       (is_negative 6089866696204910592) = 6089866696204910592"
proof -
  have range: "in_xfl_range (- 20) 1234567890123456"
    by (simp add: in_xfl_range_def xfl_limits)
  have valid: "\<not> invalid_float 6089866696204910592" "(6089866696204910592 :: int) < 2 ^ 63"
    by code_simp+
  from make_float_roundtrip [of "- 20" 1234567890123456 True 6089866696204910592] range valid
  show ?thesis by blast
qed

text \<open>Changing the sign bit negates the number.\<close>

lemma invert_sign_value:
  assumes "\<not> invalid_float f" and "f < 2 ^ 63" and "f \<noteq> 0"
  shows "\<not> invalid_float (invert_sign f)" "xfl_value (invert_sign f) = - xfl_value f"
    "invert_sign (invert_sign f) = f"
  using valid_cases [OF assms(1,2)] by (cases; use assms(3) in force)+

end
