(* ===== verification/Xfl_Normalize.thy ===== *)
theory Xfl_Normalize
  imports Xfl
begin

text \<open>
  \<^verbatim>\<open>normalize_xfl\<close> of \<^verbatim>\<open>src/ripple/app/hook/impl/applyHook.cpp\<close>: bring a mantissa of any size into
  the range of the format, adjust the exponent, and pack the result.

  The function uses the C library's \<^verbatim>\<open>log10\<close> on the mantissa converted to \<^verbatim>\<open>double\<close> and truncates
  it. C leaves the accuracy of \<^verbatim>\<open>log10\<close> to the implementation, so the truncated logarithm is a
  parameter \<open>lg\<close> of the definitions, and \<open>log10_accurate\<close> states what the code relies on: an error
  of at most about \<open>4 * 10 ^ -14\<close>, some twenty units in the last place.
\<close>

section \<open>The routine\<close>

text \<open>\<^verbatim>\<open>x *= y\<close> for a \<^verbatim>\<open>T\<close> that is \<^verbatim>\<open>int64_t\<close> (\<open>sman\<close>) or \<^verbatim>\<open>uint64_t\<close>.\<close>

definition mul64 :: "bool \<Rightarrow> int \<Rightarrow> int \<Rightarrow> int outcome" where
  "mul64 sman x y = (if sman then int64_chk (x * y) else Ok (to_uint64 (x * y)))"

text \<open>The adjustment by a power of ten, from the table.\<close>

definition adjust_order :: "bool \<Rightarrow> int \<Rightarrow> int \<Rightarrow> int \<Rightarrow> (int \<times> int) outcome" where
  "adjust_order sman man e adjust =
     (if 0 < adjust then
        obind (power_of_ten adjust) (\<lambda>p. obind (mul64 sman man p) (\<lambda>man.
        obind (int_chk (e - adjust)) (\<lambda>e. Ok (man, e))))
      else if adjust < 0 then
        obind (power_of_ten (- adjust)) (\<lambda>p.
        obind (int_chk (e - adjust)) (\<lambda>e. Ok (man div p, e)))
      else Ok (man, e))"

text \<open>The two corrections by one place that follow it.\<close>

definition raise_mantissa :: "bool \<Rightarrow> int \<Rightarrow> int \<Rightarrow> (int \<times> int) outcome" where
  "raise_mantissa sman man e =
     (if man < minMantissa then
        if man = minMantissa - 1 then Ok (man + 1, e)
        else obind (mul64 sman man 10) (\<lambda>man. obind (int_chk (e - 1)) (\<lambda>e. Ok (man, e)))
      else Ok (man, e))"

definition lower_mantissa :: "int \<Rightarrow> int \<Rightarrow> (int \<times> int) outcome" where
  "lower_mantissa man e =
     (if maxMantissa < man then
        if man = maxMantissa + 1 then Ok (man - 1, e)
        else obind (int_chk (e + 1)) (\<lambda>e. Ok (man div 10, e))
      else Ok (man, e))"

text \<open>The ending: underflow gives the canonical zero, a large exponent an error.\<close>

definition finish_xfl :: "bool \<Rightarrow> int \<Rightarrow> int \<Rightarrow> bool \<Rightarrow> int \<times> int \<times> int" where
  "finish_xfl sman man e neg =
     (if e < minExponent then (0, 0, 0)
      else if man = 0 then (0, man, 0)
      else if maxExponent < e then (XFL_OVERFLOW, man, e)
      else (make_float man e neg, if sman \<and> neg then - man else man, e))"

text \<open>The result, and the values left in the reference arguments \<^verbatim>\<open>man\<close> and \<^verbatim>\<open>exp\<close>.\<close>

definition normalize_xfl ::
    "bool \<Rightarrow> (int \<Rightarrow> int) \<Rightarrow> int \<Rightarrow> int \<Rightarrow> bool \<Rightarrow> (int \<times> int \<times> int) outcome" where
  "normalize_xfl sman lg man e neg =
     obind (if sman \<and> man < 0 then obind (int64_chk (- man)) (\<lambda>man. Ok (man, True)) else Ok (man, neg))
       (\<lambda>(man, neg).
     if man = 0 then Undef
     else
       obind (adjust_order sman man e (15 - lg man)) (\<lambda>(man, e).
       if man = 0 then Ok (0, man, 0)
       else
         obind (raise_mantissa sman man e) (\<lambda>(man, e).
         obind (lower_mantissa man e) (\<lambda>(man, e).
         Ok (finish_xfl sman man e neg)))))"

section \<open>What is assumed of the logarithm\<close>

definition log10_accurate :: "(int \<Rightarrow> int) \<Rightarrow> bool" where
  "log10_accurate lg \<longleftrightarrow>
     (\<forall>m. 0 < m \<and> m < 2 ^ 64 \<longrightarrow>
        0 \<le> lg m
        \<and> 10 ^ nat (lg m) * (10 ^ 13 - 1) \<le> m * 10 ^ 13
        \<and> m * (10 ^ 13 - 1) < 10 ^ Suc (nat (lg m)) * 10 ^ 13)"

text \<open>
  Two functions that satisfy it: the exact order, and one that is higher by one for mantissas just
  below a power of ten, where a rounded logarithm reaches the next integer.
\<close>

fun digits_order :: "nat \<Rightarrow> int \<Rightarrow> int" where
  "digits_order 0 m = 0"
| "digits_order (Suc n) m = (if m < 10 then 0 else 1 + digits_order n (m div 10))"

definition log10_exact :: "int \<Rightarrow> int" where
  "log10_exact m = digits_order 20 m"

definition log10_rounded :: "int \<Rightarrow> int" where
  "log10_rounded m =
     (let k = log10_exact m in
      if 10 ^ Suc (nat k) - m \<le> 10 ^ Suc (nat k) * 2 div 10 ^ 15 then k + 1 else k)"

section \<open>Correctness\<close>

text \<open>The last correction, on a mantissa that is off by at most a place: the shift \<open>d\<close> it applies
  and the error \<open>c\<close> it makes, in units of the exponent before.\<close>

definition corrected :: "int \<Rightarrow> int \<Rightarrow> int \<Rightarrow> int \<Rightarrow> bool" where
  "corrected x m' d c \<longleftrightarrow>
     minMantissa \<le> m' \<and> m' \<le> maxMantissa \<and> - 1 \<le> d \<and> d \<le> 1 \<and> m' * 10 ^ nat (d + 1) = 10 * (x + c)
     \<and> (c = 0 \<or> c = 1 \<and> x = minMantissa - 1 \<or> c = - 1 \<and> x = maxMantissa + 1
        \<or> c = - (x mod 10) \<and> maxMantissa < x)"

lemma int_le_div: "0 < p \<Longrightarrow> a * p \<le> m \<Longrightarrow> a \<le> m div (p :: int)"
  using zdiv_mono1 [of "a * p" m p] by simp

lemma int_div_less: "0 < p \<Longrightarrow> m < b * p \<Longrightarrow> m div (p :: int) < b"
  using div_mult_mod_eq [of m p] pos_mod_sign [of p m] mult_right_mono [of b "m div p" p] by linarith

lemma correction:
  assumes "10 ^ 15 - 100 \<le> x" and "x \<le> 10 ^ 16 + 1001" and "- (2 ^ 31) < e" and "e < 2 ^ 31 - 1"
  obtains m' d c where "corrected x m' d c"
    and "obind (raise_mantissa sman x e) (\<lambda>(man, e). lower_mantissa man e) = Ok (m', e + d)"
proof -
  consider "x = minMantissa - 1" | "x < minMantissa - 1" | "minMantissa \<le> x" "x \<le> maxMantissa"
    | "x = maxMantissa + 1" | "maxMantissa + 1 < x"
    by linarith
  then show ?thesis
  proof cases
    case 1
    show ?thesis
      by (rule that [of minMantissa 0 1])
        (simp_all add: 1 corrected_def raise_mantissa_def lower_mantissa_def xfl_limits)
  next
    case 2
    have "mul64 sman x 10 = Ok (10 * x)"
      using 2 assms by (simp add: mul64_def int64_chk_def int64_range_def xfl_limits mult.commute)
    moreover have "int_chk (e - 1) = Ok (e - 1)"
      using assms by (simp add: int_chk_def int32_range_def)
    ultimately have "obind (raise_mantissa sman x e) (\<lambda>(man, e). lower_mantissa man e) = Ok (10 * x, e + - 1)"
      using 2 by (simp add: raise_mantissa_def lower_mantissa_def xfl_limits)
    moreover have "corrected x (10 * x) (- 1) 0"
      using 2 assms(1) by (simp add: corrected_def xfl_limits)
    ultimately show ?thesis
      using that by blast
  next
    case 3
    show ?thesis
      by (rule that [of x 0 0])
        (use 3 in \<open>simp_all add: corrected_def raise_mantissa_def lower_mantissa_def\<close>)
  next
    case 4
    show ?thesis
      by (rule that [of maxMantissa 0 "- 1"])
        (simp_all add: 4 corrected_def raise_mantissa_def lower_mantissa_def xfl_limits)
  next
    case 5
    then have "10 ^ 15 \<le> x div 10" "x div 10 < 10 ^ 16"
      using assms by (auto intro!: int_le_div int_div_less simp: xfl_limits)
    with 5 assms show ?thesis
      by (intro that [of "x div 10" 1 "- (x mod 10)"])
        (simp_all add: corrected_def raise_mantissa_def lower_mantissa_def xfl_limits
            int_chk_def int32_range_def minus_mod_eq_mult_div)
  qed
qed

lemma correction_error:
  assumes "corrected x m' d c" and "10 ^ 15 - 100 \<le> x" and "1 \<le> p" and "p \<le> 10 ^ 4" and "0 \<le> r" and "r < p"
  shows "\<bar>c * p - r\<bar> * (10 ^ 15 - 1) \<le> x * p + r"
proof -
  have xp: "(10 ^ 15 - 100) * p \<le> x * p"
    using assms(2,3) by (intro mult_right_mono) auto
  from assms(1) consider "c = 0" | "c = 1" "x = minMantissa - 1" | "c = - 1" "x = maxMantissa + 1"
    | "c = - (x mod 10)" "maxMantissa < x"
    by (auto simp: corrected_def)
  then show ?thesis
  proof cases
    case 4
    then have "10 ^ 16 * p \<le> x * p" and "x mod 10 * p \<le> 9 * p" and "0 \<le> x mod 10 * p"
      using assms(3) by (auto intro!: mult_right_mono simp: xfl_limits simp del: mult_le_cancel_right)
    moreover from this(3) have "\<bar>c * p - r\<bar> = x mod 10 * p + r"
      using assms(5) by (simp add: 4(1))
    moreover have "(q + r) * (10 ^ 15 - 1) \<le> y + r" if "10 ^ 16 * p \<le> y" "q \<le> 9 * p" for q y
      using that assms(3,6) by simp
    ultimately show ?thesis
      by metis
  next
    case 1
    have "r * (10 ^ 15 - 1) \<le> y + r" if "(10 ^ 15 - 100) * p \<le> y" for y
      using that assms(4,6) by simp
    with xp 1 assms(5) show ?thesis by simp
  qed (use assms(3-6) in \<open>simp_all add: abs_if xfl_limits\<close>)
qed

text \<open>The adjustment yields the mantissa, up to a remainder, in units of the new exponent.\<close>

lemma adjustment:
  assumes lg: "log10_accurate lg" and m: "0 < m" "m < 2 ^ 64" "sman \<Longrightarrow> m < 2 ^ 63"
    and e: "- (2 ^ 31) + 20 < e" "e < 2 ^ 31 - 20"
  obtains x e1 p r where "adjust_order sman m e (15 - lg m) = Ok (x, e1)"
    and "10 ^ 15 - 100 \<le> x" and "x \<le> 10 ^ 16 + 1001" and "1 \<le> p" and "p \<le> 10 ^ 4" and "0 \<le> r" and "r < p"
    and "of_int m * 10 powi e = (of_int (x * p + r) / of_int p * 10 powi e1 :: rat)"
    and "- (2 ^ 31) < e1" and "e1 < 2 ^ 31 - 1" and "e1 = e + lg m - 15"
proof -
  define k where "k = nat (lg m)"
  have "0 \<le> lg m" and low: "10 ^ k * (10 ^ 13 - 1) \<le> m * 10 ^ 13" and high: "m * (10 ^ 13 - 1) < 10 ^ Suc k * 10 ^ 13"
    using lg m(1,2) unfolding log10_accurate_def k_def by blast+
  then have lgk: "lg m = int k"
    by (simp add: k_def)
  have k19: "k < 20"
  proof (rule ccontr)
    assume "\<not> k < 20"
    then have "(10 :: int) ^ 20 \<le> 10 ^ k"
      by (intro power_increasing) auto
    with low m(2) show False by simp
  qed
  show ?thesis
  proof (cases "k \<le> 15")
    case True
    define x where "x = m * 10 ^ (15 - k)"
    have shift: "(10 :: int) ^ k * 10 ^ (15 - k) = 10 ^ 15" "(10 :: int) ^ Suc k * 10 ^ (15 - k) = 10 ^ 16"
      using True by (simp_all flip: power_add)
    have "10 ^ 15 * (10 ^ 13 - 1) \<le> x * 10 ^ 13" "x * (10 ^ 13 - 1) < 10 ^ 16 * 10 ^ 13"
      using mult_right_mono [OF low, of "10 ^ (15 - k)"] mult_strict_right_mono [OF high, of "10 ^ (15 - k)"]
      unfolding x_def shift [symmetric] by (simp_all add: algebra_simps)
    then have x: "10 ^ 15 - 100 \<le> x" "x \<le> 10 ^ 16 + 1001"
      by simp_all
    have mul: "mul64 sman m (10 ^ (15 - k)) = Ok x"
      using x by (simp add: mul64_def int64_chk_def int64_range_def flip: x_def)
    have "adjust_order sman m e (15 - lg m) = Ok (x, e - int (15 - k))"
    proof (cases "k = 15")
      case True
      then show ?thesis by (simp add: adjust_order_def lgk x_def)
    next
      case False
      with \<open>k \<le> 15\<close> have "0 < 15 - int k" and "nat (15 - int k) = 15 - k" "int (15 - k) = 15 - int k"
        by simp_all
      then show ?thesis
        using mul e by (simp add: adjust_order_def lgk power_of_ten_def int_chk_def int32_range_def)
    qed
    moreover have "of_int m * 10 powi e = (of_int (x * 1 + 0) / of_int 1 * 10 powi (e - int (15 - k)) :: rat)"
      by (simp add: x_def power_int_diff)
    ultimately show ?thesis
      using x e True by (intro that [of x "e - int (15 - k)" 1 0]) (auto simp: lgk)
  next
    case False
    define p :: int where "p = 10 ^ (k - 15)"
    have "10 ^ k = 10 ^ 15 * p"
      unfolding p_def power_add [symmetric] using False by simp
    then have p: "0 < p" "10 ^ k = 10 ^ 15 * p" "10 ^ Suc k = 10 ^ 16 * p"
      by (simp_all add: p_def)
    have "p \<le> 10 ^ 4"
      unfolding p_def using k19 by (intro power_increasing) auto
    have "(10 ^ 15 - 100) * p \<le> m" and "m < (10 ^ 16 + 1002) * p"
      using low high p(1) unfolding p(2,3) by simp_all
    then have x: "10 ^ 15 - 100 \<le> m div p" "m div p \<le> 10 ^ 16 + 1001"
      using int_le_div [OF p(1)] int_div_less [OF p(1)] by force+
    have "adjust_order sman m e (15 - lg m) = Ok (m div p, e + int (k - 15))"
      using False k19 e by (auto simp: adjust_order_def lgk power_of_ten_def p_def nat_diff_distrib
          int_chk_def int32_range_def of_nat_diff)
    moreover have "of_int m * 10 powi e = (of_int (m div p * p + m mod p) / of_int p * 10 powi (e + int (k - 15)) :: rat)"
      unfolding div_mult_mod_eq using p(1) by (simp add: power_int_add p_def)
    ultimately show ?thesis
      using x e p(1) \<open>p \<le> 10 ^ 4\<close> k19 False
      by (intro that [of "m div p" "e + int (k - 15)" p "m mod p"]) (auto simp: lgk)
  qed
qed

lemma normalized_value:
  assumes "corrected x m' d c" and "10 ^ 15 - 100 \<le> x" and "1 \<le> p" and "p \<le> 10 ^ 4" and "0 \<le> r" and "r < p"
    and v: "v = (of_int (x * p + r) / of_int p * 10 powi e1 :: rat)"
  shows "\<bar>of_int m' * 10 powi (e1 + d) - v\<bar> * (10 ^ 15 - 1) \<le> v"
proof -
  have p0: "0 < (of_int p :: rat)"
    using assms(3) by simp
  have d: "- 1 \<le> d" and scaled: "m' * 10 ^ nat (d + 1) = 10 * (x + c)"
    using assms(1) by (simp_all add: corrected_def)
  have "of_int m' * 10 powi (e1 + d) = (of_int (m' * 10 ^ nat (d + 1)) * 10 powi (e1 - 1) :: rat)"
    using d power_int_add [of "10 :: rat" "d + 1" "e1 - 1"]
    by (simp add: power_int_def [of _ "1 + d"] add.commute)
  also have "\<dots> = of_int (x + c) * 10 powi e1"
    unfolding scaled by (simp add: power_int_diff)
  finally have m': "of_int m' * 10 powi (e1 + d) = (of_int (x + c) * 10 powi e1 :: rat)" .
  have "of_int m' * 10 powi (e1 + d) - v = of_int (c * p - r) / of_int p * 10 powi e1"
    unfolding m' v using p0 by (simp add: field_simps)
  then have "\<bar>of_int m' * 10 powi (e1 + d) - v\<bar> = of_int \<bar>c * p - r\<bar> / of_int p * 10 powi e1"
    using p0 by (simp add: abs_mult)
  also have "\<dots> * (10 ^ 15 - 1) = of_int (\<bar>c * p - r\<bar> * (10 ^ 15 - 1)) / of_int p * 10 powi e1"
    by simp
  also have "\<dots> \<le> of_int (x * p + r) / of_int p * 10 powi e1"
    using p0 correction_error [OF assms(1-6)] by (intro mult_right_mono divide_right_mono) (simp_all only: of_int_le_iff, simp_all)
  finally show ?thesis
    unfolding v .
qed

text \<open>
  The routine on a positive mantissa: the parts it packs are in range up to the exponent, and the
  number they stand for is within one part in \<open>10 ^ 15 - 1\<close> of the number given.
\<close>

lemma normalize_xfl_parts:
  assumes lg: "log10_accurate lg" and m: "0 < m" "m < 2 ^ 64" "sman \<Longrightarrow> m < 2 ^ 63"
    and e: "- (2 ^ 31) + 20 < e" "e < 2 ^ 31 - 20"
  obtains m' e' where "normalize_xfl sman lg m e neg = Ok (finish_xfl sman m' e' neg)"
    and "minMantissa \<le> m'" and "m' \<le> maxMantissa"
    and "\<bar>of_int m' * 10 powi e' - of_int m * 10 powi e\<bar> * (10 ^ 15 - 1) \<le> (of_int m * 10 powi e :: rat)"
proof -
  obtain x e1 p r where adj: "adjust_order sman m e (15 - lg m) = Ok (x, e1)"
    and x: "10 ^ 15 - 100 \<le> x" "x \<le> 10 ^ 16 + 1001" and p: "1 \<le> p" "p \<le> 10 ^ 4" "0 \<le> r" "r < p"
    and v: "of_int m * 10 powi e = (of_int (x * p + r) / of_int p * 10 powi e1 :: rat)"
    and e1: "- (2 ^ 31) < e1" "e1 < 2 ^ 31 - 1"
    by (rule adjustment [OF lg m e])
  obtain m' d c where c: "corrected x m' d c"
    and steps: "obind (raise_mantissa sman x e1) (\<lambda>(man, e). lower_mantissa man e) = Ok (m', e1 + d)"
    by (rule correction [OF x e1])
  have "normalize_xfl sman lg m e neg = Ok (finish_xfl sman m' (e1 + d) neg)"
    using m(1) x(1) adj steps by (auto simp: normalize_xfl_def outcome_simps split: prod.splits)
  then show ?thesis
    using c normalized_value [OF c x(1) p v] by (intro that) (simp_all add: corrected_def)
qed

lemma digits_order_spec:
  assumes "0 < m" and "m < 10 ^ Suc n"
  shows "0 \<le> digits_order n m \<and> 10 ^ nat (digits_order n m) \<le> m \<and> m < 10 ^ Suc (nat (digits_order n m))"
  using assms
proof (induction n arbitrary: m)
  case (Suc n)
  show ?case
  proof (cases "m < 10")
    case False
    then have "0 < m div 10" "m div 10 < 10 ^ Suc n"
      using Suc.prems by (auto intro!: int_div_less simp: pos_imp_zdiv_pos_iff)
    from Suc.IH [OF this] show ?thesis
      using False by (auto simp: nat_add_distrib)
  qed (use Suc.prems in simp)
qed simp

lemma log10_exact_order:
  assumes "0 < m" and "m < 2 ^ 64"
  shows "0 \<le> log10_exact m" "10 ^ nat (log10_exact m) \<le> m" "m < 10 ^ Suc (nat (log10_exact m))"
  using digits_order_spec [of m 20] assms by (auto simp: log10_exact_def)

lemma log10_exact_accurate: "log10_accurate log10_exact"
  unfolding log10_accurate_def
proof (intro allI impI conjI)
  fix m :: int
  assume m: "0 < m \<and> m < 2 ^ 64"
  note order = log10_exact_order [OF conjunct1 [OF m] conjunct2 [OF m]]
  show "0 \<le> log10_exact m" by (rule order)
  show "10 ^ nat (log10_exact m) * (10 ^ 13 - 1) \<le> m * 10 ^ 13"
    using order(2) m by (intro mult_mono) auto
  show "m * (10 ^ 13 - 1) < 10 ^ Suc (nat (log10_exact m)) * 10 ^ 13"
    using order(3) m by (intro mult_strict_mono') auto
qed

lemma log10_rounded_accurate: "log10_accurate log10_rounded"
  unfolding log10_accurate_def
proof (intro allI impI)
  fix m :: int
  assume m: "0 < m \<and> m < 2 ^ 64"
  note order = log10_exact_order [OF conjunct1 [OF m] conjunct2 [OF m]]
  define K :: int where "K = 10 ^ Suc (nat (log10_exact m))"
  show "0 \<le> log10_rounded m \<and> 10 ^ nat (log10_rounded m) * (10 ^ 13 - 1) \<le> m * 10 ^ 13
      \<and> m * (10 ^ 13 - 1) < 10 ^ Suc (nat (log10_rounded m)) * 10 ^ 13"
  proof (cases "K - m \<le> K * 2 div 10 ^ 15")
    case True
    have "log10_rounded m = log10_exact m + 1"
      using True by (simp add: log10_rounded_def Let_def K_def)
    then have pow: "0 \<le> log10_rounded m" "10 ^ nat (log10_rounded m) = K" "10 ^ Suc (nat (log10_rounded m)) = 10 * K"
      using order(1) by (simp_all add: K_def nat_add_distrib)
    have "K * 2 div 10 ^ 15 * 10 ^ 15 \<le> K * 2"
      by (simp add: minus_mod_eq_div_mult [symmetric])
    with True have "(K - m) * 10 ^ 15 \<le> K * 2"
      by (meson mult_right_mono order_trans zero_le_numeral zero_le_power)
    moreover have "m < K" "0 < K"
      using order(3) by (simp_all add: K_def)
    ultimately show ?thesis
      unfolding pow using pow(1) by simp
  next
    case False
    then have "log10_rounded m = log10_exact m"
      by (simp add: log10_rounded_def Let_def K_def)
    with log10_exact_accurate m show ?thesis
      by (simp add: log10_accurate_def)
  qed
qed

text \<open>The sign the routine ends with, and the number it was given.\<close>

definition signed_by :: "bool \<Rightarrow> rat \<Rightarrow> rat" where
  "signed_by neg v = (if neg then - v else v)"

definition within_precision :: "rat \<Rightarrow> rat \<Rightarrow> bool" where
  "within_precision a v \<longleftrightarrow> \<bar>a - v\<bar> * (10 ^ 15 - 1) \<le> \<bar>v\<bar>"

lemma within_precision_signed [simp]:
  "0 \<le> v \<Longrightarrow> within_precision (signed_by neg a) (signed_by neg v) \<longleftrightarrow> \<bar>a - v\<bar> * (10 ^ 15 - 1) \<le> v"
  by (simp add: within_precision_def signed_by_def abs_minus_commute)

lemma near_bounds:
  fixes a v :: rat
  assumes "\<bar>a - v\<bar> * (10 ^ 15 - 1) \<le> v"
  shows "v \<le> 10 * a" "a \<le> 10 * v"
  using assms by (simp_all add: abs_if split: if_splits)

lemma finish_xfl_cases:
  assumes m: "minMantissa \<le> m" "m \<le> maxMantissa"
    and near: "\<bar>of_int m * 10 powi e - v\<bar> * (10 ^ 15 - 1) \<le> (v :: rat)"
    and r: "finish_xfl sman m e neg = (r, m', e')"
  shows "r = 0 \<and> v < 10 powi (- 79) \<or> r = XFL_OVERFLOW \<and> 10 powi 94 < v
    \<or> \<not> invalid_float r \<and> 0 < r \<and> r < 2 ^ 63 \<and> within_precision (xfl_value r) (signed_by neg v)"
proof -
  have v0: "0 \<le> v"
    by (rule order_trans [OF _ near]) simp
  consider "e < minExponent" | "maxExponent < e" | "in_xfl_range e m"
    using m unfolding in_xfl_range_def by linarith
  then show ?thesis
  proof cases
    case 1
    have "of_int m * 10 powi e < (of_int minMantissa * 10 powi minExponent :: rat)"
      by (rule scaled_less) (use m 1 in auto)
    also have "\<dots> = 10 powi (- 81)"
      by (simp add: xfl_limits power_int_def power_one_over)
    finally have "v < 10 * 10 powi (- 81)"
      using near_bounds(1) [OF near] by linarith
    also have "\<dots> < (10 powi (- 79) :: rat)"
      by (simp add: power_int_def power_one_over)
    finally show ?thesis
      using 1 r by (simp add: finish_xfl_def)
  next
    case 2
    have "of_int maxMantissa * 10 powi maxExponent < (of_int m * 10 powi e :: rat)"
      by (rule scaled_less) (use m 2 in auto)
    moreover have "10 * 10 powi 94 < (of_int maxMantissa * 10 powi maxExponent :: rat)"
      by (simp add: xfl_limits power_int_def)
    ultimately have "10 powi 94 < v"
      using near_bounds(2) [OF near] by linarith
    then show ?thesis
      using 2 m r by (auto simp: finish_xfl_def xfl_limits)
  next
    case 3
    then have "r = xfl_pack neg e m"
      using r by (auto simp: finish_xfl_def make_float_pack in_xfl_range_def xfl_limits)
    moreover have "xfl_value (xfl_pack neg e m) = signed_by neg (of_int m * 10 powi e)"
      using 3 by (simp add: signed_by_def)
    ultimately show ?thesis
      using 3 xfl_pack_bounds [OF 3, of neg] near v0 by simp
  qed
qed

lemma normalize_xfl_spec:
  assumes "log10_accurate lg" and "0 < m" and "m < 2 ^ 64" and "sman \<longrightarrow> m < 2 ^ 63"
    and "- (2 ^ 31) + 20 < e" and "e < 2 ^ 31 - 20"
  shows "\<exists>r m' e'. normalize_xfl sman lg m e neg = Ok (r, m', e')
    \<and> (r = 0 \<and> of_int m * 10 powi e < (10 powi (- 79) :: rat)
       \<or> r = XFL_OVERFLOW \<and> (10 powi 94 :: rat) < of_int m * 10 powi e
       \<or> \<not> invalid_float r \<and> 0 < r \<and> r < 2 ^ 63
         \<and> within_precision (xfl_value r) (signed_by neg (of_int m * 10 powi e)))"
proof -
  obtain m1 e1 where norm: "normalize_xfl sman lg m e neg = Ok (finish_xfl sman m1 e1 neg)"
    and parts: "minMantissa \<le> m1" "m1 \<le> maxMantissa"
      "\<bar>of_int m1 * 10 powi e1 - of_int m * 10 powi e\<bar> * (10 ^ 15 - 1) \<le> (of_int m * 10 powi e :: rat)"
    using normalize_xfl_parts [of lg m sman e neg] assms by blast
  obtain r m' e' where "finish_xfl sman m1 e1 neg = (r, m', e')"
    using prod_cases3 by blast
  with norm finish_xfl_cases [OF parts this] show ?thesis
    by auto
qed

text \<open>
  The limits of the format. A logarithm that is off by one for a mantissa next to a power of ten
  moves them by one part in \<open>10 ^ 15\<close>.
\<close>

definition nearly_tiny :: "rat \<Rightarrow> bool" where
  "nearly_tiny v \<longleftrightarrow> v * (10 ^ 15 - 2) < 10 powi (- 81) * (10 ^ 15 - 1)"

definition nearly_huge :: "rat \<Rightarrow> bool" where
  "nearly_huge v \<longleftrightarrow> 10 powi 96 * (10 ^ 15 - 1) \<le> v * 10 ^ 15"

definition normalized_to :: "bool \<Rightarrow> rat \<Rightarrow> int \<Rightarrow> bool" where
  "normalized_to neg v r \<longleftrightarrow>
     r = 0 \<and> nearly_tiny v \<or> r = XFL_OVERFLOW \<and> nearly_huge v
     \<or> \<not> invalid_float r \<and> 0 < r \<and> r < 2 ^ 63 \<and> within_precision (xfl_value r) (signed_by neg v)"

text \<open>With the exact order the number is cut off after sixteen digits and the limits are exact.\<close>

definition order_exact :: "(int \<Rightarrow> int) \<Rightarrow> int \<Rightarrow> bool" where
  "order_exact lg m \<longleftrightarrow> 10 ^ nat (lg m) \<le> m \<and> m < 10 ^ Suc (nat (lg m))"

definition cut_off :: "rat \<Rightarrow> int \<Rightarrow> bool" where
  "cut_off v r \<longleftrightarrow>
     (r = 0 \<longleftrightarrow> v < 10 powi (- 81)) \<and> (r = XFL_OVERFLOW \<longleftrightarrow> 10 powi 96 \<le> v)
     \<and> (r \<noteq> 0 \<longrightarrow> r \<noteq> XFL_OVERFLOW \<longrightarrow>
          \<bar>xfl_value r\<bar> \<le> v \<and> v < \<bar>xfl_value r\<bar> + 10 powi get_exponent r)"

lemma format_limits:
  "10 powi (- 81) = (of_int minMantissa * 10 powi minExponent :: rat)"
  "10 powi 96 = (of_int minMantissa * 10 powi (maxExponent + 1) :: rat)"
  by (simp_all add: xfl_limits power_int_def power_one_over)

lemma finish_xfl_normalized:
  assumes m: "minMantissa \<le> m" "m \<le> maxMantissa"
    and near: "\<bar>of_int m * 10 powi e - v\<bar> * (10 ^ 15 - 1) \<le> (v :: rat)"
    and r: "finish_xfl sman m e neg = (r, m', e')"
  shows "normalized_to neg v r"
proof -
  define a :: rat where "a = of_int m * 10 powi e"
  have close: "v * (10 ^ 15 - 2) \<le> a * (10 ^ 15 - 1)" "a * (10 ^ 15 - 1) \<le> v * 10 ^ 15"
    using near by (simp_all add: a_def [symmetric] abs_if split: if_splits)
  consider "e < minExponent" | "maxExponent < e" | "minExponent \<le> e" "e \<le> maxExponent"
    by linarith
  then show ?thesis
  proof cases
    case 1
    have "a < 10 powi (- 81)"
      unfolding a_def format_limits(1) by (rule scaled_less) (use m 1 in auto)
    then have "nearly_tiny v"
      using close(1) unfolding nearly_tiny_def by simp
    then show ?thesis
      using 1 r by (simp add: finish_xfl_def normalized_to_def)
  next
    case 2
    have "10 powi 96 \<le> a"
      unfolding a_def format_limits(2) using 2 m
      by (intro mult_mono power_int_increasing) (auto simp: xfl_limits)
    then have "nearly_huge v"
      using close(2) unfolding nearly_huge_def by simp
    then show ?thesis
      using 2 m r by (auto simp: finish_xfl_def normalized_to_def xfl_limits)
  next
    case 3
    with r m have "r = make_float m e neg"
      by (auto simp: finish_xfl_def xfl_limits)
    then have "0 < r" "r \<noteq> XFL_OVERFLOW"
      using xfl_pack_bounds(1) [of e m neg] make_float_pack [of e m neg] 3 m by (auto simp: in_xfl_range_def)
    with finish_xfl_cases [OF m near r] show ?thesis
      by (simp add: normalized_to_def)
  qed
qed

lemma finish_xfl_cut_off:
  assumes m: "minMantissa \<le> m" "m \<le> maxMantissa"
    and v: "of_int m * 10 powi e \<le> v" "v < (of_int (m + 1) * 10 powi e :: rat)"
    and r: "finish_xfl sman m e neg = (r, m', e')"
  shows "cut_off v r"
proof -
  have up: "v < of_int minMantissa * 10 powi (e + 1)"
  proof -
    have "of_int (m + 1) * 10 powi e \<le> (of_int (10 * minMantissa) * 10 powi e :: rat)"
      using m(2) by (intro mult_right_mono) (simp_all only: of_int_le_iff, simp_all add: xfl_limits)
    also have "\<dots> = of_int minMantissa * 10 powi (e + 1)"
      by (simp add: power_int_add)
    finally show ?thesis using v(2) by simp
  qed
  have upper: "v < of_int minMantissa * 10 powi k" if "e < k" for k
  proof -
    have "of_int minMantissa * 10 powi (e + 1) \<le> (of_int minMantissa * 10 powi k :: rat)"
      using that by (intro mult_left_mono power_int_increasing) (auto simp: xfl_limits)
    with up show ?thesis by simp
  qed
  have lower: "of_int minMantissa * 10 powi k \<le> v" if "k \<le> e" for k
  proof -
    have "of_int minMantissa * 10 powi k \<le> (of_int m * 10 powi e :: rat)"
      using that m(1) by (intro mult_mono power_int_increasing) (auto simp: xfl_limits)
    with v(1) show ?thesis by simp
  qed
  have tiny: "v < 10 powi (- 81) \<longleftrightarrow> e < minExponent"
    unfolding format_limits(1) using upper [of minExponent] lower [of minExponent] by linarith
  have huge: "10 powi 96 \<le> v \<longleftrightarrow> maxExponent < e"
    unfolding format_limits(2) using upper [of "maxExponent + 1"] lower [of "maxExponent + 1"] by linarith
  show ?thesis
  proof (cases "in_xfl_range e m")
    case True
    then have re: "r = xfl_pack neg e m"
      using r by (auto simp: finish_xfl_def make_float_pack in_xfl_range_def xfl_limits)
    have "0 < m"
      using m(1) by (simp add: xfl_limits)
    then have "\<bar>xfl_value r\<bar> = of_int m * 10 powi e"
      using True by (simp add: re abs_mult)
    moreover have "0 < r" "get_exponent r = e"
      using xfl_pack_bounds(1) [OF True, of neg] True by (simp_all add: re)
    ultimately show ?thesis
      using v True tiny huge by (auto simp: cut_off_def in_xfl_range_def algebra_simps)
  next
    case False
    with m consider "e < minExponent" | "maxExponent < e"
      by (auto simp: in_xfl_range_def)
    then show ?thesis
      using r m tiny huge by cases (auto simp: finish_xfl_def cut_off_def xfl_limits)
  qed
qed

text \<open>With the exact order the adjustment alone brings the mantissa into its range.\<close>

lemma normalize_xfl_exact_order:
  assumes lg: "log10_accurate lg" and m: "0 < m" "m < 2 ^ 64" "sman \<Longrightarrow> m < 2 ^ 63"
    and e: "- (2 ^ 31) + 20 < e" "e < 2 ^ 31 - 20" and o: "order_exact lg m"
    and r: "normalize_xfl sman lg m e neg = Ok (r, m', e')"
  shows "cut_off (of_int m * 10 powi e) r"
proof -
  obtain x e1 p q where adj: "adjust_order sman m e (15 - lg m) = Ok (x, e1)"
    and x: "10 ^ 15 - 100 \<le> x" and p: "1 \<le> p" "0 \<le> q" "q < p"
    and v: "of_int m * 10 powi e = (of_int (x * p + q) / of_int p * 10 powi e1 :: rat)"
    and e1: "e1 = e + lg m - 15"
    by (rule adjustment [OF lg m e])
  have lg0: "0 \<le> lg m"
    using lg m unfolding log10_accurate_def by blast
  define y :: rat where "y = of_int (x * p + q) / of_int p"
  have y: "of_int x \<le> y" "y < of_int (x + 1)"
    using p by (simp_all add: y_def field_simps)
  have "of_int m * 10 powi e = y * (10 powi (lg m - 15) * 10 powi e)"
  proof -
    have "10 powi e1 = (10 powi (lg m - 15) * 10 powi e :: rat)"
      unfolding e1 by (subst power_int_add [symmetric]) (simp_all add: algebra_simps)
    with v show ?thesis by (simp only: y_def)
  qed
  then have my: "of_int m = y * 10 powi (lg m - 15)"
    by simp
  have pow: "10 powi lg m = (10 ^ 15 * 10 powi (lg m - 15) :: rat)" "of_int (10 ^ nat (lg m)) = (10 powi lg m :: rat)"
    using lg0 by (simp add: power_int_diff) (simp add: power_int_def lg0)
  have "of_int (10 ^ nat (lg m)) \<le> (of_int m :: rat)" "of_int m < (of_int (10 * 10 ^ nat (lg m)) :: rat)"
    using o unfolding order_exact_def by (simp_all only: of_int_le_iff of_int_less_iff power_Suc)
  then have "10 ^ 15 * 10 powi (lg m - 15) \<le> y * 10 powi (lg m - 15)"
    "y * 10 powi (lg m - 15) < 10 ^ 16 * 10 powi (lg m - 15)"
    unfolding my of_int_mult pow by simp_all
  then have "10 ^ 15 \<le> y" "y < 10 ^ 16"
    by (auto dest: mult_right_le_imp_le mult_right_less_imp_less)
  with y have "of_int (10 ^ 15) < (of_int (x + 1) :: rat)" "of_int x < (of_int (10 ^ 16) :: rat)"
    by simp_all
  then have xr: "minMantissa \<le> x" "x \<le> maxMantissa"
    unfolding of_int_less_iff by (simp_all add: xfl_limits)
  have fin: "finish_xfl sman x e1 neg = (r, m', e')"
    using r m(1) adj xr by (auto simp: normalize_xfl_def outcome_simps raise_mantissa_def lower_mantissa_def xfl_limits)
  have "of_int x * 10 powi e1 \<le> y * 10 powi e1" "y * 10 powi e1 < of_int (x + 1) * (10 powi e1 :: rat)"
    using y by simp_all
  with finish_xfl_cut_off [OF xr _ _ fin] v show ?thesis
    by (simp only: y_def)
qed

lemma normalize_xfl_sign:
  assumes "sman \<longrightarrow> \<bar>m\<bar> < 2 ^ 63" and "\<not> sman \<longrightarrow> 0 < m"
  shows "normalize_xfl sman lg m e neg = normalize_xfl sman lg \<bar>m\<bar> e (neg \<or> m < 0)"
proof (cases "m < 0")
  case True
  then have "sman"
    using assms(2) by linarith
  with True assms(1) show ?thesis
    by (simp add: normalize_xfl_def int64_chk_def int64_range_def)
next
  case False
  then show ?thesis by simp
qed

text \<open>
  C30: normalisation is accurate. Given a logarithm of the stated accuracy, a non-zero mantissa of the
  argument's type other than the smallest \<^verbatim>\<open>int64_t\<close>, and an exponent away from the limits of
  \<^verbatim>\<open>int32_t\<close>, the routine returns. The result is a valid float of the right sign within one part in
  \<open>10 ^ 15 - 1\<close> of the number given; it is zero only below \<open>10 ^ -81\<close> and \<^verbatim>\<open>XFL_OVERFLOW\<close> only from
  \<open>10 ^ 96\<close> on, limits that hold up to one part in \<open>10 ^ 15 - 1\<close>. Where the logarithm has the exact
  order of the mantissa, the number is cut off after its sixteenth digit, and it is zero exactly
  below \<open>10 ^ -81\<close> and \<^verbatim>\<open>XFL_OVERFLOW\<close> exactly from \<open>10 ^ 96\<close> on.
\<close>

theorem normalize_xfl_accurate:
  assumes "log10_accurate lg" and "m \<noteq> 0" and "sman \<longrightarrow> \<bar>m\<bar> < 2 ^ 63" and "\<not> sman \<longrightarrow> 0 < m \<and> m < 2 ^ 64"
    and "- (2 ^ 31) + 20 < e" and "e < 2 ^ 31 - 20"
  shows "\<exists>r m' e'. normalize_xfl sman lg m e neg = Ok (r, m', e')
    \<and> normalized_to (neg \<or> m < 0) (of_int \<bar>m\<bar> * 10 powi e) r
    \<and> (order_exact lg \<bar>m\<bar> \<longrightarrow> cut_off (of_int \<bar>m\<bar> * 10 powi e) r)"
proof -
  let ?n = "neg \<or> m < 0"
  have m: "0 < \<bar>m\<bar>" "\<bar>m\<bar> < 2 ^ 64" "sman \<Longrightarrow> \<bar>m\<bar> < 2 ^ 63"
    using assms(2-4) by (cases sman; simp)+
  obtain m1 e1 where norm: "normalize_xfl sman lg \<bar>m\<bar> e ?n = Ok (finish_xfl sman m1 e1 ?n)"
    and parts: "minMantissa \<le> m1" "m1 \<le> maxMantissa"
      "\<bar>of_int m1 * 10 powi e1 - of_int \<bar>m\<bar> * 10 powi e\<bar> * (10 ^ 15 - 1) \<le> (of_int \<bar>m\<bar> * 10 powi e :: rat)"
    by (rule normalize_xfl_parts [OF assms(1) m assms(5,6)])
  obtain r m' e' where fin: "finish_xfl sman m1 e1 ?n = (r, m', e')"
    using prod_cases3 by blast
  have "normalize_xfl sman lg m e neg = Ok (r, m', e')"
    using normalize_xfl_sign [of sman m lg e neg] norm fin assms(3,4) by simp
  with finish_xfl_normalized [OF parts fin] normalize_xfl_exact_order [OF assms(1) m assms(5,6)] norm fin
  show ?thesis by auto
qed

theorem normalize_xfl_accurate_witness:
  "(\<exists>r m' e'. normalize_xfl True log10_rounded 999999999999999 0 False = Ok (r, m', e')
    \<and> normalized_to False (of_int 999999999999999 * 10 powi 0) r)
   \<and> (\<exists>r m' e'. normalize_xfl True log10_rounded (- 12345678901234567) (- 113) False = Ok (r, m', e')
    \<and> r = 0 \<and> cut_off (of_int 12345678901234567 * 10 powi (- 113)) r)"
proof -
  have order: "order_exact log10_rounded 12345678901234567" and zero: "normalize_xfl True log10_rounded (- 12345678901234567) (- 113) False = Ok (0, 0, 0)"
    by code_simp+
  show ?thesis
    using normalize_xfl_accurate [OF log10_rounded_accurate, of 999999999999999 True 0 False]
      normalize_xfl_accurate [OF log10_rounded_accurate, of "- 12345678901234567" True "- 113" False] order zero
    by auto
qed

text \<open>
  Where the logarithm rounds up, the correction replaces \<open>999999999999999\<close>, which has an exact
  representation, by \<open>10 ^ 15\<close>; and the routine overflows on the smallest \<^verbatim>\<open>int64_t\<close> and at the
  ends of the exponent's type.
\<close>

lemma normalize_xfl_inexact:
  "normalize_xfl True log10_rounded 999999999999999 0 False = Ok (make_float (10 ^ 15) 0 False, 10 ^ 15, 0)"
  "normalize_xfl True log10_exact 999999999999999 0 False
     = Ok (make_float 9999999999999990 (- 1) False, 9999999999999990, - 1)"
  by code_simp+

lemma normalize_xfl_undefined:
  "normalize_xfl True log10_exact (- (2 ^ 63)) 0 False = Undef"
  "normalize_xfl True log10_exact 1 (- (2 ^ 31)) False = Undef"
  by code_simp+

end
