(* ===== verification/Iou_Amount.thy ===== *)
theory Iou_Amount
  imports Xfl
begin

text \<open>
  \<^verbatim>\<open>IOUAmount\<close> of \<^verbatim>\<open>src/ripple/basics/IOUAmount.h\<close> and \<^verbatim>\<open>impl/IOUAmount.cpp\<close>: the decimal amounts the
  float API computes with. The file declares the same limits of mantissa and exponent as
  \<^verbatim>\<open>hook_float\<close>, so the constants are shared. An exception is the outcome \<open>Throw overflow_error\<close>.
\<close>

section \<open>Amounts\<close>

record iou_amount =
  iou_mantissa :: int
  iou_exponent :: int

definition iou_zero :: iou_amount where
  "iou_zero = \<lparr>iou_mantissa = 0, iou_exponent = - 100\<rparr>"

text \<open>The two loops of \<^verbatim>\<open>normalize()\<close>.\<close>

function iou_scale_up :: "int \<Rightarrow> int \<Rightarrow> int \<times> int" where
  "iou_scale_up m e =
     (if m < minMantissa \<and> minExponent < e then iou_scale_up (m * 10) (e - 1) else (m, e))"
  by pat_completeness auto
termination
  by (relation "measure (\<lambda>(m, e). nat (e - minExponent))") auto

function iou_scale_down :: "int \<Rightarrow> int \<Rightarrow> (int \<times> int) outcome" where
  "iou_scale_down m e =
     (if maxMantissa < m then
        if maxExponent \<le> e then Throw overflow_error else iou_scale_down (m div 10) (e + 1)
      else Ok (m, e))"
  by pat_completeness auto
termination
  by (relation "measure (\<lambda>(m, e). nat m)") (auto simp: xfl_limits)

declare iou_scale_up.simps [simp del] iou_scale_down.simps [simp del]

definition iou_normalize :: "iou_amount \<Rightarrow> iou_amount outcome" where
  "iou_normalize a =
     (if iou_mantissa a = 0 then Ok iou_zero
      else
        let negative = iou_mantissa a < 0 in
        obind (if negative then int64_chk (- iou_mantissa a) else Ok (iou_mantissa a)) (\<lambda>m.
        let (m, e) = iou_scale_up m (iou_exponent a) in
        obind (iou_scale_down m e) (\<lambda>(m, e).
        if e < minExponent \<or> m < minMantissa then Ok iou_zero
        else if maxExponent < e then Throw overflow_error
        else Ok \<lparr>iou_mantissa = (if negative then - m else m), iou_exponent = e\<rparr>)))"

text \<open>\<^verbatim>\<open>IOUAmount(std::int64_t mantissa, int exponent)\<close>\<close>

definition IOUAmount :: "int \<Rightarrow> int \<Rightarrow> iou_amount outcome" where
  "IOUAmount mantissa e = iou_normalize \<lparr>iou_mantissa = mantissa, iou_exponent = e\<rparr>"

definition minPositiveAmount :: "iou_amount outcome" where
  "minPositiveAmount = IOUAmount minMantissa minExponent"

text \<open>A comparison with \<^verbatim>\<open>beast::zero\<close> is a comparison of \<^verbatim>\<open>signum()\<close> with 0.\<close>

definition iou_signum :: "iou_amount \<Rightarrow> int" where
  "iou_signum a = (if iou_mantissa a < 0 then - 1 else if iou_mantissa a \<noteq> 0 then 1 else 0)"

text \<open>Division in C++ truncates towards zero.\<close>

definition tdiv10 :: "int \<Rightarrow> int" where
  "tdiv10 m = (if m < 0 then - (- m div 10) else m div 10)"

text \<open>The alignment loops of \<^verbatim>\<open>operator+=\<close>: drop a digit per step until exponent \<open>e\<close> reaches \<open>t\<close>.\<close>

function iou_align :: "int \<Rightarrow> int \<Rightarrow> int \<Rightarrow> int \<times> int" where
  "iou_align m e t = (if e < t then iou_align (tdiv10 m) (e + 1) t else (m, e))"
  by pat_completeness auto
termination
  by (relation "measure (\<lambda>(m, e, t). nat (t - e))") auto

declare iou_align.simps [simp del]

definition iou_add :: "iou_amount \<Rightarrow> iou_amount \<Rightarrow> iou_amount outcome" where
  "iou_add this other =
     (if iou_signum other = 0 then Ok this
      else if iou_signum this = 0 then Ok other
      else
        let (mantissa, e) = iou_align (iou_mantissa this) (iou_exponent this) (iou_exponent other);
            (m, _) = iou_align (iou_mantissa other) (iou_exponent other) e
        in obind (int64_chk (mantissa + m)) (\<lambda>mantissa.
           if - 10 \<le> mantissa \<and> mantissa \<le> 10 then Ok iou_zero
           else iou_normalize \<lparr>iou_mantissa = mantissa, iou_exponent = e\<rparr>))"

text \<open>Unary minus builds a new amount, so it normalises; the difference adds it.\<close>

definition iou_neg :: "iou_amount \<Rightarrow> iou_amount outcome" where
  "iou_neg a = obind (int64_chk (- iou_mantissa a)) (\<lambda>m. IOUAmount m (iou_exponent a))"

definition iou_sub :: "iou_amount \<Rightarrow> iou_amount \<Rightarrow> iou_amount outcome" where
  "iou_sub this other = obind (iou_neg other) (\<lambda>n. iou_add this n)"

definition iou_eq :: "iou_amount \<Rightarrow> iou_amount \<Rightarrow> bool" where
  "iou_eq a b \<longleftrightarrow> iou_exponent a = iou_exponent b \<and> iou_mantissa a = iou_mantissa b"

definition iou_less :: "iou_amount \<Rightarrow> iou_amount \<Rightarrow> bool" where
  "iou_less a b =
     (let lneg = iou_mantissa a < 0; rneg = iou_mantissa b < 0 in
      if lneg \<noteq> rneg then lneg
      else if iou_mantissa a = 0 then 0 < iou_mantissa b
      else if iou_mantissa b = 0 then False
      else if iou_exponent b < iou_exponent a then lneg
      else if iou_exponent a < iou_exponent b then \<not> lneg
      else iou_mantissa a < iou_mantissa b)"

section \<open>Scaling by a ratio\<close>

text \<open>
  \<^verbatim>\<open>mulRatio\<close>: the table holds the powers of ten up to \<open>10 ^ 29\<close>, and \<^verbatim>\<open>log10Ceil\<close> is the position of
  the first entry that is not below the argument, searched from \<open>i\<close>. The values fit in 128 bits.
\<close>

function lower_bound_pow10 :: "int \<Rightarrow> nat \<Rightarrow> nat" where
  "lower_bound_pow10 v i = (if i < 30 \<and> 10 ^ i < v then lower_bound_pow10 v (Suc i) else i)"
  by pat_completeness auto
termination
  by (relation "measure (\<lambda>(v, i). 30 - i)") auto

declare lower_bound_pow10.simps [simp del]

definition log10Ceil :: "int \<Rightarrow> int" where
  "log10Ceil v = int (lower_bound_pow10 v 0)"

definition log10Floor :: "int \<Rightarrow> int" where
  "log10Floor v = (let index = lower_bound_pow10 v 0 in if 10 ^ index \<noteq> v then int index - 1 else int index)"

definition fl64 :: int where
  "fl64 = log10Floor (2 ^ 63 - 1)"

text \<open>The quotient with as many more digits as fit, and whether anything remains.\<close>

definition grow_quotient :: "int \<Rightarrow> int \<Rightarrow> int \<Rightarrow> int \<times> int \<times> int" where
  "grow_quotient mul den e =
     (let low = mul div den; rem = mul - low * den in
      if rem = 0 then (low, rem, e)
      else
        let roomToGrow = fl64 - log10Ceil low;
            (low, rem, e) = (if 0 < roomToGrow then (low * 10 ^ nat roomToGrow, rem * 10 ^ nat roomToGrow, e - roomToGrow)
                             else (low, rem, e));
            addRem = rem div den
        in (low + addRem, rem - addRem * den, e))"

definition shrink_quotient :: "int \<Rightarrow> bool \<Rightarrow> int \<Rightarrow> int \<times> bool \<times> int" where
  "shrink_quotient low hasRem e =
     (let mustShrink = log10Ceil low - fl64 in
      if 0 < mustShrink then
        let sav = low; low = low div 10 ^ nat mustShrink
        in (low, hasRem \<or> sav - low * 10 ^ nat mustShrink \<noteq> 0, e + mustShrink)
      else (low, hasRem, e))"

definition mulRatio :: "iou_amount \<Rightarrow> int \<Rightarrow> int \<Rightarrow> bool \<Rightarrow> iou_amount outcome" where
  "mulRatio amt num den roundUp =
     (if den = 0 then Throw runtime_error
      else
        let neg = iou_mantissa amt < 0;
            mul = \<bar>iou_mantissa amt\<bar> * num;
            (low, rem, e) = grow_quotient mul den (iou_exponent amt);
            (low, hasRem, e) = shrink_quotient low (rem \<noteq> 0) e
        in obind (IOUAmount (if neg then - low else low) e) (\<lambda>result.
           if hasRem \<and> roundUp \<and> \<not> neg then
             if iou_mantissa result = 0 then minPositiveAmount
             else IOUAmount (iou_mantissa result + 1) (iou_exponent result)
           else if hasRem \<and> \<not> roundUp \<and> neg then
             if iou_mantissa result = 0 then IOUAmount (- minMantissa) minExponent
             else IOUAmount (iou_mantissa result - 1) (iou_exponent result)
           else Ok result))"

section \<open>Normalised amounts and their values\<close>

definition iou_wf :: "iou_amount \<Rightarrow> bool" where
  "iou_wf a \<longleftrightarrow> a = iou_zero \<or> in_xfl_range (iou_exponent a) \<bar>iou_mantissa a\<bar>"

definition iou_value :: "iou_amount \<Rightarrow> rat" where
  "iou_value a = of_int (iou_mantissa a) * 10 powi iou_exponent a"

lemma iou_zero_simps [simp]:
  "iou_wf iou_zero" "iou_mantissa iou_zero = 0" "iou_exponent iou_zero = - 100" "iou_value iou_zero = 0"
  by (simp_all add: iou_wf_def iou_zero_def iou_value_def)

lemma powi10_not_neg [simp]: "\<not> (10 powi e :: rat) < 0"
  by (simp add: not_less)

lemma iou_value_sign:
  "0 < iou_value c \<longleftrightarrow> 0 < iou_mantissa c" "iou_value c < 0 \<longleftrightarrow> iou_mantissa c < 0"
  "iou_value c = 0 \<longleftrightarrow> iou_mantissa c = 0"
  by (simp_all add: iou_value_def zero_less_mult_iff mult_less_0_iff)

lemma iou_wf_mantissa_0: "iou_wf a \<Longrightarrow> iou_mantissa a = 0 \<longleftrightarrow> a = iou_zero"
  by (auto simp: iou_wf_def in_xfl_range_def xfl_limits)

lemma iou_scale_up_spec:
  assumes "0 < m"
  shows "\<exists>k. iou_scale_up m e = (m * 10 ^ k, e - int k)
    \<and> (minMantissa \<le> m * 10 ^ k \<or> e - int k \<le> minExponent)
    \<and> (k \<noteq> 0 \<longrightarrow> m * 10 ^ k \<le> maxMantissa \<and> minExponent \<le> e - int k)"
  using assms
proof (induction m e rule: iou_scale_up.induct)
  case (1 m e)
  show ?case
  proof (cases "m < minMantissa \<and> minExponent < e")
    case True
    from 1(1) [OF True] 1(2) obtain k where k: "iou_scale_up (m * 10) (e - 1) = (m * 10 * 10 ^ k, e - 1 - int k)"
      and b: "minMantissa \<le> m * 10 * 10 ^ k \<or> e - 1 - int k \<le> minExponent"
        "k \<noteq> 0 \<longrightarrow> m * 10 * 10 ^ k \<le> maxMantissa \<and> minExponent \<le> e - 1 - int k"
      by auto
    have "m * 10 \<le> maxMantissa" "minExponent \<le> e - 1"
      using True by (simp_all add: xfl_limits)
    with k b True show ?thesis
      by (intro exI [of _ "Suc k"]) (cases "k = 0", auto simp: iou_scale_up.simps [of m e] algebra_simps)
  next
    case False
    then show ?thesis
      by (intro exI [of _ 0]) (auto simp: iou_scale_up.simps [of m e])
  qed
qed

lemma iou_scale_down_spec:
  assumes "0 < m"
  shows "(\<exists>k. iou_scale_down m e = Ok (m div 10 ^ k, e + int k)
      \<and> m div 10 ^ k \<le> maxMantissa \<and> (k \<noteq> 0 \<longrightarrow> minMantissa \<le> m div 10 ^ k \<and> e + int k \<le> maxExponent))
    \<or> iou_scale_down m e = Throw overflow_error
      \<and> (\<exists>k. (maxMantissa + 1) * 10 ^ k \<le> m \<and> maxExponent \<le> e + int k)"
  using assms
proof (induction m e rule: iou_scale_down.induct)
  case (1 m e)
  consider "m \<le> maxMantissa" | "maxMantissa < m" "maxExponent \<le> e" | "maxMantissa < m" "e < maxExponent"
    by linarith
  then show ?case
  proof cases
    case 1
    then show ?thesis
      by (intro disjI1 exI [of _ 0]) (simp add: iou_scale_down.simps [of m e])
  next
    case 2
    then show ?thesis
      by (intro disjI2 conjI exI [of _ 0]) (simp_all add: iou_scale_down.simps [of m e])
  next
    case 3
    then have m10: "0 < m div 10" "minMantissa \<le> m div 10"
      by (simp_all add: xfl_limits pos_imp_zdiv_pos_iff)
    have step: "iou_scale_down m e = iou_scale_down (m div 10) (e + 1)"
      using 3 by (simp add: iou_scale_down.simps [of m e])
    have div: "m div 10 div 10 ^ k = m div 10 ^ Suc k" for k
      by (simp add: zdiv_zmult2_eq)
    from 1(1) [OF 3(1) _ m10(1)] 3(2) consider
      (ok) k where "iou_scale_down (m div 10) (e + 1) = Ok (m div 10 ^ Suc k, e + int (Suc k))"
        "m div 10 ^ Suc k \<le> maxMantissa" "k \<noteq> 0 \<longrightarrow> minMantissa \<le> m div 10 ^ Suc k \<and> e + int (Suc k) \<le> maxExponent"
    | (throw) k where "iou_scale_down (m div 10) (e + 1) = Throw overflow_error"
        "(maxMantissa + 1) * 10 ^ k \<le> m div 10" "maxExponent \<le> e + int (Suc k)"
      unfolding div by (auto simp: algebra_simps)
    then show ?thesis
    proof cases
      case ok
      then show ?thesis
        using step m10 3 by (intro disjI1 exI [of _ "Suc k"]) (cases "k = 0", auto)
    next
      case throw
      have "(maxMantissa + 1) * 10 ^ Suc k \<le> m"
        using throw(2) mult_right_mono [of _ _ "10 :: int"] by (simp add: algebra_simps)
      with throw show ?thesis
        using step by (intro disjI2 conjI exI [of _ "Suc k"]) simp_all
    qed
  qed
qed

text \<open>The magnitude part of the normalisation: exact when digits are added, truncating when dropped.\<close>

lemma scaled_div:
  assumes "0 < (m :: int)"
  shows "of_int (m div 10 ^ k) * 10 powi (e + int k) \<le> (of_int m * 10 powi e :: rat)"
    and "of_int m * 10 powi e < (of_int (m div 10 ^ k) + 1) * (10 powi (e + int k) :: rat)"
proof -
  have "m div 10 ^ k * 10 ^ k \<le> m"
    by (simp add: minus_mod_eq_div_mult [symmetric])
  then have "of_int (m div 10 ^ k * 10 ^ k) * 10 powi e \<le> (of_int m * 10 powi e :: rat)"
    by (intro mult_right_mono) (simp_all only: of_int_le_iff zero_le_power_int zero_le_numeral)
  then show "of_int (m div 10 ^ k) * 10 powi (e + int k) \<le> (of_int m * 10 powi e :: rat)"
    by (simp add: power_int_add algebra_simps)
  have "m < (m div 10 ^ k + 1) * 10 ^ k"
    using pos_mod_bound [of "10 ^ k" m, OF zero_less_power [OF zero_less_numeral]] div_mult_mod_eq [of m "10 ^ k"]
    unfolding distrib_right by linarith
  then have "of_int m * 10 powi e < (of_int ((m div 10 ^ k + 1) * 10 ^ k) * 10 powi e :: rat)"
    by (intro mult_strict_right_mono) (simp_all only: of_int_less_iff, simp)
  then show "of_int m * 10 powi e < (of_int (m div 10 ^ k) + 1) * (10 powi (e + int k) :: rat)"
    by (simp add: power_int_add algebra_simps)
qed

definition truncates :: "iou_amount \<Rightarrow> rat \<Rightarrow> bool" where
  "truncates a v \<longleftrightarrow>
     (if a = iou_zero then \<bar>v\<bar> < 10 powi (- 81)
      else in_xfl_range (iou_exponent a) \<bar>iou_mantissa a\<bar> \<and> (iou_mantissa a < 0 \<longleftrightarrow> v < 0)
        \<and> \<bar>iou_value a\<bar> \<le> \<bar>v\<bar> \<and> \<bar>v\<bar> < \<bar>iou_value a\<bar> + 10 powi iou_exponent a)"

lemma truncates_wf: "truncates a v \<Longrightarrow> iou_wf a"
  by (auto simp: truncates_def iou_wf_def split: if_splits)

lemma scale_magnitude:
  assumes m: "0 < m" and up: "iou_scale_up m e = (m1, e1)"
  shows "case iou_scale_down m1 e1 of
      Ok (m2, e2) \<Rightarrow>
        0 \<le> m2 \<and> m2 \<le> maxMantissa \<and> of_int m2 * 10 powi e2 \<le> (of_int m * 10 powi e :: rat)
        \<and> of_int m * 10 powi e < ((of_int m2 + 1) * 10 powi e2 :: rat)
        \<and> (m2 < minMantissa \<or> e2 < minExponent \<longrightarrow> (of_int m * 10 powi e :: rat) < 10 powi (- 81))
    | Throw x \<Rightarrow> x = overflow_error \<and> (10 powi 96 :: rat) \<le> of_int m * 10 powi e
    | _ \<Rightarrow> False"
proof -
  obtain k where k: "m1 = m * 10 ^ k" "e1 = e - int k"
    and small: "minMantissa \<le> m1 \<or> e1 \<le> minExponent" and grown: "k \<noteq> 0 \<longrightarrow> m1 \<le> maxMantissa \<and> minExponent \<le> e1"
    using iou_scale_up_spec [OF m, of e] up by auto
  have m1: "0 < m1" and v: "of_int m * 10 powi e = (of_int m1 * 10 powi e1 :: rat)"
    using m by (simp_all add: k power_int_diff)
  from iou_scale_down_spec [OF m1, of e1] show ?thesis
  proof (elim disjE exE conjE)
    fix j
    assume down: "iou_scale_down m1 e1 = Ok (m1 div 10 ^ j, e1 + int j)"
      and le: "m1 div 10 ^ j \<le> maxMantissa"
      and shrunk: "j \<noteq> 0 \<longrightarrow> minMantissa \<le> m1 div 10 ^ j \<and> e1 + int j \<le> maxExponent"
    have "(of_int m1 * 10 powi e1 :: rat) < 10 powi (- 81)"
      if under: "m1 div 10 ^ j < minMantissa \<or> e1 + int j < minExponent"
    proof -
      have lim: "(of_int minMantissa * 10 powi minExponent :: rat) = 10 powi (- 81)"
        by (simp add: xfl_limits power_int_def power_one_over)
      consider "e1 + int j < minExponent" | "minExponent \<le> e1 + int j" "m1 div 10 ^ j < minMantissa"
        using under by linarith
      then show ?thesis
      proof cases
        case 1
        have "of_int m1 * 10 powi e1 < (of_int (m1 div 10 ^ j + 1) * 10 powi (e1 + int j) :: rat)"
          using scaled_div(2) [OF m1, of e1 j] by simp
        also have "\<dots> \<le> of_int (10 * minMantissa) * 10 powi (e1 + int j)"
          using le by (intro mult_right_mono) (simp_all only: of_int_le_iff, simp_all add: xfl_limits)
        also have "\<dots> = of_int minMantissa * 10 powi (e1 + int j + 1)"
          by (simp add: power_int_add)
        also have "\<dots> \<le> of_int minMantissa * 10 powi minExponent"
          using 1 by (intro mult_left_mono power_int_increasing) (auto simp: xfl_limits)
        finally show ?thesis
          unfolding lim .
      next
        case 2
        with shrunk have "j = 0" "m1 < minMantissa"
          by (cases "j = 0"; simp)+
        with small 2(1) have "e1 = minExponent" by simp
        with \<open>m1 < minMantissa\<close> have "of_int m1 * 10 powi e1 < (of_int minMantissa * 10 powi minExponent :: rat)"
          by simp
        then show ?thesis
          unfolding lim .
      qed
    qed
    with down le m1 scaled_div [OF m1, where e = e1 and k = j] show ?thesis
      unfolding v by (simp add: pos_imp_zdiv_nonneg_iff)
  next
    fix j
    assume "iou_scale_down m1 e1 = Throw overflow_error"
      and big: "(maxMantissa + 1) * 10 ^ j \<le> m1" "maxExponent \<le> e1 + int j"
    have "(10 powi 96 :: rat) = of_int (maxMantissa + 1) * 10 powi maxExponent"
      by (simp add: xfl_limits power_int_def)
    also have "\<dots> \<le> of_int (maxMantissa + 1) * 10 powi (e1 + int j)"
      using big(2) by (intro mult_left_mono power_int_increasing) (auto simp: xfl_limits)
    also have "\<dots> = of_int ((maxMantissa + 1) * 10 ^ j) * 10 powi e1"
      by (simp add: power_int_add)
    also have "\<dots> \<le> of_int m1 * 10 powi e1"
      using big(1) by (intro mult_right_mono) (simp_all only: of_int_le_iff, simp)
    finally show ?thesis
      using \<open>iou_scale_down m1 e1 = Throw overflow_error\<close> by (simp add: v)
  qed
qed

lemma IOUAmount_eq:
  assumes "- (2 ^ 63) < m" and "m < 2 ^ 63" and "m \<noteq> 0" and "iou_scale_up \<bar>m\<bar> e = (m1, e1)"
  shows "IOUAmount m e =
    obind (iou_scale_down m1 e1) (\<lambda>(m2, e2).
      if e2 < minExponent \<or> m2 < minMantissa then Ok iou_zero
      else if maxExponent < e2 then Throw overflow_error
      else Ok \<lparr>iou_mantissa = (if m < 0 then - m2 else m2), iou_exponent = e2\<rparr>)"
  using assms by (cases "m < 0") (simp_all add: IOUAmount_def iou_normalize_def int64_chk_def int64_range_def cong: if_cong)

lemma IOUAmount_truncates:
  assumes "- (2 ^ 63) < m" and "m < 2 ^ 63" and "m \<noteq> 0"
  shows "case IOUAmount m e of
      Ok a \<Rightarrow> truncates a (of_int m * 10 powi e)
    | Throw x \<Rightarrow> x = overflow_error \<and> (10 powi 96 :: rat) \<le> \<bar>of_int m * 10 powi e\<bar>
    | _ \<Rightarrow> False"
proof -
  obtain m1 e1 where up: "iou_scale_up \<bar>m\<bar> e = (m1, e1)"
    by fastforce
  have "0 < \<bar>m\<bar>"
    using assms(3) by simp
  note mag = scale_magnitude [OF this up]
  have v: "\<bar>of_int m * 10 powi e :: rat\<bar> = of_int \<bar>m\<bar> * 10 powi e"
    by (simp add: abs_mult)
  have neg: "(of_int m * 10 powi e :: rat) < 0 \<longleftrightarrow> m < 0"
    by (simp add: mult_less_0_iff)
  note eq = IOUAmount_eq [OF assms up]
  show ?thesis
  proof (cases "iou_scale_down m1 e1")
    case (Ok r)
    obtain m2 e2 where r: "r = (m2, e2)" by fastforce
    show ?thesis
    proof (cases "e2 < minExponent \<or> m2 < minMantissa")
      case True
      then show ?thesis
        using mag Ok by (auto simp: eq truncates_def r v)
    next
      case False
      show ?thesis
      proof (cases "maxExponent < e2")
        case True
        have "(10 powi 96 :: rat) = of_int (10 * minMantissa) * 10 powi maxExponent"
          by (simp add: xfl_limits power_int_def)
        also have "\<dots> = of_int minMantissa * 10 powi (maxExponent + 1)"
          by (simp add: power_int_add)
        also have "\<dots> \<le> of_int m2 * 10 powi e2"
          using True False by (intro mult_mono power_int_increasing) (auto simp: xfl_limits)
        also have "\<dots> \<le> of_int \<bar>m\<bar> * 10 powi e"
          using mag Ok by (simp add: r)
        finally have "(10 powi 96 :: rat) \<le> \<bar>of_int m * 10 powi e\<bar>"
          by (simp only: v)
        then show ?thesis
          using True False Ok by (simp add: eq r)
      next
        case in_range: False
        define a where "a = \<lparr>iou_mantissa = (if m < 0 then - m2 else m2), iou_exponent = e2\<rparr>"
        have "IOUAmount m e = Ok a"
          using in_range False Ok by (simp add: eq r a_def)
        moreover have "a \<noteq> iou_zero" "in_xfl_range e2 m2" "\<bar>iou_mantissa a\<bar> = m2" "iou_exponent a = e2"
          "iou_mantissa a < 0 \<longleftrightarrow> m < 0" "\<bar>iou_value a\<bar> = of_int m2 * 10 powi e2"
          using False in_range mag Ok
          by (auto simp: a_def iou_zero_def r in_xfl_range_def xfl_limits iou_value_def abs_mult)
        ultimately show ?thesis
          using mag Ok by (simp add: truncates_def v neg r algebra_simps)
      qed
    qed
  qed (use mag in \<open>auto simp: eq v\<close>)
qed

text \<open>
  Normalisation truncates. For a mantissa other than the smallest \<^verbatim>\<open>int64_t\<close>, the constructor
  returns a normalised amount that is the number given cut off after its sixteenth digit, or zero
  for a number below \<open>10 ^ -81\<close>; it throws only for numbers from \<open>10 ^ 96\<close> on.
\<close>

theorem iou_normalize_truncates:
  assumes "- (2 ^ 63) < m" and "m < 2 ^ 63" and "m \<noteq> 0"
  shows "case IOUAmount m e of
      Ok a \<Rightarrow> truncates a (of_int m * 10 powi e)
    | Throw x \<Rightarrow> x = overflow_error \<and> (10 powi 96 :: rat) \<le> \<bar>of_int m * 10 powi e\<bar>
    | _ \<Rightarrow> False"
  by (rule IOUAmount_truncates [OF assms])

theorem iou_normalize_truncates_witness:
  "case IOUAmount (- 123456789012345678) (- 5) of
      Ok a \<Rightarrow> truncates a (of_int (- 123456789012345678) * 10 powi (- 5))
    | Throw x \<Rightarrow> x = overflow_error \<and> (10 powi 96 :: rat) \<le> \<bar>of_int (- 123456789012345678) * 10 powi (- 5)\<bar>
    | _ \<Rightarrow> False"
  by (rule iou_normalize_truncates) simp_all

text \<open>An amount already normalised is left alone.\<close>

lemma IOUAmount_id:
  assumes "in_xfl_range e \<bar>m\<bar>"
  shows "IOUAmount m e = Ok \<lparr>iou_mantissa = m, iou_exponent = e\<rparr>"
proof -
  have "iou_scale_up \<bar>m\<bar> e = (\<bar>m\<bar>, e)" "iou_scale_down \<bar>m\<bar> e = Ok (\<bar>m\<bar>, e)"
    using assms by (simp_all add: iou_scale_up.simps [of "\<bar>m\<bar>" e] iou_scale_down.simps [of "\<bar>m\<bar>" e] in_xfl_range_def)
  then show ?thesis
    using assms IOUAmount_eq [of m e "\<bar>m\<bar>" e] by (auto simp: in_xfl_range_def xfl_limits)
qed

section \<open>Comparison\<close>

lemma iou_less_iff:
  assumes "iou_wf a" and "iou_wf b"
  shows "iou_less a b \<longleftrightarrow> iou_value a < iou_value b"
proof -
  consider "iou_mantissa a = 0" | "iou_mantissa b = 0" | "iou_mantissa a < 0" "0 < iou_mantissa b"
    | "0 < iou_mantissa a" "iou_mantissa b < 0" | "0 < iou_mantissa a" "0 < iou_mantissa b"
    | "iou_mantissa a < 0" "iou_mantissa b < 0"
    by linarith
  then show ?thesis
  proof cases
    case 5
    then have "in_xfl_range (iou_exponent a) (iou_mantissa a)" "in_xfl_range (iou_exponent b) (iou_mantissa b)"
      using assms by (auto simp: iou_wf_def)
    from scaled_less_iff [OF this] show ?thesis
      using 5 by (auto simp: iou_less_def Let_def iou_value_def)
  next
    case 6
    then have "in_xfl_range (iou_exponent b) (- iou_mantissa b)" "in_xfl_range (iou_exponent a) (- iou_mantissa a)"
      using assms by (auto simp: iou_wf_def)
    from scaled_less_iff [OF this] show ?thesis
      using 6 by (auto simp: iou_less_def Let_def iou_value_def)
  qed (use iou_value_sign [of a] iou_value_sign [of b] in \<open>force simp: iou_less_def Let_def\<close>)+
qed

text \<open>
  The comparison of amounts is the comparison of the numbers they stand for, on normalised
  amounts, zero included.
\<close>

theorem iou_less_value:
  assumes "iou_wf a" and "iou_wf b"
  shows "iou_less a b \<longleftrightarrow> iou_value a < iou_value b"
  by (rule iou_less_iff [OF assms])

theorem iou_less_value_witness:
  "iou_less iou_zero \<lparr>iou_mantissa = minMantissa, iou_exponent = minExponent\<rparr>
   \<longleftrightarrow> iou_value iou_zero < iou_value \<lparr>iou_mantissa = minMantissa, iou_exponent = minExponent\<rparr>"
  by (rule iou_less_value) (simp_all add: iou_wf_def in_xfl_range_def xfl_limits)

lemma iou_eq_value:
  assumes "iou_wf a" and "iou_wf b"
  shows "iou_eq a b \<longleftrightarrow> iou_value a = iou_value b"
proof
  assume eq: "iou_value a = iou_value b"
  then have sign: "iou_mantissa a < 0 \<longleftrightarrow> iou_mantissa b < 0" and zero: "iou_mantissa a = 0 \<longleftrightarrow> iou_mantissa b = 0"
    using iou_value_sign [of a] iou_value_sign [of b] by simp_all
  have abs: "of_int \<bar>iou_mantissa a\<bar> * 10 powi iou_exponent a = (of_int \<bar>iou_mantissa b\<bar> * 10 powi iou_exponent b :: rat)"
    using arg_cong [OF eq, of abs] by (simp add: iou_value_def abs_mult)
  show "iou_eq a b"
  proof (cases "iou_mantissa a = 0")
    case True
    with zero assms have "a = iou_zero" "b = iou_zero"
      by (simp_all add: iou_wf_mantissa_0)
    then show ?thesis by (simp add: iou_eq_def)
  next
    case False
    with zero assms have "in_xfl_range (iou_exponent a) \<bar>iou_mantissa a\<bar>" "in_xfl_range (iou_exponent b) \<bar>iou_mantissa b\<bar>"
      by (auto simp: iou_wf_def)
    from scaled_eq_iff [OF this] abs have "iou_exponent a = iou_exponent b" "\<bar>iou_mantissa a\<bar> = \<bar>iou_mantissa b\<bar>"
      by simp_all
    with sign show ?thesis
      by (simp add: iou_eq_def abs_if split: if_splits)
  qed
qed (simp add: iou_eq_def iou_value_def)

section \<open>Addition\<close>

lemma iou_align_noop [simp]: "t \<le> e \<Longrightarrow> iou_align m e t = (m, e)"
  by (simp add: iou_align.simps)

lemma iou_align_exponent: "e \<le> t \<Longrightarrow> snd (iou_align m e t) = t"
  by (induction m e t rule: iou_align.induct) (subst iou_align.simps, auto)

lemma tdiv10_bounds: "\<bar>tdiv10 m\<bar> \<le> \<bar>m\<bar>" "\<bar>of_int m - 10 * of_int (tdiv10 m) :: rat\<bar> \<le> 9"
proof -
  have "\<bar>m - 10 * tdiv10 m\<bar> \<le> 9"
    by (simp add: tdiv10_def) presburger
  then show "\<bar>tdiv10 m\<bar> \<le> \<bar>m\<bar>"
    by (cases "m = 0") linarith+
  from \<open>\<bar>m - 10 * tdiv10 m\<bar> \<le> 9\<close> have "of_int \<bar>m - 10 * tdiv10 m\<bar> \<le> (of_int 9 :: rat)"
    by (simp only: of_int_le_iff)
  then show "\<bar>of_int m - 10 * of_int (tdiv10 m) :: rat\<bar> \<le> 9"
    by simp
qed

lemma iou_align_value:
  assumes "e \<le> t" and "iou_align m e t = (m', e')"
  shows "\<bar>m'\<bar> \<le> \<bar>m\<bar> \<and> \<bar>of_int m * 10 powi e - of_int m' * (10 powi t :: rat)\<bar> \<le> 10 powi t - 10 powi e"
  using assms
proof (induction m e t rule: iou_align.induct)
  case (1 m e t)
  show ?case
  proof (cases "e < t")
    case True
    have ih: "\<bar>m'\<bar> \<le> \<bar>tdiv10 m\<bar>"
      "\<bar>of_int (tdiv10 m) * 10 powi (e + 1) - of_int m' * (10 powi t :: rat)\<bar> \<le> 10 powi t - 10 powi (e + 1)"
      using 1(1) [OF True] 1(2,3) True by (simp_all add: iou_align.simps [of m e t])
    have p: "(10 powi (e + 1) :: rat) = 10 * 10 powi e"
      by (simp add: power_int_add)
    have "\<bar>(of_int m - 10 * of_int (tdiv10 m)) * (10 powi e :: rat)\<bar> \<le> 9 * 10 powi e"
      using tdiv10_bounds(2) [of m] by (simp add: abs_mult mult_right_mono)
    moreover have "of_int m * 10 powi e - of_int m' * 10 powi t
      = (of_int m - 10 * of_int (tdiv10 m)) * 10 powi e
        + (of_int (tdiv10 m) * 10 powi (e + 1) - of_int m' * (10 powi t :: rat))"
      unfolding p by (simp add: algebra_simps)
    ultimately show ?thesis
      using ih tdiv10_bounds(1) [of m] unfolding p by linarith
  next
    case False
    with 1(2,3) show ?thesis by simp
  qed
qed

text \<open>The alignment cuts digits off, so it keeps the sign and moves towards zero.\<close>

lemma tdiv10_toward_zero: "0 \<le> m \<Longrightarrow> 0 \<le> tdiv10 m" "m \<le> 0 \<Longrightarrow> tdiv10 m \<le> 0" "\<bar>tdiv10 m\<bar> * 10 \<le> \<bar>m\<bar>"
  by (simp_all add: tdiv10_def) presburger+

lemma iou_align_toward_zero:
  assumes "e \<le> t" and "iou_align m e t = (m', e')"
  shows "(0 \<le> m \<longrightarrow> 0 \<le> m') \<and> (m \<le> 0 \<longrightarrow> m' \<le> 0)
    \<and> of_int \<bar>m'\<bar> * (10 powi t :: rat) \<le> of_int \<bar>m\<bar> * 10 powi e"
  using assms
proof (induction m e t rule: iou_align.induct)
  case (1 m e t)
  show ?case
  proof (cases "e < t")
    case True
    have ih: "0 \<le> tdiv10 m \<longrightarrow> 0 \<le> m'" "tdiv10 m \<le> 0 \<longrightarrow> m' \<le> 0"
      "of_int \<bar>m'\<bar> * (10 powi t :: rat) \<le> of_int \<bar>tdiv10 m\<bar> * 10 powi (e + 1)"
      using 1(1) [OF True] 1(2,3) True by (simp_all add: iou_align.simps [of m e t])
    have "of_int \<bar>tdiv10 m\<bar> * (10 powi (e + 1) :: rat) = of_int (\<bar>tdiv10 m\<bar> * 10) * 10 powi e"
      by (simp add: power_int_add)
    also have "\<dots> \<le> of_int \<bar>m\<bar> * 10 powi e"
      using tdiv10_toward_zero(3) [of m] by (intro mult_right_mono) (simp_all only: of_int_le_iff, simp)
    finally show ?thesis
      using ih tdiv10_toward_zero(1,2) [of m] by auto
  next
    case False
    with 1(2,3) show ?thesis by simp
  qed
qed

lemma iou_add_comm:
  assumes "iou_wf a" and "iou_wf b"
  shows "iou_add a b = iou_add b a"
proof (cases "iou_signum a = 0 \<or> iou_signum b = 0")
  case True
  with assms show ?thesis
    by (auto simp: iou_add_def iou_signum_def iou_wf_mantissa_0 split: if_splits)
next
  case False
  obtain m1 where m1: "iou_exponent a \<le> iou_exponent b \<Longrightarrow>
      iou_align (iou_mantissa a) (iou_exponent a) (iou_exponent b) = (m1, iou_exponent b)"
    using iou_align_exponent by (metis prod.collapse)
  obtain m2 where m2: "iou_exponent b \<le> iou_exponent a \<Longrightarrow>
      iou_align (iou_mantissa b) (iou_exponent b) (iou_exponent a) = (m2, iou_exponent a)"
    using iou_align_exponent by (metis prod.collapse)
  show ?thesis
    using False m1 m2
    by (cases "iou_exponent a" "iou_exponent b" rule: linorder_cases) (simp_all add: iou_add_def add.commute)
qed

text \<open>
  Addition does not depend on the order of its operands, although the code shifts one of them
  and tests for zero asymmetrically.
\<close>

theorem iou_add_commute:
  assumes "iou_wf a" and "iou_wf b"
  shows "iou_add a b = iou_add b a"
  by (rule iou_add_comm [OF assms])

theorem iou_add_commute_witness:
  "iou_add iou_zero \<lparr>iou_mantissa = minMantissa, iou_exponent = 3\<rparr>
   = iou_add \<lparr>iou_mantissa = minMantissa, iou_exponent = 3\<rparr> iou_zero"
  by (rule iou_add_commute) (simp_all add: iou_wf_def in_xfl_range_def xfl_limits)

lemma truncates_error:
  assumes "truncates c v" and "\<bar>v\<bar> \<le> 20000000000000000 * p"
  shows "\<bar>iou_value c - v\<bar> \<le> 20 * p + 10 powi (- 81)"
proof (cases "c = iou_zero")
  case True
  then have "\<bar>v\<bar> < 10 powi (- 81)"
    using assms(1) by (simp add: truncates_def)
  with True assms(2) show ?thesis
    by (auto simp: abs_if split: if_splits)
next
  case False
  then have c: "in_xfl_range (iou_exponent c) \<bar>iou_mantissa c\<bar>" "iou_mantissa c < 0 \<longleftrightarrow> v < 0"
    "\<bar>iou_value c\<bar> \<le> \<bar>v\<bar>" "\<bar>v\<bar> < \<bar>iou_value c\<bar> + 10 powi iou_exponent c"
    using assms(1) by (simp_all add: truncates_def)
  have "of_int minMantissa \<le> (of_int \<bar>iou_mantissa c\<bar> :: rat)"
    using c(1) by (simp only: of_int_le_iff in_xfl_range_def)
  then have "of_int minMantissa * 10 powi iou_exponent c \<le> \<bar>iou_value c\<bar>"
    by (simp add: iou_value_def abs_mult mult_right_mono)
  then have ulp: "10 powi iou_exponent c \<le> 20 * p"
    using assms(2) c(3) by (simp add: xfl_limits)
  have "0 < (10 powi (- 81) :: rat)"
    by simp
  moreover have "\<bar>iou_value c - v\<bar> = \<bar>v\<bar> - \<bar>iou_value c\<bar>"
    using c(2,3) iou_value_sign [of c] by (simp add: abs_if split: if_splits)
  ultimately show ?thesis
    using c(4) ulp by linarith
qed

lemma truncates_below:
  assumes "truncates c v"
  shows "\<bar>v\<bar> < 10 powi 96"
proof (cases "c = iou_zero")
  case True
  with assms have "\<bar>v\<bar> < 10 powi (- 81)"
    by (simp add: truncates_def)
  also have "\<dots> < (10 powi 96 :: rat)"
    by (intro power_int_strict_increasing) simp_all
  finally show ?thesis .
next
  case False
  define m where "m = \<bar>iou_mantissa c\<bar>"
  have c: "in_xfl_range (iou_exponent c) m" "\<bar>v\<bar> < of_int m * 10 powi iou_exponent c + 10 powi iou_exponent c"
    using False assms by (simp_all add: truncates_def iou_value_def abs_mult m_def)
  have "\<bar>v\<bar> < of_int (m + 1) * 10 powi iou_exponent c"
    using c(2) by (simp add: algebra_simps)
  also have "\<dots> \<le> of_int (10 ^ 16) * 10 powi 80"
    using c(1) by (intro mult_mono power_int_increasing)
      (simp_all only: of_int_le_iff, auto simp: in_xfl_range_def xfl_limits)
  also have "\<dots> = 10 powi 96"
    by (simp add: power_int_def)
  finally show ?thesis .
qed

lemma iou_wf_below:
  assumes "iou_wf a"
  shows "\<bar>iou_value a\<bar> < 10 powi 96"
proof (rule truncates_below)
  show "truncates a (iou_value a)"
    using assms iou_value_sign [of a] by (auto simp: truncates_def iou_wf_def)
qed

text \<open>
  The sum of two non-zero amounts as a single mantissa at the larger exponent, and how it relates
  to the numbers added.
\<close>

lemma iou_add_aligned:
  assumes "iou_wf a" and "iou_wf b" and "iou_mantissa a \<noteq> 0" and "iou_mantissa b \<noteq> 0"
  defines "t \<equiv> max (iou_exponent a) (iou_exponent b)"
  obtains m1 m2 where
    "iou_add a b = (if \<bar>m1 + m2\<bar> \<le> 10 then Ok iou_zero else IOUAmount (m1 + m2) t)"
    and "\<bar>m1\<bar> \<le> maxMantissa" and "\<bar>m2\<bar> \<le> maxMantissa"
    and "\<bar>of_int (m1 + m2) * 10 powi t - (iou_value a + iou_value b)\<bar> < 10 powi t"
    and "\<bar>m1 + m2\<bar> \<le> maxMantissa \<or> \<bar>of_int (m1 + m2) * 10 powi t\<bar> \<le> \<bar>iou_value a + iou_value b\<bar>"
proof -
  define p :: rat where "p = 10 powi t"
  obtain m1 where m1: "iou_align (iou_mantissa a) (iou_exponent a) t = (m1, t)"
    using iou_align_exponent [of "iou_exponent a" t "iou_mantissa a"] by (metis max.cobounded1 prod.collapse t_def)
  obtain m2 where m2: "iou_align (iou_mantissa b) (iou_exponent b) t = (m2, t)"
    using iou_align_exponent [of "iou_exponent b" t "iou_mantissa b"] by (metis max.cobounded2 prod.collapse t_def)
  have small: "\<bar>iou_mantissa a\<bar> \<le> maxMantissa" "\<bar>iou_mantissa b\<bar> \<le> maxMantissa"
    using assms by (auto simp: iou_wf_def in_xfl_range_def xfl_limits)
  have al1: "\<bar>m1\<bar> \<le> maxMantissa" "\<bar>iou_value a - of_int m1 * p\<bar> \<le> p - 10 powi iou_exponent a"
    using iou_align_value [OF _ m1] small(1) by (auto simp: t_def p_def iou_value_def)
  have al2: "\<bar>m2\<bar> \<le> maxMantissa" "\<bar>iou_value b - of_int m2 * p\<bar> \<le> p - 10 powi iou_exponent b"
    using iou_align_value [OF _ m2] small(2) by (auto simp: t_def p_def iou_value_def)
  have "p = 10 powi iou_exponent a \<or> p = 10 powi iou_exponent b" "0 < (10 powi iou_exponent a :: rat)" "0 < (10 powi iou_exponent b :: rat)"
    by (auto simp: p_def t_def max_def)
  with al1 al2 have err: "\<bar>of_int (m1 + m2) * p - (iou_value a + iou_value b)\<bar> < p"
    unfolding of_int_add distrib_right by linarith
  have "int64_chk (m1 + m2) = Ok (m1 + m2)"
    using al1(1) al2(1) by (simp add: int64_chk_def int64_range_def xfl_limits abs_le_iff)
  moreover have "\<bar>m1 + m2\<bar> \<le> 10 \<longleftrightarrow> - 10 \<le> m1 + m2 \<and> m1 + m2 \<le> 10"
    by linarith
  ultimately have sum: "iou_add a b = (if \<bar>m1 + m2\<bar> \<le> 10 then Ok iou_zero else IOUAmount (m1 + m2) t)"
    using assms(3,4) m1 m2
    by (cases "iou_exponent a \<le> iou_exponent b") (auto simp: iou_add_def iou_signum_def IOUAmount_def t_def max_def)
  have tz1: "0 \<le> iou_mantissa a \<longrightarrow> 0 \<le> m1" "iou_mantissa a \<le> 0 \<longrightarrow> m1 \<le> 0" "\<bar>of_int m1 * p\<bar> \<le> \<bar>iou_value a\<bar>"
    using iou_align_toward_zero [OF _ m1] by (auto simp: t_def p_def iou_value_def abs_mult)
  have tz2: "0 \<le> iou_mantissa b \<longrightarrow> 0 \<le> m2" "iou_mantissa b \<le> 0 \<longrightarrow> m2 \<le> 0" "\<bar>of_int m2 * p\<bar> \<le> \<bar>iou_value b\<bar>"
    using iou_align_toward_zero [OF _ m2] by (auto simp: t_def p_def iou_value_def abs_mult)
  have "\<bar>m1 + m2\<bar> \<le> maxMantissa \<or> \<bar>of_int (m1 + m2) * p\<bar> \<le> \<bar>iou_value a + iou_value b\<bar>"
  proof (cases "iou_mantissa a < 0 \<longleftrightarrow> iou_mantissa b < 0")
    case True
    then have "\<bar>iou_value a + iou_value b\<bar> = \<bar>iou_value a\<bar> + \<bar>iou_value b\<bar>"
      using iou_value_sign(2) [of a] iou_value_sign(2) [of b] by linarith
    then show ?thesis
      using tz1(3) tz2(3) unfolding of_int_add distrib_right by linarith
  next
    case False
    then show ?thesis
      using tz1(1,2) tz2(1,2) al1(1) al2(1) by linarith
  qed
  with sum al1(1) al2(1) err show ?thesis
    unfolding p_def by (intro that)
qed

lemma below_limit:
  assumes "t \<le> 80" and "\<bar>of_int s * (10 powi t :: rat)\<bar> < 10 powi 96"
    and "\<bar>of_int s * 10 powi t - v\<bar> < (10 powi t :: rat)"
  shows "\<bar>v\<bar> < 10 powi 96"
proof -
  have lim: "(10 powi 96 :: rat) = of_int (10 ^ nat (96 - t)) * 10 powi t"
    using assms(1) power_int_add [of "10 :: rat" "96 - t" t] by (simp add: power_int_def [of _ "96 - t"])
  have "of_int \<bar>s\<bar> * (10 powi t :: rat) < of_int (10 ^ nat (96 - t)) * 10 powi t"
    using assms(2) unfolding lim by (simp add: abs_mult)
  then have "of_int \<bar>s\<bar> < (of_int (10 ^ nat (96 - t)) :: rat)"
    by (rule mult_right_less_imp_less) simp
  then have "\<bar>s\<bar> + 1 \<le> 10 ^ nat (96 - t)"
    by (simp only: of_int_less_iff zless_imp_add1_zle)
  then have "of_int (\<bar>s\<bar> + 1) * (10 powi t :: rat) \<le> 10 powi 96"
    unfolding lim by (intro mult_right_mono) (simp_all only: of_int_le_iff, simp)
  then have "\<bar>of_int s * (10 powi t :: rat)\<bar> + 10 powi t \<le> 10 powi 96"
    by (simp add: abs_mult algebra_simps)
  with assms(3) show ?thesis by linarith
qed

lemma iou_add_error:
  assumes "iou_wf a" and "iou_wf b"
  shows "case iou_add a b of
      Ok c \<Rightarrow> iou_wf c \<and> \<bar>iou_value a + iou_value b\<bar> < 10 powi 96
        \<and> \<bar>iou_value c - (iou_value a + iou_value b)\<bar>
          \<le> 21 * 10 powi max (iou_exponent a) (iou_exponent b) + 10 powi (- 81)
    | Throw x \<Rightarrow> x = overflow_error \<and> 10 powi 96 \<le> \<bar>iou_value a + iou_value b\<bar>
    | _ \<Rightarrow> False"
proof (cases "iou_mantissa a = 0 \<or> iou_mantissa b = 0")
  case True
  then have "a = iou_zero \<or> b = iou_zero"
    using assms iou_wf_mantissa_0 by blast
  with assms iou_wf_below [of a] iou_wf_below [of b] show ?thesis
    by (auto simp: iou_add_def iou_signum_def iou_wf_mantissa_0)
next
  case False
  define t where "t = max (iou_exponent a) (iou_exponent b)"
  define p :: rat where "p = 10 powi t"
  define v where "v = iou_value a + iou_value b"
  obtain m1 m2 where sum: "iou_add a b = (if \<bar>m1 + m2\<bar> \<le> 10 then Ok iou_zero else IOUAmount (m1 + m2) t)"
    and m: "\<bar>m1\<bar> \<le> maxMantissa" "\<bar>m2\<bar> \<le> maxMantissa" and err: "\<bar>of_int (m1 + m2) * p - v\<bar> < p"
    and less: "\<bar>m1 + m2\<bar> \<le> maxMantissa \<or> \<bar>of_int (m1 + m2) * p\<bar> \<le> \<bar>v\<bar>"
    using iou_add_aligned [OF assms] False unfolding t_def p_def v_def by blast
  define s where "s = m1 + m2"
  have t: "t \<le> 80"
    using assms by (auto simp: t_def iou_wf_def in_xfl_range_def xfl_limits)
  have p0: "0 < p" "0 < (10 powi (- 81) :: rat)"
    by (simp_all add: p_def)
  have at_most: "\<bar>of_int s * p\<bar> \<le> of_int k * p" if "\<bar>s\<bar> \<le> k" for k
  proof -
    have "of_int \<bar>s\<bar> * p \<le> of_int k * p"
      using that p0(1) by (intro mult_right_mono) (simp_all only: of_int_le_iff less_imp_le)
    with p0(1) show ?thesis by (simp add: abs_mult)
  qed
  have fits: "\<bar>of_int s * p\<bar> < 10 powi 96" if "\<bar>s\<bar> \<le> maxMantissa"
  proof -
    have "\<bar>of_int s * p\<bar> \<le> of_int maxMantissa * p"
      by (rule at_most [OF that])
    also have "\<dots> \<le> of_int maxMantissa * 10 powi 80"
      unfolding p_def using t by (intro mult_left_mono power_int_increasing) (auto simp: xfl_limits)
    also have "\<dots> < 10 powi 96"
      by (simp add: xfl_limits power_int_def)
    finally show ?thesis .
  qed
  note below = below_limit [OF t, of s v, folded p_def]
  show ?thesis
  proof (cases "\<bar>s\<bar> \<le> 10")
    case True
    then have "\<bar>of_int s * p\<bar> \<le> 10 * p" "\<bar>of_int s * p\<bar> < 10 powi 96"
      using at_most [of 10] fits by (simp_all add: xfl_limits)
    with err p0 below have "\<bar>0 - v\<bar> \<le> 21 * p + 10 powi (- 81)" "\<bar>v\<bar> < 10 powi 96"
      unfolding s_def [symmetric] by linarith+
    then show ?thesis
      using True unfolding sum s_def [symmetric] t_def [symmetric] p_def [symmetric] v_def [symmetric] by simp
  next
    case big: False
    have s: "\<bar>s\<bar> \<le> 2 * maxMantissa"
      using m by (simp add: s_def)
    have range: "- (2 ^ 63) < s" "s < 2 ^ 63" "s \<noteq> 0"
      using s big by (auto simp: xfl_limits abs_le_iff)
    have "\<bar>of_int s * p\<bar> \<le> 20000000000000000 * p"
      using at_most [OF s] p0(1) by (simp add: xfl_limits)
    note trunc = truncates_error [OF _ this]
    have ok: "iou_wf c \<and> \<bar>v\<bar> < 10 powi 96 \<and> \<bar>iou_value c - v\<bar> \<le> 21 * p + 10 powi (- 81)"
      if c: "truncates c (of_int s * p)" for c
    proof (intro conjI)
      show "\<bar>v\<bar> < 10 powi 96"
        using below truncates_below [OF c] err by (simp add: s_def)
      show "\<bar>iou_value c - v\<bar> \<le> 21 * p + 10 powi (- 81)"
        using trunc [OF c] err unfolding s_def by linarith
    qed (rule truncates_wf [OF c])
    have throws: "10 powi 96 \<le> \<bar>v\<bar>" if "10 powi 96 \<le> \<bar>of_int s * p\<bar>"
      using less fits that unfolding s_def by linarith
    have add: "iou_add a b = IOUAmount s t"
      using big by (simp add: sum s_def)
    show ?thesis
      using IOUAmount_truncates [OF range, of t, folded p_def] ok throws
      unfolding add t_def [symmetric] p_def [symmetric] v_def [symmetric] by (cases "IOUAmount s t") auto
  qed
qed

text \<open>
  Addition is accurate to about twenty units of the larger operand's last digit. On normalised
  amounts it never overflows the mantissa, the result is normalised, and it differs from the exact
  sum by at most 21 units of the larger exponent, apart from underflow below \<open>10 ^ -81\<close>; the only
  exception it raises is \<^verbatim>\<open>overflow_error\<close>, and it raises it exactly when the exact sum reaches \<open>10 ^ 96\<close>.
\<close>

theorem iou_add_accurate:
  assumes "iou_wf a" and "iou_wf b"
  shows "case iou_add a b of
      Ok c \<Rightarrow> iou_wf c \<and> \<bar>iou_value a + iou_value b\<bar> < 10 powi 96
        \<and> \<bar>iou_value c - (iou_value a + iou_value b)\<bar>
          \<le> 21 * 10 powi max (iou_exponent a) (iou_exponent b) + 10 powi (- 81)
    | Throw x \<Rightarrow> x = overflow_error \<and> 10 powi 96 \<le> \<bar>iou_value a + iou_value b\<bar>
    | _ \<Rightarrow> False"
  by (rule iou_add_error [OF assms])

theorem iou_add_accurate_witness:
  "iou_add \<lparr>iou_mantissa = maxMantissa, iou_exponent = 80\<rparr> \<lparr>iou_mantissa = minMantissa, iou_exponent = 65\<rparr>
      = Throw overflow_error
   \<and> 10 powi 96 \<le> \<bar>iou_value \<lparr>iou_mantissa = maxMantissa, iou_exponent = 80\<rparr>
       + iou_value \<lparr>iou_mantissa = minMantissa, iou_exponent = 65\<rparr>\<bar>"
proof -
  have wf: "iou_wf \<lparr>iou_mantissa = maxMantissa, iou_exponent = 80\<rparr>"
    "iou_wf \<lparr>iou_mantissa = minMantissa, iou_exponent = 65\<rparr>"
    by (simp_all add: iou_wf_def in_xfl_range_def xfl_limits)
  have "iou_add \<lparr>iou_mantissa = maxMantissa, iou_exponent = 80\<rparr> \<lparr>iou_mantissa = minMantissa, iou_exponent = 65\<rparr>
      = Throw overflow_error"
    by code_simp
  with iou_add_accurate [OF wf] show ?thesis by simp
qed

section \<open>Rounding in \<^verbatim>\<open>mulRatio\<close>\<close>

text \<open>
  The flag that asks for rounding is consulted only when the division left a remainder. Digits
  that the normalisation drops afterwards do not count, so with \<^verbatim>\<open>roundUp\<close> set the result can be
  less than the exact quotient.
\<close>

lemma mulRatio_rounds_down:
  "mulRatio \<lparr>iou_mantissa = 9999999999999999, iou_exponent = 0\<rparr> 11 1 True
     = Ok \<lparr>iou_mantissa = 1099999999999999, iou_exponent = 2\<rparr>"
  "(1099999999999999 * 10 ^ 2 :: int) < 9999999999999999 * 11"
  by code_simp+

end
