(* ===== verification/Hook_Memory.thy ===== *)
theory Hook_Memory
  imports Hook_Prelude
begin

text \<open>
  The linear memory a hook runs in and the macros of \<^verbatim>\<open>src/ripple/app/hook/Macro.h\<close> with which the
  API reads and writes it. The memory is a list of bytes whose length is \<^verbatim>\<open>memory_length\<close>. An API call
  yields its return code and the memory after it; a direct access \<^verbatim>\<open>memory[i]\<close> outside the list is
  undefined, so the bounds checks of the API are what keeps a call defined.
\<close>

type_synonym memory = bytes
type_synonym api_result = "(int \<times> memory) outcome"

section \<open>Bounds\<close>

text \<open>Pointers and lengths are 32 bit and the sum is taken in 64 bits, so it does not wrap.\<close>

definition NOT_IN_BOUNDS :: "u32 \<Rightarrow> u32 \<Rightarrow> memory \<Rightarrow> bool" where
  "NOT_IN_BOUNDS ptr len mem \<longleftrightarrow>
     int (length mem) < uint ptr \<or> int (length mem) < uint ptr + uint len"

definition mem_get :: "memory \<Rightarrow> int \<Rightarrow> int \<Rightarrow> bytes" where
  "mem_get mem ptr len = take (nat len) (drop (nat ptr) mem)"

text \<open>The memory with the bytes from \<open>ptr\<close> on replaced.\<close>

definition mem_put :: "memory \<Rightarrow> int \<Rightarrow> bytes \<Rightarrow> memory" where
  "mem_put mem ptr src = take (nat ptr) mem @ src @ drop (nat ptr + length src) mem"

text \<open>\<^verbatim>\<open>*(memory + ptr) = v\<close> for a run of bytes.\<close>

definition poke :: "memory \<Rightarrow> int \<Rightarrow> bytes \<Rightarrow> memory outcome" where
  "poke mem ptr src =
     (if 0 \<le> ptr \<and> ptr + int (length src) \<le> int (length mem) then Ok (mem_put mem ptr src) else Undef)"

definition peek :: "memory \<Rightarrow> int \<Rightarrow> int \<Rightarrow> bytes outcome" where
  "peek mem ptr len =
     (if 0 \<le> ptr \<and> 0 \<le> len \<and> ptr + len \<le> int (length mem) then Ok (mem_get mem ptr len) else Undef)"

text \<open>
  \<^verbatim>\<open>WRITE_WASM_MEMORY\<close>: as much of the source as the destination length allows, or the code
  \<^verbatim>\<open>OUT_OF_BOUNDS\<close>, here \<open>None\<close>. Yields the number of bytes written and the memory.
\<close>

definition WRITE_WASM_MEMORY :: "memory \<Rightarrow> int \<Rightarrow> int \<Rightarrow> bytes \<Rightarrow> (int \<times> memory) option" where
  "WRITE_WASM_MEMORY mem guest_dst_ptr guest_dst_len src =
     (let bytes_to_write = min (int (length src)) guest_dst_len in
      if int (length mem) < guest_dst_ptr + bytes_to_write then None
      else Some (bytes_to_write, mem_put mem guest_dst_ptr (take (nat bytes_to_write) src)))"

definition WRITE_WASM_MEMORY_AND_RETURN :: "memory \<Rightarrow> u32 \<Rightarrow> u32 \<Rightarrow> bytes \<Rightarrow> int \<times> memory" where
  "WRITE_WASM_MEMORY_AND_RETURN mem guest_dst_ptr guest_dst_len src =
     (case WRITE_WASM_MEMORY mem (uint guest_dst_ptr) (uint guest_dst_len) src of
        None \<Rightarrow> (OUT_OF_BOUNDS, mem)
      | Some (bytes_written, mem) \<Rightarrow> (bytes_written, mem))"

section \<open>Laws\<close>

lemma uint_u32 [simp]: "uint (p :: u32) < 2 ^ 32"
  using uint_bounded [of p] by simp

lemma length_mem_get [simp]:
  "0 \<le> p \<Longrightarrow> 0 \<le> n \<Longrightarrow> p + n \<le> int (length mem) \<Longrightarrow> length (mem_get mem p n) = nat n"
  by (simp add: mem_get_def)

lemma length_mem_put [simp]:
  "0 \<le> p \<Longrightarrow> p + int (length src) \<le> int (length mem) \<Longrightarrow> length (mem_put mem p src) = length mem"
  by (simp add: mem_put_def)

lemma mem_get_put [simp]:
  "0 \<le> p \<Longrightarrow> p + int (length src) \<le> int (length mem) \<Longrightarrow> mem_get (mem_put mem p src) p (int (length src)) = src"
  by (simp add: mem_get_def mem_put_def)

lemma mem_put_nil [simp]: "mem_put mem p [] = mem"
  by (simp add: mem_put_def)

lemma mem_put_append:
  assumes "0 \<le> p" and "p + int (length a) + int (length b) \<le> int (length mem)"
  shows "mem_put (mem_put mem p a) (p + int (length a)) b = mem_put mem p (a @ b)"
proof -
  obtain k where k: "p = int k"
    using assms(1) by (metis nonneg_int_cases)
  with assms(2) have "k + length a + length b \<le> length mem"
    by linarith
  then show ?thesis
    by (simp add: mem_put_def k nat_int_add ac_simps)
qed

text \<open>What lies outside the written range is untouched.\<close>

lemma nth_mem_put_outside:
  assumes "0 \<le> p" and "p + int (length src) \<le> int (length mem)"
    and "i < length mem" and "int i < p \<or> p + int (length src) \<le> int i"
  shows "mem_put mem p src ! i = mem ! i"
  using assms by (auto simp: mem_put_def nth_append min_def)

lemma poke_eq [outcome_simps]:
  "poke mem p src = Ok mem' \<longleftrightarrow> 0 \<le> p \<and> p + int (length src) \<le> int (length mem) \<and> mem' = mem_put mem p src"
  "poke mem p src = Undef \<longleftrightarrow> \<not> (0 \<le> p \<and> p + int (length src) \<le> int (length mem))"
  by (auto simp: poke_def)

lemma in_bounds: "\<not> NOT_IN_BOUNDS p n mem \<Longrightarrow> uint p + uint n \<le> int (length mem)"
  by (simp add: NOT_IN_BOUNDS_def)

lemma peek_in_bounds [simp]: "\<not> NOT_IN_BOUNDS p n mem \<Longrightarrow> peek mem (uint p) (uint n) = Ok (mem_get mem (uint p) (uint n))"
  by (auto simp: NOT_IN_BOUNDS_def peek_def)

text \<open>
  A write whose destination passed the bounds check succeeds, stores a prefix of the source, and
  changes nothing else.
\<close>

lemma WRITE_WASM_MEMORY_in_bounds:
  assumes "\<not> NOT_IN_BOUNDS p n mem"
  shows "WRITE_WASM_MEMORY_AND_RETURN mem p n src =
    (min (int (length src)) (uint n), mem_put mem (uint p) (take (nat (uint n)) src))"
proof -
  have "uint p + min (int (length src)) (uint n) \<le> int (length mem)"
    using in_bounds [OF assms] by linarith
  moreover have "take (unat n) src = src" if "int (length src) \<le> uint n"
    using that by (simp add: nat_le_iff flip: nat_uint_eq)
  ultimately show ?thesis
    by (auto simp: WRITE_WASM_MEMORY_AND_RETURN_def WRITE_WASM_MEMORY_def Let_def min_def)
qed

end
