(* ===== verification/Xfl_Api.thy ===== *)
theory Xfl_Api
  imports Xfl_Normalize Iou_Amount Hook_Memory Ieee_Double
begin

unbundle bit_operations_syntax

text \<open>
  The float functions of the hook API in \<^verbatim>\<open>src/ripple/app/hook/impl/applyHook.cpp\<close>, each as a function
  from its arguments to its return code. Those that normalise take the truncated logarithm \<open>lg\<close>
  first. \<^verbatim>\<open>RETURN_IF_INVALID_FLOAT\<close> is the test \<open>invalid_float\<close>.
\<close>

section \<open>Construction and inspection\<close>

definition float_set :: "(int \<Rightarrow> int) \<Rightarrow> int \<Rightarrow> int \<Rightarrow> int outcome" where
  "float_set lg e mantissa =
     (if mantissa = 0 then Ok 0
      else obind (normalize_xfl True lg mantissa e False) (\<lambda>(normalized, _, _).
        if normalized = 0 \<or> normalized = XFL_OVERFLOW then Ok INVALID_FLOAT else Ok normalized))"

text \<open>The sum \<^verbatim>\<open>exp1 + decimal_places\<close> is unsigned and converted back to \<^verbatim>\<open>int32_t\<close>.\<close>

definition float_int :: "int \<Rightarrow> u32 \<Rightarrow> u32 \<Rightarrow> int outcome" where
  "float_int float1 decimal_places absolute =
     (if invalid_float float1 then Ok INVALID_FLOAT
      else if float1 = 0 then Ok 0
      else
        let man1 = get_mantissa float1; exp1 = get_exponent float1; neg1 = is_negative float1 in
        if 15 < decimal_places then Ok INVALID_ARGUMENT
        else if neg1 \<and> absolute = 0 then Ok CANT_RETURN_NEGATIVE
        else
          let shift = signed_take_bit 31 (- (exp1 + uint decimal_places)) in
          if 15 < shift then Ok 0
          else if shift < 0 then Ok TOO_BIG
          else if 0 < shift then obind (power_of_ten shift) (\<lambda>p. Ok (man1 div p))
          else Ok man1)"

definition float_negate :: "int \<Rightarrow> int" where
  "float_negate float1 =
     (if float1 = 0 then 0
      else if invalid_float float1 then INVALID_FLOAT
      else invert_sign float1)"

definition float_mantissa :: "int \<Rightarrow> int" where
  "float_mantissa float1 =
     (if invalid_float float1 then INVALID_FLOAT else if float1 = 0 then 0 else get_mantissa float1)"

definition float_sign :: "int \<Rightarrow> int" where
  "float_sign float1 =
     (if invalid_float float1 then INVALID_FLOAT
      else if float1 = 0 then 0
      else if is_negative float1 then 1 else 0)"

definition float_one_internal :: int where
  "float_one_internal = make_float 1000000000000000 (- 15) False"

definition float_one :: int where
  "float_one = float_one_internal"

section \<open>Multiplication\<close>

definition float_multiply_internal_parts ::
    "(int \<Rightarrow> int) \<Rightarrow> int \<Rightarrow> int \<Rightarrow> bool \<Rightarrow> int \<Rightarrow> int \<Rightarrow> bool \<Rightarrow> int outcome" where
  "float_multiply_internal_parts lg man1 exp1 neg1 man2 exp2 neg2 =
     (let man_out = to_uint64 (man1 * man2 div 10 ^ 15);
          exp_out = exp1 + exp2 + 15;
          neg_out = (neg1 \<and> \<not> neg2) \<or> (\<not> neg1 \<and> neg2)
      in obind (normalize_xfl False lg man_out exp_out neg_out) (\<lambda>(ret, _, _).
         if ret = EXPONENT_UNDERSIZED then Ok 0
         else if ret = EXPONENT_OVERSIZED then Ok XFL_OVERFLOW
         else Ok ret))"

definition float_multiply :: "(int \<Rightarrow> int) \<Rightarrow> int \<Rightarrow> int \<Rightarrow> int outcome" where
  "float_multiply lg float1 float2 =
     (if invalid_float float1 then Ok INVALID_FLOAT
      else if invalid_float float2 then Ok INVALID_FLOAT
      else if float1 = 0 \<or> float2 = 0 then Ok 0
      else float_multiply_internal_parts lg
        (get_mantissa float1) (get_exponent float1) (is_negative float1)
        (get_mantissa float2) (get_exponent float2) (is_negative float2))"

text \<open>
  \<^verbatim>\<open>mulratio_internal\<close> returns a code and updates mantissa and exponent. Only \<^verbatim>\<open>overflow_error\<close> is
  caught; another exception would leave the function.
\<close>

definition mulratio_internal :: "int \<Rightarrow> int \<Rightarrow> bool \<Rightarrow> int \<Rightarrow> int \<Rightarrow> (int \<times> int \<times> int) outcome" where
  "mulratio_internal man1 exp1 round_up numerator denominator =
     (case obind (IOUAmount man1 exp1) (\<lambda>amt. mulRatio amt numerator denominator round_up) of
        Ok out \<Rightarrow> Ok (1, iou_mantissa out, iou_exponent out)
      | Throw x \<Rightarrow> if x = overflow_error then Ok (XFL_OVERFLOW, man1, exp1) else Throw x
      | Reject c \<Rightarrow> Reject c
      | Undef \<Rightarrow> Undef)"

definition float_mulratio :: "int \<Rightarrow> u32 \<Rightarrow> u32 \<Rightarrow> u32 \<Rightarrow> int outcome" where
  "float_mulratio float1 round_up numerator denominator =
     (if invalid_float float1 then Ok INVALID_FLOAT
      else if float1 = 0 then Ok 0
      else if denominator = 0 then Ok DIVISION_BY_ZERO
      else
        obind (mulratio_internal (get_mantissa float1) (get_exponent float1) (0 < round_up)
                 (uint numerator) (uint denominator)) (\<lambda>(code, man1, exp1).
        if code < 0 then Ok XFL_OVERFLOW
        else Ok (make_float (if man1 < 0 then - man1 else man1) exp1 (is_negative float1))))"

section \<open>Comparison and addition\<close>

text \<open>The mantissa with its sign.\<close>

definition signed_mantissa :: "int \<Rightarrow> int" where
  "signed_mantissa float1 = get_mantissa float1 * (if is_negative float1 then - 1 else 1)"

definition float_amount :: "int \<Rightarrow> iou_amount outcome" where
  "float_amount float1 = IOUAmount (signed_mantissa float1) (get_exponent float1)"

text \<open>\<^verbatim>\<open>catch (std::overflow_error&)\<close>\<close>

definition catch_overflow :: "int outcome \<Rightarrow> int outcome" where
  "catch_overflow r = (if r = Throw overflow_error then Ok XFL_OVERFLOW else r)"

definition float_compare :: "int \<Rightarrow> int \<Rightarrow> u32 \<Rightarrow> int outcome" where
  "float_compare float1 float2 mode =
     (if invalid_float float1 then Ok INVALID_FLOAT
      else if invalid_float float2 then Ok INVALID_FLOAT
      else
        let equal_flag = (mode AND 1 \<noteq> 0);
            less_flag = (mode AND 2 \<noteq> 0);
            greater_flag = (mode AND 4 \<noteq> 0);
            not_equal = (less_flag \<and> greater_flag)
        in if (equal_flag \<and> less_flag \<and> greater_flag) \<or> mode = 0 then Ok INVALID_ARGUMENT
           else if mode AND NOT 7 \<noteq> 0 then Ok INVALID_ARGUMENT
           else catch_overflow (
             obind (float_amount float1) (\<lambda>amt1. obind (float_amount float2) (\<lambda>amt2.
             if not_equal \<and> \<not> iou_eq amt1 amt2 then Ok 1
             else if equal_flag \<and> iou_eq amt1 amt2 then Ok 1
             else if greater_flag \<and> iou_less amt2 amt1 then Ok 1
             else if less_flag \<and> iou_less amt1 amt2 then Ok 1
             else Ok 0))))"

text \<open>\<^verbatim>\<open>make_float(ripple::IOUAmount& amt)\<close>: the sign is set first, the error codes flow through.\<close>

definition make_float_iou :: "iou_amount \<Rightarrow> int" where
  "make_float_iou amt =
     (let man_out = iou_mantissa amt; neg = man_out < 0;
          man_out = (if neg then - man_out else man_out)
      in set_exponent (set_mantissa (set_sign 0 neg) man_out) (iou_exponent amt))"

definition float_sum :: "int \<Rightarrow> int \<Rightarrow> int outcome" where
  "float_sum float1 float2 =
     (if invalid_float float1 then Ok INVALID_FLOAT
      else if invalid_float float2 then Ok INVALID_FLOAT
      else if float1 = 0 then Ok float2
      else if float2 = 0 then Ok float1
      else catch_overflow (
        obind (float_amount float1) (\<lambda>amt1. obind (float_amount float2) (\<lambda>amt2.
        obind (iou_add amt1 amt2) (\<lambda>sum.
        let result = make_float_iou sum in
        if result = EXPONENT_UNDERSIZED then Ok 0 else Ok result)))))"

section \<open>Division\<close>

text \<open>
  \<^verbatim>\<open>float_divide_internal\<close> divides digit by digit. The mantissas are unsigned, so a mantissa above
  another is not zero. The second loop multiplies in 64 bits and could run on for arguments out of
  range, so it is a \<^theory_text>\<open>partial_function (option)\<close>.
\<close>

function divide_shrink :: "int \<Rightarrow> int \<Rightarrow> int \<Rightarrow> int \<times> int" where
  "divide_shrink man1 man2 exp2 =
     (if 0 < man2 \<and> man1 < man2 then divide_shrink man1 (man2 div 10) (exp2 + 1) else (man2, exp2))"
  by pat_completeness auto
termination
  by (relation "measure (\<lambda>(man1, man2, exp2). nat man2)") auto

declare divide_shrink.simps [simp del]

partial_function (option) divide_grow :: "int \<Rightarrow> int \<Rightarrow> int \<Rightarrow> (int \<times> int) option" where
  "divide_grow man1 man2 exp2 =
     (if man2 < man1 then
        if man1 < to_uint64 (man2 * 10) then Some (man2, exp2)
        else divide_grow man1 (to_uint64 (man2 * 10)) (exp2 - 1)
      else Some (man2, exp2))"

declare divide_grow.simps [code]

text \<open>One digit: \<^verbatim>\<open>for (; man1 > man2; man1 -= man2, ++i);\<close>\<close>

function divide_digit :: "int \<Rightarrow> int \<Rightarrow> int \<Rightarrow> int \<times> int" where
  "divide_digit man1 man2 i =
     (if 0 < man2 \<and> man2 < man1 then divide_digit (man1 - man2) man2 (i + 1) else (man1, i))"
  by pat_completeness auto
termination
  by (relation "measure (\<lambda>(man1, man2, i). nat man1)") auto

declare divide_digit.simps [simp del]

function divide_digits :: "int \<Rightarrow> int \<Rightarrow> int \<Rightarrow> int \<Rightarrow> int \<times> int" where
  "divide_digits man1 man2 man3 exp3 =
     (if 0 < man2 then
        let (man1, i) = divide_digit man1 man2 0;
            man3 = to_uint64 (man3 * 10 + i);
            man2 = man2 div 10
        in if man2 = 0 then (man3, exp3) else divide_digits man1 man2 man3 (exp3 - 1)
      else (man3, exp3))"
  by pat_completeness auto
termination
  by (relation "measure (\<lambda>(man1, man2, man3, exp3). nat man2)") auto

declare divide_digits.simps [simp del]

definition divide_mantissas ::
    "(int \<Rightarrow> int) \<Rightarrow> int \<Rightarrow> int \<Rightarrow> int \<Rightarrow> int \<Rightarrow> bool \<Rightarrow> int outcome option" where
  "divide_mantissas lg man1 exp1 man2 exp2 neg3 =
     (let (man2, exp2) = divide_shrink man1 man2 exp2 in
      if man2 = 0 then Some (Ok DIVISION_BY_ZERO)
      else (case divide_grow man1 man2 exp2 of
          None \<Rightarrow> None
        | Some (man2, exp2) \<Rightarrow>
            let (man3, exp3) = divide_digits man1 man2 0 (exp1 - exp2)
            in Some (obind (normalize_xfl False lg man3 exp3 neg3) (\<lambda>(r, _, _). Ok r))))"

definition float_divide_internal :: "(int \<Rightarrow> int) \<Rightarrow> int \<Rightarrow> int \<Rightarrow> int outcome option" where
  "float_divide_internal lg float1 float2 =
     (if invalid_float float1 then Some (Ok INVALID_FLOAT)
      else if invalid_float float2 then Some (Ok INVALID_FLOAT)
      else if float2 = 0 then Some (Ok DIVISION_BY_ZERO)
      else if float1 = 0 then Some (Ok 0)
      else if float2 = float_one_internal then Some (Ok float1)
      else
        let neg1 = is_negative float1; neg2 = is_negative float2 in
        (case (normalize_xfl False lg (get_mantissa float1) (get_exponent float1) False,
               normalize_xfl False lg (get_mantissa float2) (get_exponent float2) False) of
           (Ok (tmp1, man1, exp1), Ok (tmp2, man2, exp2)) \<Rightarrow>
             if tmp1 < 0 \<or> tmp2 < 0 then Some (Ok INVALID_FLOAT)
             else if tmp1 = 0 then Some (Ok 0)
             else divide_mantissas lg man1 exp1 man2 exp2 (\<not> ((neg1 \<and> neg2) \<or> (\<not> neg1 \<and> \<not> neg2)))
         | _ \<Rightarrow> Some Undef))"

definition float_divide :: "(int \<Rightarrow> int) \<Rightarrow> int \<Rightarrow> int \<Rightarrow> int outcome option" where
  "float_divide = float_divide_internal"

definition float_invert :: "(int \<Rightarrow> int) \<Rightarrow> int \<Rightarrow> int outcome option" where
  "float_invert lg float1 =
     (if float1 = 0 then Some (Ok DIVISION_BY_ZERO)
      else if float1 = float_one_internal then Some (Ok float_one_internal)
      else float_divide_internal lg float_one_internal float1)"

section \<open>Logarithm and roots\<close>

text \<open>
  These go through \<^verbatim>\<open>double\<close>. Doubles are rational numbers rounded by \<open>dbl\<close>, symmetrically for both
  signs; the values that occur are finite. The library functions \<^verbatim>\<open>log10\<close> and \<^verbatim>\<open>pow\<close> are the parameters \<open>log10d\<close> and \<open>powd\<close>.
  A conversion to an integer type truncates and is undefined out of its range.
\<close>

definition sdbl :: "rat \<Rightarrow> rat" where
  "sdbl x = (if x < 0 then - dbl (- x) else dbl x)"

definition trunc_rat :: "rat \<Rightarrow> int" where
  "trunc_rat x = (if x < 0 then - \<lfloor>- x\<rfloor> else \<lfloor>x\<rfloor>)"

definition double_to_xfl :: "(rat \<Rightarrow> rat) \<Rightarrow> (rat \<Rightarrow> rat \<Rightarrow> rat) \<Rightarrow> rat \<Rightarrow> int outcome" where
  "double_to_xfl log10d powd x =
     (if x = 0 then Ok 0
      else
        let neg = x < 0; absresult = (if neg then - x else x) in
        obind (int_chk (trunc_rat (log10d absresult))) (\<lambda>exp_out.
        obind (int64_chk (trunc_rat (dbl (absresult * powd 10 (of_int (- exp_out + 15)))))) (\<lambda>result.
        obind (if result < minMantissa then
                 if result = minMantissa - 1 then Ok (result + 1, exp_out)
                 else obind (int64_chk (result * 10)) (\<lambda>r. Ok (r, exp_out - 1))
               else Ok (result, exp_out)) (\<lambda>(result, exp_out).
        let (result, exp_out) =
              (if maxMantissa < result then
                 if result = maxMantissa + 1 then (result - 1, exp_out) else (result div 10, exp_out + 1)
               else (result, exp_out));
            ret = make_float (to_uint64 result) (exp_out - 15) neg
        in if ret = EXPONENT_UNDERSIZED then Ok 0 else Ok ret))))"

definition float_log :: "(rat \<Rightarrow> rat) \<Rightarrow> (rat \<Rightarrow> rat \<Rightarrow> rat) \<Rightarrow> int \<Rightarrow> int outcome" where
  "float_log log10d powd float1 =
     (if invalid_float float1 then Ok INVALID_FLOAT
      else if float1 = 0 then Ok INVALID_ARGUMENT
      else if is_negative float1 then Ok COMPLEX_NOT_SUPPORTED
      else
        let inp = dbl (of_int (get_mantissa float1));
            result = sdbl (log10d inp + of_int (get_exponent float1))
        in double_to_xfl log10d powd result)"

definition float_root :: "(rat \<Rightarrow> rat) \<Rightarrow> (rat \<Rightarrow> rat \<Rightarrow> rat) \<Rightarrow> int \<Rightarrow> u32 \<Rightarrow> int outcome" where
  "float_root log10d powd float1 n =
     (if invalid_float float1 then Ok INVALID_FLOAT
      else if float1 = 0 then Ok 0
      else if n < 2 then Ok INVALID_ARGUMENT
      else if is_negative float1 then Ok COMPLEX_NOT_SUPPORTED
      else
        let inp = dbl (dbl (of_int (get_mantissa float1)) * powd 10 (of_int (get_exponent float1)));
            result = powd inp (dbl (1 / of_int (uint n)))
        in double_to_xfl log10d powd result)"

end
