(* ===== verification/Xfl_Api_Props.thy ===== *)
theory Xfl_Api_Props
  imports Xfl_Api
begin

unbundle bit_operations_syntax

text \<open>
  What the float functions compute: comparison, addition, multiplication, conversion to an
  integer and division, stated against the rational numbers the words stand for.
\<close>

section \<open>Floats as amounts\<close>

definition valid_float :: "int \<Rightarrow> bool" where
  "valid_float f \<longleftrightarrow> \<not> invalid_float f \<and> f < 2 ^ 63"

lemma valid_floatE:
  assumes "valid_float f"
  obtains "f = 0" | neg e m where "in_xfl_range e m" "f = xfl_pack neg e m"
  using assms valid_cases unfolding valid_float_def by blast

lemma valid_zero [simp]: "valid_float 0" "\<not> invalid_float 0"
  by (simp_all add: valid_float_def invalid_float_def)

lemma valid_pack [simp]: "in_xfl_range e m \<Longrightarrow> valid_float (xfl_pack neg e m)"
  by (simp add: valid_float_def xfl_pack_bounds(2) [simplified])

lemma valid_not_invalid [simp]: "valid_float f \<Longrightarrow> \<not> invalid_float f"
  by (simp add: valid_float_def)

lemma xfl_value_0 [simp]: "xfl_value 0 = 0"
  by (simp add: xfl_value_def)

lemma float_amount_valid:
  assumes "valid_float f"
  obtains a where "float_amount f = Ok a" and "iou_wf a" and "iou_value a = xfl_value f"
    and "f \<noteq> 0 \<Longrightarrow> iou_exponent a = get_exponent f" and "a = iou_zero \<longleftrightarrow> f = 0"
  using assms
proof (cases rule: valid_floatE)
  case 1
  then have "float_amount f = Ok iou_zero"
    by (simp add: float_amount_def signed_mantissa_def get_mantissa_def IOUAmount_def iou_normalize_def)
  then show ?thesis
    using 1 by (intro that [of iou_zero]) simp_all
next
  case (2 neg e m)
  let ?a = "\<lparr>iou_mantissa = (if neg then - m else m), iou_exponent = e\<rparr>"
  have m0: "0 < m"
    using 2(1) by (simp add: in_xfl_range_def xfl_limits)
  then have range: "in_xfl_range e \<bar>iou_mantissa ?a\<bar>"
    using 2(1) by simp
  then have "float_amount f = Ok ?a"
    using IOUAmount_id [of e "iou_mantissa ?a"] 2 by (cases neg) (simp_all add: float_amount_def signed_mantissa_def)
  then show ?thesis
    using 2 range m0 by (intro that [of ?a]) (simp_all add: iou_wf_def iou_value_def iou_zero_def)
qed

lemma make_float_iou_value:
  assumes "iou_wf a" and "a \<noteq> iou_zero"
  shows "make_float_iou a = xfl_pack (iou_mantissa a < 0) (iou_exponent a) \<bar>iou_mantissa a\<bar>"
proof -
  define m where "m = \<bar>iou_mantissa a\<bar>"
  have r: "in_xfl_range (iou_exponent a) m"
    using assms by (simp add: iou_wf_def m_def)
  have sign: "set_sign 0 neg = (if neg then 0 else 2 ^ 62)" for neg
  proof -
    have "set_sign 0 True = 0" "set_sign 0 False = 2 ^ 62"
      by code_simp+
    then show ?thesis by (cases neg) (simp_all only: if_True if_False)
  qed
  have man: "set_mantissa s m = s + m" if "s = 0 \<or> s = 2 ^ 62" for s
  proof -
    have "get_mantissa s = 0"
      using that by (auto simp: get_mantissa_mod)
    then show ?thesis
      using that r by (auto simp: set_mantissa_def in_xfl_range_def xfl_limits)
  qed
  have "make_float_iou a = set_exponent (set_sign 0 (iou_mantissa a < 0) + m) (iou_exponent a)"
    using man [of "set_sign 0 (iou_mantissa a < 0)"]
    by (cases "iou_mantissa a < 0") (simp_all add: make_float_iou_def Let_def sign m_def)
  then show ?thesis
    using set_exponent_pack [OF r, of "set_sign 0 (iou_mantissa a < 0)"] by (simp add: sign xfl_pack_def flip: m_def)
qed

lemma make_float_iou_zero: "make_float_iou iou_zero = EXPONENT_UNDERSIZED"
  by code_simp

section \<open>Comparison\<close>

definition compare_by :: "u32 \<Rightarrow> rat \<Rightarrow> rat \<Rightarrow> bool" where
  "compare_by mode a b \<longleftrightarrow>
     mode AND 1 \<noteq> 0 \<and> a = b \<or> mode AND 2 \<noteq> 0 \<and> a < b \<or> mode AND 4 \<noteq> 0 \<and> b < a"

text \<open>
  C31: \<^verbatim>\<open>float_compare\<close> decides the order of the numbers. On valid floats and each of the six modes
  that name a relation it returns 1 or 0 as the relation holds or not.
\<close>

theorem float_compare_decides:
  assumes "valid_float f" and "valid_float g" and "mode \<in> {1, 2, 3, 4, 5, 6}"
  shows "float_compare f g mode = Ok (if compare_by mode (xfl_value f) (xfl_value g) then 1 else 0)"
proof -
  obtain a where a: "float_amount f = Ok a" "iou_wf a" "iou_value a = xfl_value f"
    using float_amount_valid [OF assms(1)] .
  obtain b where b: "float_amount g = Ok b" "iou_wf b" "iou_value b = xfl_value g"
    using float_amount_valid [OF assms(2)] .
  have rel: "iou_eq a b \<longleftrightarrow> xfl_value f = xfl_value g" "iou_less a b \<longleftrightarrow> xfl_value f < xfl_value g"
    "iou_less b a \<longleftrightarrow> xfl_value g < xfl_value f"
    using a b iou_eq_value [of a b] iou_less_iff [of a b] iou_less_iff [of b a] by simp_all
  show ?thesis
    using assms a(1) b(1) by (elim insertE emptyE) (auto simp: float_compare_def compare_by_def catch_overflow_def rel)
qed

theorem float_compare_decides_witness:
  "float_compare float_one 0 4 = Ok (if compare_by 4 (xfl_value float_one) (xfl_value 0) then 1 else 0)"
  by (rule float_compare_decides) (simp_all add: valid_float_def, code_simp+)

section \<open>Addition\<close>

lemma valid_float_below:
  assumes "valid_float f"
  shows "\<bar>xfl_value f\<bar> < 10 powi 96"
  using float_amount_valid [OF assms] iou_wf_below by metis

lemma valid_float_nonneg: "valid_float f \<Longrightarrow> 0 \<le> f"
  by (simp add: valid_float_def invalid_float_def Let_def split: if_splits)

text \<open>
  C32: \<^verbatim>\<open>float_sum\<close> adds, in either order. On valid floats it returns \<^verbatim>\<open>XFL_OVERFLOW\<close> exactly when the
  exact sum has absolute value \<open>10 ^ 96\<close> or more. Otherwise it returns a valid float that differs from
  the exact sum by at most 21 units of the larger exponent, plus \<open>10 ^ -81\<close> for underflow. The result
  does not depend on the order of the operands.
\<close>

theorem float_sum_accurate:
  assumes "valid_float f" and "valid_float g"
  shows "float_sum f g = float_sum g f
    \<and> (float_sum f g = Ok XFL_OVERFLOW \<longleftrightarrow> 10 powi 96 \<le> \<bar>xfl_value f + xfl_value g\<bar>)
    \<and> (\<bar>xfl_value f + xfl_value g\<bar> < 10 powi 96 \<longrightarrow>
       (\<exists>r. float_sum f g = Ok r \<and> valid_float r
          \<and> \<bar>xfl_value r - (xfl_value f + xfl_value g)\<bar>
              \<le> 21 * 10 powi max (get_exponent f) (get_exponent g) + 10 powi (- 81)))"
proof (cases "f = 0 \<or> g = 0")
  case True
  then have "float_sum f g = Ok (f + g)" "float_sum g f = Ok (f + g)"
    "xfl_value f + xfl_value g = xfl_value (f + g)" "valid_float (f + g)"
    using assms by (auto simp: float_sum_def)
  with valid_float_below [of "f + g"] valid_float_nonneg [of "f + g"] show ?thesis
    by auto
next
  case False
  obtain a where a: "float_amount f = Ok a" "iou_wf a" "iou_value a = xfl_value f" "iou_exponent a = get_exponent f"
    using float_amount_valid [OF assms(1)] False by metis
  obtain b where b: "float_amount g = Ok b" "iou_wf b" "iou_value b = xfl_value g" "iou_exponent b = get_exponent g"
    using float_amount_valid [OF assms(2)] False by metis
  define pack where "pack c = (let r = make_float_iou c in if r = EXPONENT_UNDERSIZED then Ok 0 else Ok r)" for c
  have sum: "float_sum f g = catch_overflow (obind (iou_add a b) pack)"
    "float_sum g f = catch_overflow (obind (iou_add b a) pack)"
    using False assms a b by (simp_all add: float_sum_def pack_def [abs_def] Let_def)
  have packed: "\<exists>r. pack c = Ok r \<and> valid_float r \<and> xfl_value r = iou_value c" if "iou_wf c" for c
  proof (cases "c = iou_zero")
    case True
    then show ?thesis by (simp add: pack_def make_float_iou_zero)
  next
    case False
    then have range: "in_xfl_range (iou_exponent c) \<bar>iou_mantissa c\<bar>"
      using that by (simp add: iou_wf_def)
    have "xfl_pack neg (iou_exponent c) \<bar>iou_mantissa c\<bar> \<noteq> EXPONENT_UNDERSIZED" for neg
      using xfl_pack_bounds(1) [OF range, of neg] by linarith
    then show ?thesis
      using make_float_iou_value [OF that False] range
      by (simp add: pack_def Let_def iou_value_def)
  qed
  note add = iou_add_error [OF a(2) b(2), unfolded a(3,4) b(3,4)]
  have comm: "float_sum g f = float_sum f g"
    using iou_add_comm [OF a(2) b(2)] by (simp only: sum)
  show ?thesis
  proof (cases "iou_add a b")
    case (Ok c)
    then have c: "iou_wf c" "\<bar>xfl_value f + xfl_value g\<bar> < 10 powi 96"
      "\<bar>iou_value c - (xfl_value f + xfl_value g)\<bar>
        \<le> 21 * 10 powi max (get_exponent f) (get_exponent g) + 10 powi (- 81)"
      using add by simp_all
    from packed [OF c(1)] obtain r where "pack c = Ok r" "valid_float r" "xfl_value r = iou_value c"
      by blast
    with c Ok valid_float_nonneg [of r] show ?thesis
      by (auto simp: comm sum(1) catch_overflow_def)
  qed (use add in \<open>auto simp: comm sum(1) catch_overflow_def\<close>)
qed

theorem float_sum_accurate_witness:
  "(let f = float_one; g = make_float maxMantissa (- 20) True in
      \<exists>r. float_sum f g = Ok r \<and> valid_float r
        \<and> \<bar>xfl_value r - (xfl_value f + xfl_value g)\<bar>
            \<le> 21 * 10 powi max (get_exponent f) (get_exponent g) + 10 powi (- 81))
   \<and> (let f = make_float maxMantissa 80 True; g = make_float minMantissa 65 True in
      float_sum f g = Ok XFL_OVERFLOW \<and> 10 powi 96 \<le> \<bar>xfl_value f + xfl_value g\<bar>)"
proof -
  have valid: "valid_float float_one" "valid_float (make_float maxMantissa (- 20) True)"
    "valid_float (make_float maxMantissa 80 True)" "valid_float (make_float minMantissa 65 True)"
    by (simp_all add: valid_float_def) code_simp+
  have sums: "float_sum float_one (make_float maxMantissa (- 20) True) \<noteq> Ok XFL_OVERFLOW"
    "float_sum (make_float maxMantissa 80 True) (make_float minMantissa 65 True) = Ok XFL_OVERFLOW"
    by code_simp+
  show ?thesis
    using float_sum_accurate [OF valid(1,2)] float_sum_accurate [OF valid(3,4)] sums
    unfolding Let_def by (meson not_le)
qed

section \<open>Conversion to an integer\<close>

text \<open>
  \<^verbatim>\<open>float_int\<close> is the integer part. For a valid float, non-negative or with the flag for the
  absolute value, and up to fifteen decimal places, the result is the integer part of the number
  scaled by that many places, or \<^verbatim>\<open>TOO_BIG\<close> when the scaled exponent is positive.
\<close>

theorem float_int_floor:
  assumes "valid_float f" and "f \<noteq> 0" and "dp \<le> 15" and "\<not> is_negative f \<or> absolute \<noteq> 0"
  shows "float_int f dp absolute =
    Ok (if 0 < get_exponent f + uint dp then TOO_BIG else \<lfloor>\<bar>xfl_value f\<bar> * 10 powi uint dp\<rfloor>)"
  using assms(1)
proof (cases rule: valid_floatE)
  case 1
  then show ?thesis using assms(2) by simp
next
  case (2 neg e m)
  define s where "s = - (e + uint dp)"
  have m: "0 < m" "m < 10 ^ 16" and e: "- 96 \<le> e" "e \<le> 80"
    using 2(1) by (simp_all add: in_xfl_range_def xfl_limits)
  have dp: "0 \<le> uint dp" "uint dp \<le> 15"
    using assms(3) by (simp_all add: word_le_def)
  then have "- 200 \<le> s \<and> s \<le> 200"
    unfolding s_def using e by linarith
  then have "signed_take_bit 31 s = s"
    by (intro signed_take_bit_int_eq_self) simp_all
  then have code: "float_int f dp absolute =
      (if 15 < s then Ok 0 else if s < 0 then Ok TOO_BIG
       else if 0 < s then obind (power_of_ten s) (\<lambda>p. Ok (m div p)) else Ok m)"
    using 2 assms by (auto simp: float_int_def Let_def s_def)
  have "\<bar>xfl_value f\<bar> * 10 powi uint dp = of_int m * 10 powi (- s)"
    using 2 m by (simp add: abs_mult power_int_add s_def)
  then have v: "\<bar>xfl_value f\<bar> * 10 powi uint dp = of_int m / 10 ^ nat s" if "0 \<le> s"
    using that by (simp add: power_int_minus power_int_def field_simps)
  show ?thesis
  proof (cases "s < 0")
    case True
    then show ?thesis
      using code 2 by (simp add: s_def)
  next
    case False
    have floor: "\<lfloor>of_int m / 10 ^ nat s :: rat\<rfloor> = m div 10 ^ nat s"
      using floor_divide_of_int_eq [of m "10 ^ nat s", where 'a = rat] by simp
    have "m div 10 ^ nat s = 0" if "15 < s"
    proof -
      have "(10 :: int) ^ 16 \<le> 10 ^ nat s"
        using that by (intro power_increasing) auto
      with m show ?thesis by (intro div_pos_pos_trivial) auto
    qed
    with False code 2 v floor show ?thesis
      by (auto simp: power_of_ten_def s_def not_less)
  qed
qed

theorem float_int_floor_witness:
  "float_int float_one 3 0 =
    Ok (if 0 < get_exponent float_one + uint (3 :: u32) then TOO_BIG
        else \<lfloor>\<bar>xfl_value float_one\<bar> * 10 powi uint (3 :: u32)\<rfloor>)"
  by (rule float_int_floor) (simp_all add: valid_float_def, code_simp+)

section \<open>Multiplication\<close>

text \<open>The product of two mantissas loses its last fifteen digits before it is normalised.\<close>

lemma product_digits:
  assumes "in_xfl_range e1 m1" and "in_xfl_range e2 m2"
  defines "m \<equiv> m1 * m2 div 10 ^ 15"
  shows "0 < m" "m < 10 ^ 17" "to_uint64 m = m"
    and "m * 10 ^ 15 \<le> m1 * m2" "(m1 * m2 - m * 10 ^ 15) * 10 ^ 15 \<le> m1 * m2"
proof -
  have range: "10 ^ 15 \<le> m1" "10 ^ 15 \<le> m2" "m1 < 10 ^ 16" "m2 < 10 ^ 16"
    using assms(1,2) by (simp_all add: in_xfl_range_def xfl_limits)
  have low: "10 ^ 15 * 10 ^ 15 \<le> m1 * m2"
    by (rule mult_mono) (use range in auto)
  have high: "m1 * m2 < 10 ^ 16 * 10 ^ 16"
    by (rule mult_strict_mono) (use range in auto)
  have rem: "m1 * m2 = m * 10 ^ 15 + m1 * m2 mod 10 ^ 15" "m1 * m2 mod 10 ^ 15 < 10 ^ 15" "0 \<le> m1 * m2 mod 10 ^ 15"
    by (simp_all add: m_def)
  show "0 < m" "m < 10 ^ 17"
    using low high rem by simp_all
  then show "to_uint64 m = m"
    by simp
  show "m * 10 ^ 15 \<le> m1 * m2" "(m1 * m2 - m * 10 ^ 15) * 10 ^ 15 \<le> m1 * m2"
    using low rem by simp_all
qed

lemma product_error:
  fixes v p a :: rat
  assumes "\<bar>a - v\<bar> * (10 ^ 15 - 1) \<le> v" and "v \<le> p" and "(p - v) * 10 ^ 15 \<le> p"
  shows "\<bar>a - p\<bar> * (10 ^ 15 - 1) \<le> 2 * p"
  using assms by (simp add: abs_if split: if_splits)

text \<open>
  C33: \<^verbatim>\<open>float_multiply\<close> multiplies, in either order. On valid floats, with a logarithm of the stated
  accuracy, the result is a valid float within two parts in \<open>10 ^ 15 - 1\<close> of the exact product, or
  zero for a product below \<open>10 ^ -78\<close>, or \<^verbatim>\<open>XFL_OVERFLOW\<close> for one above \<open>10 ^ 94\<close>.
\<close>

theorem float_multiply_accurate:
  assumes lg: "log10_accurate lg" and f: "valid_float f" and g: "valid_float g"
  shows "float_multiply lg f g = float_multiply lg g f \<and>
    (\<exists>r. float_multiply lg f g = Ok r \<and>
      (valid_float r \<and> \<bar>xfl_value r - xfl_value f * xfl_value g\<bar> * (10 ^ 15 - 1) \<le> 2 * \<bar>xfl_value f * xfl_value g\<bar>
       \<or> r = 0 \<and> \<bar>xfl_value f * xfl_value g\<bar> < 10 powi (- 78)
       \<or> r = XFL_OVERFLOW \<and> 10 powi 94 < \<bar>xfl_value f * xfl_value g\<bar>))"
proof (cases "f = 0 \<or> g = 0")
  case True
  then show ?thesis
    using f g by (auto simp: float_multiply_def)
next
  case False
  obtain n1 e1 m1 where f1: "in_xfl_range e1 m1" "f = xfl_pack n1 e1 m1"
    using f False by (elim valid_floatE) auto
  obtain n2 e2 m2 where g1: "in_xfl_range e2 m2" "g = xfl_pack n2 e2 m2"
    using g False by (elim valid_floatE) auto
  define m where "m = m1 * m2 div 10 ^ 15"
  define neg where "neg \<longleftrightarrow> n1 \<and> \<not> n2 \<or> \<not> n1 \<and> n2"
  define v :: rat where "v = of_int m * 10 powi (e1 + e2 + 15)"
  define p :: rat where "p = of_int (m1 * m2) * 10 powi (e1 + e2)"
  note digits = product_digits [OF f1(1) g1(1), folded m_def]
  have mul: "float_multiply lg f g = obind (normalize_xfl False lg m (e1 + e2 + 15) neg) (\<lambda>(ret, _, _).
      if ret = EXPONENT_UNDERSIZED then Ok 0 else if ret = EXPONENT_OVERSIZED then Ok XFL_OVERFLOW else Ok ret)"
    using f1 g1 digits(3) by (auto simp: float_multiply_def float_multiply_internal_parts_def Let_def neg_def m_def)
  have e: "- 96 \<le> e1" "e1 \<le> 80" "- 96 \<le> e2" "e2 \<le> 80"
    using f1(1) g1(1) by (simp_all add: in_xfl_range_def xfl_limits)
  have vp: "0 < v" "v \<le> p" "(p - v) * 10 ^ 15 \<le> p"
  proof -
    have scale: "v = of_int (m * 10 ^ 15) * 10 powi (e1 + e2)"
      by (simp add: v_def power_int_add)
    show "0 < v"
      using digits(1) by (simp add: v_def)
    show "v \<le> p"
      unfolding scale p_def using digits(4) by (intro mult_right_mono) (simp_all only: of_int_le_iff, simp)
    have "(p - v) * 10 ^ 15 = of_int ((m1 * m2 - m * 10 ^ 15) * 10 ^ 15) * 10 powi (e1 + e2)"
      unfolding scale p_def by (simp add: algebra_simps)
    also have "\<dots> \<le> p"
      unfolding p_def using digits(5) by (intro mult_right_mono) (simp_all only: of_int_le_iff, simp)
    finally show "(p - v) * 10 ^ 15 \<le> p" .
  qed
  have prod: "xfl_value f * xfl_value g = signed_by neg p" "\<bar>xfl_value f * xfl_value g\<bar> = p"
    using f1 g1 vp by (simp_all add: signed_by_def p_def neg_def power_int_add abs_mult)
      (simp add: in_xfl_range_def xfl_limits)
  obtain r m' e' where norm: "normalize_xfl False lg m (e1 + e2 + 15) neg = Ok (r, m', e')"
    and res: "r = 0 \<and> v < 10 powi (- 79) \<or> r = XFL_OVERFLOW \<and> 10 powi 94 < v
      \<or> \<not> invalid_float r \<and> 0 < r \<and> r < 2 ^ 63 \<and> within_precision (xfl_value r) (signed_by neg v)"
    using normalize_xfl_spec [OF lg digits(1), of False "e1 + e2 + 15" neg] digits(2) e unfolding v_def by auto
  have out: "float_multiply lg f g = Ok r"
    using mul norm res by auto
  have "valid_float r \<and> \<bar>xfl_value r - signed_by neg p\<bar> * (10 ^ 15 - 1) \<le> 2 * p
       \<or> r = 0 \<and> p < 10 powi (- 78) \<or> r = XFL_OVERFLOW \<and> 10 powi 94 < p"
    using res
  proof (elim disjE conjE)
    assume "r = 0" "v < 10 powi (- 79)"
    moreover have "p \<le> 2 * v"
      using vp by simp
    moreover have "2 * 10 powi (- 79) < (10 powi (- 78) :: rat)"
      by (simp add: power_int_def power_one_over)
    ultimately show ?thesis by linarith
  next
    assume r: "\<not> invalid_float r" "r < 2 ^ 63" "within_precision (xfl_value r) (signed_by neg v)"
    then have "\<bar>signed_by neg (xfl_value r) - v\<bar> * (10 ^ 15 - 1) \<le> v"
      using vp(1) by (auto simp: within_precision_def signed_by_def abs_if split: if_splits)
    from product_error [OF this vp(2,3)] show ?thesis
      using r(1,2) by (auto simp: valid_float_def signed_by_def abs_if split: if_splits)
  qed (use vp in linarith)
  moreover have "float_multiply lg f g = float_multiply lg g f"
    using f1 g1 by (simp add: float_multiply_def float_multiply_internal_parts_def mult.commute add.commute
        disj_commute conj_commute)
  ultimately show ?thesis
    unfolding prod(2) unfolding prod(1) using out by blast
qed

theorem float_multiply_accurate_witness:
  "float_multiply log10_rounded float_one (make_float 1234567890123456 5 True)
     = float_multiply log10_rounded (make_float 1234567890123456 5 True) float_one \<and>
    (\<exists>r. float_multiply log10_rounded float_one (make_float 1234567890123456 5 True) = Ok r \<and>
      (valid_float r \<and> \<bar>xfl_value r - xfl_value float_one * xfl_value (make_float 1234567890123456 5 True)\<bar> * (10 ^ 15 - 1)
          \<le> 2 * \<bar>xfl_value float_one * xfl_value (make_float 1234567890123456 5 True)\<bar>
       \<or> r = 0 \<and> \<bar>xfl_value float_one * xfl_value (make_float 1234567890123456 5 True)\<bar> < 10 powi (- 78)
       \<or> r = XFL_OVERFLOW \<and> 10 powi 94 < \<bar>xfl_value float_one * xfl_value (make_float 1234567890123456 5 True)\<bar>))"
  by (rule float_multiply_accurate [OF log10_rounded_accurate]) (simp_all add: valid_float_def, code_simp+)

text \<open>
  One is not a neutral element: where the logarithm rounds up to 16, the normalisation drops the last
  digit of the mantissa.
\<close>

lemma float_multiply_one_inexact:
  "float_multiply log10_rounded (make_float 9999999999999985 0 False) float_one
     = Ok (make_float 9999999999999980 0 False)"
  by code_simp

section \<open>Division\<close>

lemma divide_digit_eq:
  assumes "0 < man1" and "0 < man2"
  shows "divide_digit man1 man2 i = (man1 - (man1 - 1) div man2 * man2, i + (man1 - 1) div man2)"
  using assms
proof (induction man1 man2 i rule: divide_digit.induct)
  case (1 man1 man2 i)
  show ?case
  proof (cases "man2 < man1")
    case True
    have "(man1 - 1) div man2 = (man1 - man2 - 1) div man2 + 1"
      using div_add_self2 [of man2 "man1 - man2 - 1"] 1(3) by (simp add: algebra_simps)
    then show ?thesis
      using 1 True by (simp add: divide_digit.simps [of man1 man2 i] algebra_simps)
  next
    case False
    then have "(man1 - 1) div man2 = 0"
      using 1(2,3) by (intro div_pos_pos_trivial) auto
    then show ?thesis
      using False by (simp add: divide_digit.simps [of man1 man2 i])
  qed
qed

lemma divide_digit_rem:
  fixes man1 man2 :: int
  assumes "0 < man1" and "0 < man2"
  shows "0 < man1 - (man1 - 1) div man2 * man2" "man1 - (man1 - 1) div man2 * man2 \<le> man2"
  using div_mult_mod_eq [of "man1 - 1" man2] pos_mod_bound [OF assms(2), of "man1 - 1"]
    pos_mod_sign [OF assms(2), of "man1 - 1"] by linarith+

lemma divide_digits_bounds:
  assumes "0 < man2" and "man2 < 10 ^ n" and "0 < man1" and "man1 \<le> 20 * man2" and "0 \<le> man3"
    and "(man3 + 3) * 10 ^ n \<le> 2 ^ 64"
  shows "\<exists>m e. divide_digits man1 man2 man3 exp3 = (m, e) \<and> man3 \<le> m \<and> m < 2 ^ 64
    \<and> exp3 - int n \<le> e \<and> e \<le> exp3 \<and> (man2 < man1 \<longrightarrow> 0 < m) \<and> (man1 = man2 \<and> 10 \<le> man2 \<longrightarrow> 0 < m)"
  using assms
proof (induction n arbitrary: man1 man2 man3 exp3)
  case (Suc n)
  define q where "q = (man1 - 1) div man2"
  have q: "0 \<le> q" "q < 20" "man2 < man1 \<longrightarrow> 1 \<le> q"
    using Suc.prems int_div_less [of man2 "man1 - 1" 20] int_le_div [of man2 1 "man1 - 1"]
    by (simp_all add: q_def pos_imp_zdiv_nonneg_iff)
  define r where "r = man1 - q * man2"
  have r: "0 < r" "r \<le> man2"
    using divide_digit_rem [OF Suc.prems(3,1)] by (simp_all add: r_def q_def)
  have pow: "(man3 * 10 + q + 3) * 10 ^ n \<le> (man3 + 3) * 10 ^ Suc n"
    using q by (simp flip: mult.assoc)
  moreover have "man3 * 10 + q < (man3 * 10 + q + 3) * 10 ^ n"
  proof -
    have "(man3 * 10 + q + 3) * 1 \<le> (man3 * 10 + q + 3) * 10 ^ n"
      using q(1) Suc.prems(5) by (intro mult_left_mono) auto
    then show ?thesis
      by (rule less_le_trans [rotated]) simp
  qed
  ultimately have m3: "man3 * 10 + q < 2 ^ 64" "0 \<le> man3 * 10 + q"
    using Suc.prems(5,6) q(1) by linarith+
  have digit: "divide_digit man1 man2 0 = (r, q)"
    using divide_digit_eq [OF Suc.prems(3,1), of 0] by (simp add: r_def q_def)
  have step: "divide_digits man1 man2 man3 exp3 =
      (if man2 div 10 = 0 then (man3 * 10 + q, exp3) else divide_digits r (man2 div 10) (man3 * 10 + q) (exp3 - 1))"
    using Suc.prems(1) m3 by (simp add: divide_digits.simps [of man1 man2] digit)
  show ?case
  proof (cases "man2 div 10 = 0")
    case True
    then have "man2 < 10"
      using Suc.prems(1) by simp
    with True show ?thesis
      using m3 q Suc.prems(5) by (auto simp: step)
  next
    case False
    then have pos: "0 < man2 div 10" "10 \<le> man2"
      using Suc.prems(1) pos_imp_zdiv_nonneg_iff [of 10 man2] by (simp_all add: zdiv_eq_0_iff)
    have less: "man2 div 10 < 10 ^ n"
      using Suc.prems(2) by (intro int_div_less) auto
    have le: "r \<le> 20 * (man2 div 10)"
      using r(2) pos div_mult_mod_eq [of man2 10] pos_mod_bound [of 10 man2] by linarith
    have "(man3 * 10 + q + 3) * 10 ^ n \<le> 2 ^ 64"
      using pow Suc.prems(6) by linarith
    from Suc.IH [OF pos(1) less r(1) le m3(2) this, of "exp3 - 1"] obtain m e
      where IH: "divide_digits r (man2 div 10) (man3 * 10 + q) (exp3 - 1) = (m, e)" "man3 * 10 + q \<le> m" "m < 2 ^ 64"
        "exp3 - 1 - int n \<le> e" "e \<le> exp3 - 1" "man2 div 10 < r \<longrightarrow> 0 < m"
      by blast
    have "man1 = man2 \<longrightarrow> man2 div 10 < r"
    proof
      assume "man1 = man2"
      then have "q = 0"
        using Suc.prems(1) by (simp add: q_def div_pos_pos_trivial)
      then show "man2 div 10 < r"
        using \<open>man1 = man2\<close> Suc.prems(1) by (simp add: r_def)
    qed
    then show ?thesis
      using IH q Suc.prems(5) False by (auto simp: step)
  qed
qed simp

lemma divide_grow_returns:
  assumes "0 < man2" and "man2 \<le> man1" and "man1 < 10 ^ 17"
  shows "\<exists>k. divide_grow man1 man2 exp2 = Some (man2 * 10 ^ k, exp2 - int k)
    \<and> man2 * 10 ^ k \<le> man1 \<and> man1 \<le> 20 * (man2 * 10 ^ k)"
  using assms
proof (induction "nat (man1 - man2)" arbitrary: man2 exp2 rule: less_induct)
  case less
  have u: "to_uint64 (man2 * 10) = man2 * 10"
    using less.prems by (intro to_uint64_id) auto
  show ?case
  proof (cases "man2 < man1 \<and> man2 * 10 \<le> man1")
    case True
    then have "nat (man1 - man2 * 10) < nat (man1 - man2)"
      using less.prems(1) by linarith
    from less.hyps [OF this, of "exp2 - 1"] less.prems True obtain k
      where "divide_grow man1 (man2 * 10) (exp2 - 1) = Some (man2 * 10 * 10 ^ k, exp2 - 1 - int k)"
        "man2 * 10 * 10 ^ k \<le> man1" "man1 \<le> 20 * (man2 * 10 * 10 ^ k)"
      by auto
    with True show ?thesis
      by (intro exI [of _ "Suc k"]) (simp add: divide_grow.simps [of man1 man2] u algebra_simps)
  next
    case False
    then show ?thesis
      using less.prems by (intro exI [of _ 0]) (auto simp: divide_grow.simps [of man1 man2] u)
  qed
qed

lemma divide_shrink_returns:
  assumes "0 < man1" and "man2 < 10 * man1 + 10" and "0 \<le> man2"
  shows "divide_shrink man1 man2 exp2 = (if man1 < man2 then (man2 div 10, exp2 + 1) else (man2, exp2))"
proof (cases "man1 < man2")
  case True
  then have "\<not> man1 < man2 div 10"
    using assms int_div_less [of 10 man2 "man1 + 1"] by linarith
  then show ?thesis
    using True assms by (simp add: divide_shrink.simps [of man1 man2] divide_shrink.simps [of man1 "man2 div 10"])
qed (use assms in \<open>simp add: divide_shrink.simps [of man1 man2]\<close>)

lemma divide_mantissas_returns:
  assumes lg: "log10_accurate lg" and m1: "minMantissa \<le> man1" "man1 \<le> maxMantissa"
    and m2: "minMantissa \<le> man2" "man2 \<le> maxMantissa" and e: "\<bar>exp1\<bar> < 1000" "\<bar>exp2\<bar> < 1000"
  shows "\<exists>r. divide_mantissas lg man1 exp1 man2 exp2 neg3 = Some (Ok r)"
proof -
  define s where "s = (if man1 < man2 then man2 div 10 else man2)"
  define e2 where "e2 = (if man1 < man2 then exp2 + 1 else exp2)"
  have "10 ^ 14 \<le> man2 div 10" "man2 div 10 \<le> man1"
    using m1 m2 int_le_div [of 10 "10 ^ 14" man2] int_div_less [of 10 man2 "man1 + 1"] by (auto simp: xfl_limits)
  then have s: "10 ^ 14 \<le> s" "s \<le> man1" "divide_shrink man1 man2 exp2 = (s, e2)"
    using m1 m2 divide_shrink_returns [of man1 man2 exp2] by (auto simp: s_def e2_def xfl_limits)
  then obtain k where grow: "divide_grow man1 s e2 = Some (s * 10 ^ k, e2 - int k)"
    and k: "s * 10 ^ k \<le> man1" "man1 \<le> 20 * (s * 10 ^ k)"
    using divide_grow_returns [of s man1 e2] m1 by (auto simp: xfl_limits)
  have k3: "k < 3"
  proof (rule ccontr)
    assume "\<not> k < 3"
    then have "(10 :: int) ^ 14 * 10 ^ 3 \<le> s * 10 ^ k"
      using s(1) by (intro mult_mono power_increasing) auto
    with k(1) m1(2) show False by (simp add: xfl_limits)
  qed
  have sk: "10 ^ 14 \<le> s * 10 ^ k" "s * 10 ^ k < 10 ^ 16"
    using s(1) k(1) m1(2) mult_mono [of "10 ^ 14" s 1 "10 ^ k"] by (auto simp: xfl_limits)
  obtain m e where digits: "divide_digits man1 (s * 10 ^ k) 0 (exp1 - (e2 - int k)) = (m, e)" "m < 2 ^ 64"
      "exp1 - (e2 - int k) - 16 \<le> e" "e \<le> exp1 - (e2 - int k)" "0 < m"
    using divide_digits_bounds [of "s * 10 ^ k" 16 man1 0 "exp1 - (e2 - int k)"] sk k m1 by (fastforce simp: xfl_limits)
  have "- (2 ^ 31) + 20 < e" "e < 2 ^ 31 - 20"
    using digits(3,4) assms(6,7) k3 unfolding e2_def by (auto split: if_splits)
  from normalize_xfl_spec [OF lg digits(5,2) _ this, of False neg3] obtain r m' e'
    where "normalize_xfl False lg m e neg3 = Ok (r, m', e')"
    by blast
  then show ?thesis
    using s(1) by (simp add: divide_mantissas_def s(3) grow digits(1))
qed

text \<open>
  C34: \<^verbatim>\<open>float_divide\<close> ends. On valid floats, with a logarithm of the stated accuracy, its four loops end,
  no intermediate value leaves its type, and it returns a code or a float.
\<close>

theorem float_divide_returns:
  assumes lg: "log10_accurate lg" and f: "valid_float f" and g: "valid_float g"
  shows "\<exists>r. float_divide lg f g = Some (Ok r)"
proof (cases "f = 0 \<or> g = 0 \<or> g = float_one_internal")
  case True
  then show ?thesis
    using f g by (auto simp: float_divide_def float_divide_internal_def)
next
  case False
  have norm: "\<exists>t m e. normalize_xfl False lg (get_mantissa h) (get_exponent h) False = Ok (t, m, e)
      \<and> (t \<le> 0 \<or> minMantissa \<le> m \<and> m \<le> maxMantissa \<and> \<bar>e\<bar> < 1000) \<and> (t = 0 \<longrightarrow> m = 0)"
    if h: "valid_float h" "h \<noteq> 0" for h
  proof -
    obtain n e m where hp: "in_xfl_range e m" "h = xfl_pack n e m"
      using h by (elim valid_floatE) auto
    then have "0 < m" "m < 2 ^ 64" "- (2 ^ 31) + 20 < e" "e < 2 ^ 31 - 20"
      by (simp_all add: in_xfl_range_def xfl_limits)
    then obtain m' e' where norm: "normalize_xfl False lg m e False = Ok (finish_xfl False m' e' False)"
      and "minMantissa \<le> m'" "m' \<le> maxMantissa"
      by (elim normalize_xfl_parts [OF lg, where sman = False and neg = False]) auto
    then show ?thesis
      using hp xfl_pack_bounds(1) [of e' m' False] make_float_pack [of e' m' False]
      by (auto simp: finish_xfl_def in_xfl_range_def xfl_limits)
  qed
  obtain t1 m1 e1 where n1: "normalize_xfl False lg (get_mantissa f) (get_exponent f) False = Ok (t1, m1, e1)"
    and r1: "t1 \<le> 0 \<or> minMantissa \<le> m1 \<and> m1 \<le> maxMantissa \<and> \<bar>e1\<bar> < 1000"
    using norm [OF f] False by blast
  obtain t2 m2 e2 where n2: "normalize_xfl False lg (get_mantissa g) (get_exponent g) False = Ok (t2, m2, e2)"
    and r2: "t2 \<le> 0 \<or> minMantissa \<le> m2 \<and> m2 \<le> maxMantissa \<and> \<bar>e2\<bar> < 1000" "t2 = 0 \<longrightarrow> m2 = 0"
    using norm [OF g] False by blast
  have zero: "divide_mantissas lg m1 e1 0 e2 n = Some (Ok DIVISION_BY_ZERO)" for n
    by (simp add: divide_mantissas_def divide_shrink.simps)
  show ?thesis
    using False f g n1 n2 r1 r2 zero divide_mantissas_returns [OF lg, of m1 m2 e1 e2]
    by (cases "t1 \<le> 0"; cases "t2 = 0"; cases "t2 < 0") (auto simp: float_divide_def float_divide_internal_def Let_def)
qed

theorem float_divide_returns_witness:
  "\<exists>r. float_divide log10_rounded float_one (make_float 3000000000000000 (- 15) False) = Some (Ok r)"
  by (rule float_divide_returns [OF log10_rounded_accurate]) (simp_all add: valid_float_def, code_simp+)

text \<open>
  The digit loop subtracts while the rest is greater than the divisor, not while it is at least the
  divisor, so an exact quotient comes out one unit in the last place too small: four divided by two
  is 1.999999999999999.
\<close>

lemma float_divide_inexact:
  "float_divide log10_rounded (make_float 4000000000000000 (- 15) False) (make_float 2000000000000000 (- 15) False)
     = Some (Ok (make_float 1999999999999999 (- 15) False))"
  "float_divide log10_exact (make_float 4000000000000000 (- 15) False) (make_float 2000000000000000 (- 15) False)
     = Some (Ok (make_float 1999999999999999 (- 15) False))"
  by code_simp+

end
