(* ===== verification/Xfl_Sto.thy ===== *)
theory Xfl_Sto
  imports Xfl_Api_Props
begin

unbundle bit_operations_syntax

text \<open>
  Floats in serialized amounts: \<^verbatim>\<open>float_sto\<close> and \<^verbatim>\<open>float_sto_set\<close> of
  \<^verbatim>\<open>src/ripple/app/hook/impl/applyHook.cpp\<close>, and \<^verbatim>\<open>parseCurrency\<close>, which the former uses.
\<close>

section \<open>Currency codes\<close>

definition validateChar :: "u8 \<Rightarrow> bool" where
  "validateChar c \<longleftrightarrow>
     (0x61 \<le> c \<and> c \<le> 0x7A) \<or> (0x41 \<le> c \<and> c \<le> 0x5A) \<or> (0x30 \<le> c \<and> c \<le> 0x39)
     \<or> char_of (unat c) \<in> set ''?!@#$%^&*<>(){}[]|''"

definition parseCurrency :: "bytes \<Rightarrow> bytes option" where
  "parseCurrency cu =
     (if length cu = 20 then Some cu
      else if length cu = 3 then
        if \<not> validateChar (cu ! 0) \<or> \<not> validateChar (cu ! 1) \<or> \<not> validateChar (cu ! 2) then None
        else Some (replicate 12 0 @ cu @ replicate 5 0)
      else None)"

section \<open>Writing\<close>

text \<open>The optional currency and issuer arguments: an error code, or what was given.\<close>

definition currency_arg :: "memory \<Rightarrow> u32 \<Rightarrow> u32 \<Rightarrow> int + bytes option" where
  "currency_arg mem cread_ptr cread_len =
     (if cread_len = 0 then if cread_ptr \<noteq> 0 then Inl INVALID_ARGUMENT else Inr None
      else if cread_len \<noteq> 20 \<and> cread_len \<noteq> 3 then Inl INVALID_ARGUMENT
      else if NOT_IN_BOUNDS cread_ptr cread_len mem then Inl OUT_OF_BOUNDS
      else (case parseCurrency (mem_get mem (uint cread_ptr) (uint cread_len)) of
          None \<Rightarrow> Inl INVALID_ARGUMENT
        | Some c \<Rightarrow> Inr (Some c)))"

definition issuer_arg :: "memory \<Rightarrow> u32 \<Rightarrow> u32 \<Rightarrow> int + bytes option" where
  "issuer_arg mem iread_ptr iread_len =
     (if iread_len = 0 then if iread_ptr \<noteq> 0 then Inl INVALID_ARGUMENT else Inr None
      else if iread_len \<noteq> 20 then Inl INVALID_ARGUMENT
      else if NOT_IN_BOUNDS iread_ptr iread_len mem then Inl OUT_OF_BOUNDS
      else Inr (Some (mem_get mem (uint iread_ptr) 20)))"

text \<open>The field header, one to three bytes; \<open>field\<close> and \<open>type\<close> are 16 bit numbers.\<close>

definition field_header :: "int \<Rightarrow> int \<Rightarrow> bytes" where
  "field_header type field =
     (if field < 16 \<and> type < 16 then [push_bit 4 (of_int type) + of_int field]
      else if 16 \<le> field \<and> type < 16 then [push_bit 4 (of_int type), of_int field]
      else if field < 16 \<and> 16 \<le> type then [push_bit 4 (of_int field), of_int type]
      else [0, of_int type, of_int field])"

text \<open>The low \<open>n\<close> bytes of a number, the highest first.\<close>

primrec be_bytes :: "nat \<Rightarrow> int \<Rightarrow> bytes" where
  "be_bytes 0 x = []"
| "be_bytes (Suc n) x = of_int (drop_bit (8 * n) x AND 0xFF) # be_bytes n x"

definition xrp_bytes :: "bool \<Rightarrow> int \<Rightarrow> bytes" where
  "xrp_bytes neg man =
     ((if neg then 0 else 0x40) + of_int (drop_bit 56 man AND 0x3F)) # be_bytes 7 man"

definition iou_bytes :: "bool \<Rightarrow> int \<Rightarrow> int \<Rightarrow> bytes" where
  "iou_bytes neg e man =
     (let e = e + 97 in
      ((if neg then 0x80 else 0xC0) + of_int (drop_bit 2 e))
      # (push_bit 6 (of_int (e AND 3)) + (of_int (drop_bit 48 man) AND 0x3F))
      # be_bytes 6 man)"

definition zero_bytes :: bytes where
  "zero_bytes = 0xC0 # replicate 7 0"

text \<open>The eight bytes of the amount, or the code the function returns instead.\<close>

definition amount_bytes :: "bool \<Rightarrow> int \<Rightarrow> (int + bytes) outcome" where
  "amount_bytes is_xrp float1 =
     (let man = get_mantissa float1; e = get_exponent float1; neg = is_negative float1 in
      if is_xrp then
        let shift = - e in
        if 15 < shift then Ok (Inl 0)
        else if shift < 0 then Ok (Inl XFL_OVERFLOW)
        else obind (if 0 < shift then obind (power_of_ten shift) (\<lambda>p. Ok (man div p)) else Ok man)
          (\<lambda>man. Ok (Inr (xrp_bytes neg man)))
      else if man = 0 then Ok (Inr zero_bytes)
      else Ok (Inr (iou_bytes neg e man)))"

text \<open>The successive \<^verbatim>\<open>WRITE_WASM_MEMORY\<close> of several blobs after \<open>written\<close> bytes.\<close>

fun write_all :: "memory \<Rightarrow> int \<Rightarrow> int \<Rightarrow> int \<Rightarrow> bytes list \<Rightarrow> int \<times> memory" where
  "write_all mem write_ptr write_len written [] = (written, mem)"
| "write_all mem write_ptr write_len written (src # srcs) =
     (case WRITE_WASM_MEMORY mem (write_ptr + written) (write_len - written) src of
        None \<Rightarrow> (OUT_OF_BOUNDS, mem)
      | Some (n, mem) \<Rightarrow> write_all mem write_ptr write_len (written + n) srcs)"

definition header_size :: "int \<Rightarrow> int \<Rightarrow> int" where
  "header_size type field =
     (if field = 0 \<and> type = 0 then 0
      else if field = 0xFFFF \<and> type = 0xFFFF then 0
      else if field < 16 \<and> type < 16 then 1
      else if 16 \<le> field \<and> type < 16 then 2
      else if field < 16 \<and> 16 \<le> type then 2
      else 3)"

text \<open>The part of \<^verbatim>\<open>float_sto\<close> after the arguments have been read.\<close>

definition float_sto_write ::
    "memory \<Rightarrow> u32 \<Rightarrow> u32 \<Rightarrow> bytes option \<Rightarrow> bytes option \<Rightarrow> int \<Rightarrow> u32 \<Rightarrow> api_result" where
  "float_sto_write mem write_ptr write_len currency issuer float1 field_code =
     (let field = uint (field_code AND 0xFFFF); type = uint (drop_bit 16 field_code);
          is_xrp = field_code = 0; is_short = field_code = 0xFFFFFFFF;
          bytes_needed = 8 + header_size type field + (if issuer = None then 0 else 40)
      in if (issuer \<noteq> None) \<noteq> (currency \<noteq> None) then Ok (INVALID_ARGUMENT, mem)
         else if issuer \<noteq> None \<and> (is_xrp \<or> is_short) then Ok (INVALID_ARGUMENT, mem)
         else if issuer = None \<and> \<not> is_xrp \<and> \<not> is_short then Ok (INVALID_ARGUMENT, mem)
         else if uint write_len < bytes_needed then Ok (TOO_SMALL, mem)
         else
           let header = (if is_xrp \<or> is_short then [] else field_header type field) in
           obind (poke mem (uint write_ptr) header) (\<lambda>mem.
           obind (amount_bytes is_xrp float1) (\<lambda>out.
           case out of
             Inl code \<Rightarrow> Ok (code, mem)
           | Inr out \<Rightarrow>
               Ok (write_all mem (uint write_ptr) (uint write_len) (int (length header))
                 (case (currency, issuer) of (Some c, Some i) \<Rightarrow> [out, c, i] | _ \<Rightarrow> [out])))))"

definition float_sto ::
    "memory \<Rightarrow> u32 \<Rightarrow> u32 \<Rightarrow> u32 \<Rightarrow> u32 \<Rightarrow> u32 \<Rightarrow> u32 \<Rightarrow> int \<Rightarrow> u32 \<Rightarrow> api_result" where
  "float_sto mem write_ptr write_len cread_ptr cread_len iread_ptr iread_len float1 field_code =
     (if NOT_IN_BOUNDS write_ptr write_len mem then Ok (OUT_OF_BOUNDS, mem)
      else (case currency_arg mem cread_ptr cread_len of
          Inl code \<Rightarrow> Ok (code, mem)
        | Inr currency \<Rightarrow> (case issuer_arg mem iread_ptr iread_len of
            Inl code \<Rightarrow> Ok (code, mem)
          | Inr issuer \<Rightarrow>
              if invalid_float float1 then Ok (INVALID_FLOAT, mem)
              else float_sto_write mem write_ptr write_len currency issuer float1 field_code)))"

section \<open>Reading\<close>

fun be_value :: "bytes \<Rightarrow> int" where
  "be_value [] = 0"
| "be_value (b # bs) = push_bit (8 * length bs) (uint b) + be_value bs"

text \<open>
  The amount itself. An XRP amount skips the first byte, so the six high bits of its 62 bit number,
  and two more from the second byte, are dropped.
\<close>

definition read_amount :: "(int \<Rightarrow> int) \<Rightarrow> bytes \<Rightarrow> int outcome" where
  "read_amount lg amt =
     (let is_xrp = amt ! 0 AND 0x80 = 0;
          neg = amt ! 0 AND 0x40 = 0;
          e = (if is_xrp then 0
               else push_bit 2 (uint (amt ! 0 AND 0x3F)) + uint (drop_bit 6 (amt ! 1)) - 97);
          mantissa = be_value ((amt ! 1 AND 0x3F) # take 6 (drop 2 amt))
      in if mantissa = 0 then Ok 0
         else obind (normalize_xfl False lg mantissa e neg) (\<lambda>(r, _, _). Ok r))"

text \<open>How many header bytes precede the amount; \<open>None\<close> if the object is too short for them.\<close>

definition amount_offset :: "u8 \<Rightarrow> int \<Rightarrow> int option" where
  "amount_offset first read_len =
     (if 8 < read_len then
        let hi = drop_bit 4 first; lo = first AND 0xF in
        if hi = 0 \<and> lo = 0 then if read_len < 11 then None else Some 3
        else if hi = 0 \<or> lo = 0 then if read_len < 10 then None else Some 2
        else Some 1
      else Some 0)"

definition float_sto_set :: "(int \<Rightarrow> int) \<Rightarrow> memory \<Rightarrow> u32 \<Rightarrow> u32 \<Rightarrow> int outcome" where
  "float_sto_set lg mem read_ptr read_len =
     (if read_len < 8 then Ok NOT_AN_OBJECT
      else if NOT_IN_BOUNDS read_ptr read_len mem then Ok OUT_OF_BOUNDS
      else
        let obj = mem_get mem (uint read_ptr) (uint read_len) in
        (case amount_offset (obj ! 0) (uint read_len) of
           None \<Rightarrow> Ok NOT_AN_OBJECT
         | Some off \<Rightarrow>
             if uint read_len - off < 8 then Ok NOT_AN_OBJECT
             else read_amount lg (drop (nat off) obj)))"

section \<open>Reading back what was written\<close>

lemma uint_of_int_u8: "uint (of_int x :: u8) = x mod 256"
  by (simp add: unsigned_of_int take_bit_eq_mod)

lemma length_be_bytes [simp]: "length (be_bytes n x) = n"
  by (induction n) simp_all

lemma be_value_be_bytes: "be_value (be_bytes n x) = x mod 2 ^ (8 * n)"
proof (induction n)
  case (Suc n)
  have "x mod 2 ^ (8 * Suc n) = 2 ^ (8 * n) * (x div 2 ^ (8 * n) mod 256) + x mod 2 ^ (8 * n)"
    using zmod_zmult2_eq [of 256 x "2 ^ (8 * n)"] by (simp add: power_add mult.commute)
  with Suc show ?case
    by (simp add: uint_of_int_u8 and_255 drop_bit_eq_div push_bit_eq_mult mult.commute)
qed simp

lemma u8_and_0: "n < 8 \<Longrightarrow> (w :: u8) AND 2 ^ n = 0 \<longleftrightarrow> even (uint w div 2 ^ n)"
  using bit_uint_iff [of w n] by (simp only: and_exp_eq_0_iff_not_bit bit_iff_odd [of "uint w" n]) auto

lemma uint_and_63: "uint ((w :: u8) AND 0x3F) = uint w mod 64"
  using take_bit_eq_mask [of 6 "uint w"] by (simp add: unsigned_and_eq take_bit_eq_mod mask_eq_exp_minus_1)

lemma uint_drop_6: "uint (drop_bit 6 (w :: u8)) = uint w div 64"
  unfolding drop_bit_eq_div uint_div_distrib by simp

text \<open>The two bytes that carry sign, exponent and the top of the mantissa.\<close>

lemma iou_head:
  assumes "in_xfl_range e m"
  shows "iou_bytes neg e m = (of_int ((if neg then 128 else 192) + (e + 97) div 4) :: u8)
      # of_int ((e + 97) mod 4 * 64 + m div 2 ^ 48) # be_bytes 6 m"
    and "(e + 97) div 4 < 64" "0 \<le> (e + 97) div 4" "0 \<le> m div 2 ^ 48" "m div 2 ^ 48 < 64"
proof -
  show b: "(e + 97) div 4 < 64" "0 \<le> (e + 97) div 4" "0 \<le> m div 2 ^ 48" "m div 2 ^ 48 < 64"
    using assms by (auto simp: in_xfl_range_def xfl_limits intro: int_div_less)
  have and3: "x AND 3 = x mod 4" for x :: int
    using take_bit_eq_mask [of 2 x] by (simp add: take_bit_eq_mod mask_eq_exp_minus_1)
  have "(of_int (m div 2 ^ 48) :: u8) AND 0x3F = of_int (m div 2 ^ 48)"
    using b(3,4) by (intro word_uint_eqI) (simp add: uint_and_63 uint_of_int_u8)
  moreover have "push_bit 6 (of_int ((e + 97) mod 4) :: u8) = of_int ((e + 97) mod 4 * 64)"
    by (simp add: push_bit_eq_mult)
  ultimately show "iou_bytes neg e m = (of_int ((if neg then 128 else 192) + (e + 97) div 4) :: u8)
      # of_int ((e + 97) mod 4 * 64 + m div 2 ^ 48) # be_bytes 6 m"
    by (simp add: iou_bytes_def Let_def drop_bit_eq_div and3)
qed

lemma normalize_xfl_id:
  assumes "in_xfl_range e m" and "lg m = 15"
  shows "normalize_xfl False lg m e neg = Ok (xfl_pack neg e m, m, e)"
  using assms make_float_pack [of e m neg]
  by (auto simp: normalize_xfl_def adjust_order_def raise_mantissa_def lower_mantissa_def finish_xfl_def
      in_xfl_range_def xfl_limits)

lemma read_iou_bytes:
  assumes r: "in_xfl_range e m"
  shows "read_amount lg (iou_bytes neg e m) = obind (normalize_xfl False lg m e neg) (\<lambda>(r, _, _). Ok r)"
proof -
  define b0 :: u8 where "b0 = of_int ((if neg then 128 else 192) + (e + 97) div 4)"
  define b1 :: u8 where "b1 = of_int ((e + 97) mod 4 * 64 + m div 2 ^ 48)"
  note head = iou_head(1) [OF r, of neg, folded b0_def b1_def] iou_head(2-5) [OF r]
  have b0: "uint b0 = (if neg then 128 else 192) + (e + 97) div 4"
    unfolding b0_def uint_of_int_u8 using head(2,3) by simp
  have b1: "uint b1 = (e + 97) mod 4 * 64 + m div 2 ^ 48"
    unfolding b1_def uint_of_int_u8 using head(4,5) pos_mod_bound [of 4 "e + 97"] pos_mod_sign [of 4 "e + 97"]
    by (intro mod_pos_pos_trivial) linarith+
  define x where "x = (e + 97) div 4"
  have x: "0 \<le> x" "x < 64"
    using head(2,3) by (simp_all only: x_def)
  have "uint b0 div 2 ^ 7 = 1" "uint b0 div 2 ^ 6 = (if neg then 2 else 3)"
    using x unfolding b0 x_def [symmetric] by auto
  moreover have "uint b0 mod 64 = (e + 97) div 4"
    using x mod_mult_self2 [of x 64 2] mod_mult_self2 [of x 64 3] unfolding b0 x_def [symmetric]
    by (simp add: add.commute)
  ultimately have flags: "b0 AND 0x80 \<noteq> 0" "b0 AND 0x40 = 0 \<longleftrightarrow> neg" "uint (b0 AND 0x3F) = (e + 97) div 4"
    using u8_and_0 [of 7 b0] u8_and_0 [of 6 b0] by (simp_all add: uint_and_63)
  have low: "uint (b1 AND 0x3F) = m div 2 ^ 48" "uint (drop_bit 6 b1) = (e + 97) mod 4"
    using head(4,5) by (simp_all add: uint_and_63 uint_drop_6 b1)
  have "be_value ((b1 AND 0x3F) # be_bytes 6 m) = m"
    using be_value_be_bytes [of 6 m] by (simp add: low push_bit_eq_mult)
  moreover have "push_bit 2 ((e + 97) div 4) + (e + 97) mod 4 - 97 = e"
    by (simp add: push_bit_eq_mult)
  moreover have "m \<noteq> 0"
    using r by (auto simp: in_xfl_range_def xfl_limits)
  ultimately show ?thesis
    by (simp add: read_amount_def head(1) Let_def flags low)
qed

text \<open>
  What an accurate logarithm must report for the mantissa of a float: order 15, except within a few
  units of a power of ten.
\<close>

lemma log10_accurate_order:
  assumes "log10_accurate lg" and "10 ^ 15 + 100 < m" and "m < 10 ^ 16 - 1000"
  shows "lg m = 15"
proof -
  define k where "k = nat (lg m)"
  have "0 < m" "m < 2 ^ 64"
    using assms(2,3) by simp_all
  then have lg: "lg m = int k" "10 ^ k * (10 ^ 13 - 1) \<le> m * 10 ^ 13" "m * (10 ^ 13 - 1) < 10 ^ Suc k * 10 ^ 13"
    using assms(1) unfolding log10_accurate_def k_def by auto
  have "15 \<le> k"
  proof (rule ccontr)
    assume "\<not> 15 \<le> k"
    then have "(10 :: int) ^ Suc k \<le> 10 ^ 15"
      by (intro power_increasing) auto
    with lg(3) assms(2) show False by simp
  qed
  moreover have "k < 16"
  proof (rule ccontr)
    assume "\<not> k < 16"
    then have "(10 :: int) ^ 16 \<le> 10 ^ k"
      by (intro power_increasing) auto
    with lg(2) assms(3) show False by simp
  qed
  ultimately show ?thesis using lg(1) by simp
qed

text \<open>The bytes of the amount, written in the short form and read again.\<close>

lemma short_form_bytes:
  assumes f: "valid_float f" and out: "amount_bytes False f = Ok (Inr out)" "length out = 8"
    and bounds: "\<not> NOT_IN_BOUNDS ptr 8 mem"
  defines "mem' \<equiv> mem_put mem (uint ptr) out"
  shows "float_sto mem ptr 8 0 0 0 0 f 0xFFFFFFFF = Ok (8, mem')"
    and "float_sto_set lg mem' ptr 8 = read_amount lg out"
    and "length mem' = length mem"
    and "\<forall>i < length mem. int i < uint ptr \<or> uint ptr + 8 \<le> int i \<longrightarrow> mem' ! i = mem ! i"
proof -
  have b: "uint ptr + 8 \<le> int (length mem)"
    using in_bounds [OF bounds] by simp
  show "float_sto mem ptr 8 0 0 0 0 f 0xFFFFFFFF = Ok (8, mem')"
    using bounds f b out by (simp add: float_sto_def currency_arg_def issuer_arg_def float_sto_write_def Let_def
        header_size_def poke_def WRITE_WASM_MEMORY_def mem'_def)
  show len: "length mem' = length mem"
    using b out(2) by (simp add: mem'_def)
  then have "\<not> NOT_IN_BOUNDS ptr 8 mem'"
    using bounds by (simp add: NOT_IN_BOUNDS_def)
  moreover have "mem_get mem' (uint ptr) 8 = out"
    using mem_get_put [of "uint ptr" out mem] b out(2) by (simp add: mem'_def)
  ultimately show "float_sto_set lg mem' ptr 8 = read_amount lg out"
    by (simp add: float_sto_set_def amount_offset_def)
  show "\<forall>i < length mem. int i < uint ptr \<or> uint ptr + 8 \<le> int i \<longrightarrow> mem' ! i = mem ! i"
    using b out(2) nth_mem_put_outside [of "uint ptr" out mem] by (auto simp: mem'_def)
qed

lemma zero_read_back: "read_amount lg zero_bytes = Ok 0"
proof -
  have "be_value ((zero_bytes ! 1 AND 0x3F) # take 6 (drop 2 zero_bytes)) = 0"
    by code_simp
  then show ?thesis by (simp add: read_amount_def Let_def)
qed

lemma iou_read_back:
  assumes lg: "log10_accurate lg" and r: "in_xfl_range e m"
  shows "\<exists>r. read_amount lg (iou_bytes neg e m) = Ok r \<and> normalized_to neg (of_int m * 10 powi e) r
    \<and> (lg m = 15 \<longrightarrow> r = xfl_pack neg e m)"
proof -
  have "0 < m" "m < 2 ^ 64" "- (2 ^ 31) + 20 < e" "e < 2 ^ 31 - 20"
    using r by (simp_all add: in_xfl_range_def xfl_limits)
  then obtain m1 e1 where norm: "normalize_xfl False lg m e neg = Ok (finish_xfl False m1 e1 neg)"
    and parts: "minMantissa \<le> m1" "m1 \<le> maxMantissa"
      "\<bar>of_int m1 * 10 powi e1 - of_int m * 10 powi e\<bar> * (10 ^ 15 - 1) \<le> (of_int m * 10 powi e :: rat)"
    by (elim normalize_xfl_parts [OF lg, where sman = False and neg = neg]) auto
  obtain x m' e' where fin: "finish_xfl False m1 e1 neg = (x, m', e')"
    using prod_cases3 by blast
  show ?thesis
    using norm fin finish_xfl_normalized [OF parts fin] normalize_xfl_id [OF r, of lg neg]
    by (auto simp: read_iou_bytes [OF r])
qed

text \<open>
  C35: an amount written is read back. When a valid float is written in the short form into eight bytes
  of memory, the call returns 8 and touches no other byte. With a logarithm of the stated accuracy,
  reading those bytes returns: the float itself, if it is zero, or its mantissa is more than 100 above
  \<open>10 ^ 15\<close> and more than 1000 below \<open>10 ^ 16\<close>, or the logarithm reports the order 15 of the mantissa;
  and otherwise the float that the normalisation of its parts gives, within one part in \<open>10 ^ 15 - 1\<close>
  of it, with zero and \<^verbatim>\<open>XFL_OVERFLOW\<close> at the ends of the range only.
\<close>

theorem float_sto_roundtrip:
  assumes lg: "log10_accurate lg" and f: "valid_float f" and bounds: "\<not> NOT_IN_BOUNDS ptr 8 mem"
  shows "\<exists>mem' r. float_sto mem ptr 8 0 0 0 0 f 0xFFFFFFFF = Ok (8, mem')
    \<and> float_sto_set lg mem' ptr 8 = Ok r
    \<and> (f = 0 \<or> lg (get_mantissa f) = 15
       \<or> 10 ^ 15 + 100 < get_mantissa f \<and> get_mantissa f < 10 ^ 16 - 1000 \<longrightarrow> r = f)
    \<and> (f \<noteq> 0 \<longrightarrow> normalized_to (xfl_value f < 0) \<bar>xfl_value f\<bar> r)
    \<and> length mem' = length mem
    \<and> (\<forall>i < length mem. int i < uint ptr \<or> uint ptr + 8 \<le> int i \<longrightarrow> mem' ! i = mem ! i)"
  using f
proof (cases rule: valid_floatE)
  case 1
  have out: "amount_bytes False f = Ok (Inr zero_bytes)" "length zero_bytes = 8"
    by (simp_all add: 1 amount_bytes_def Let_def get_mantissa_def zero_bytes_def)
  show ?thesis
    using short_form_bytes(1,3,4) [OF f out bounds] short_form_bytes(2) [OF f out bounds, of lg]
      zero_read_back [of lg] 1 by auto
next
  case (2 neg e m)
  have m: "0 < m"
    using 2(1) by (simp add: in_xfl_range_def xfl_limits)
  have out: "amount_bytes False f = Ok (Inr (iou_bytes neg e m))" "length (iou_bytes neg e m) = 8"
    using 2 m by (simp_all add: amount_bytes_def Let_def iou_bytes_def)
  have v: "xfl_value f < 0 \<longleftrightarrow> neg" "\<bar>xfl_value f\<bar> = of_int m * 10 powi e" "get_mantissa f = m"
    using 2 m by (simp_all add: mult_less_0_iff abs_mult)
  have "lg m = 15" if "lg m = 15 \<or> 10 ^ 15 + 100 < m \<and> m < 10 ^ 16 - 1000"
    using that log10_accurate_order [OF lg] by blast
  moreover obtain r where "read_amount lg (iou_bytes neg e m) = Ok r" "normalized_to neg (of_int m * 10 powi e) r"
    "lg m = 15 \<longrightarrow> r = f"
    using iou_read_back [OF lg 2(1), of neg] 2(2) by blast
  moreover have "f \<noteq> 0"
    using 2 xfl_pack_bounds(1) [OF 2(1), of neg] by simp
  ultimately show ?thesis
    using short_form_bytes(1,3,4) [OF f out bounds] short_form_bytes(2) [OF f out bounds, of lg] unfolding v by metis
qed

theorem float_sto_roundtrip_witness:
  "\<exists>mem'. float_sto (replicate 12 0) 2 8 0 0 0 0 (make_float 1234567890123456 3 True) 0xFFFFFFFF = Ok (8, mem')
    \<and> float_sto_set log10_rounded mem' 2 8 = Ok (make_float 1234567890123456 3 True)
    \<and> length mem' = 12 \<and> mem' ! 1 = 0 \<and> mem' ! 10 = 0"
proof -
  let ?f = "make_float 1234567890123456 3 True"
  have f: "valid_float ?f" "get_mantissa ?f = 1234567890123456"
    by (simp_all add: valid_float_def) code_simp+
  have "\<not> NOT_IN_BOUNDS 2 8 (replicate 12 0)"
    by (simp add: NOT_IN_BOUNDS_def)
  from float_sto_roundtrip [OF log10_rounded_accurate f(1) this] obtain mem'
    where mem': "float_sto (replicate 12 0) 2 8 0 0 0 0 ?f 0xFFFFFFFF = Ok (8, mem')"
      "float_sto_set log10_rounded mem' 2 8 = Ok ?f" "length mem' = 12"
    and frame: "\<forall>i < 12. int i < uint (2 :: u32) \<or> uint (2 :: u32) + 8 \<le> int i \<longrightarrow> mem' ! i = replicate 12 0 ! i"
    using f(2) by auto
  have "mem' ! 1 = 0" "mem' ! 10 = 0"
    using frame [rule_format, of 1] frame [rule_format, of 10] by (simp_all add: nth_replicate)
  with mem' show ?thesis by blast
qed

text \<open>
  The condition on the mantissa is needed. Where the logarithm of \<open>9999999999999999\<close> is rounded up to
  16, the amount is read back as \<open>10 ^ 16\<close>, and at the largest exponent as an overflow.
\<close>

lemma float_sto_set_changes:
  "read_amount log10_rounded (iou_bytes False 0 9999999999999999) = Ok (make_float (10 ^ 15) 1 False)"
  "read_amount log10_rounded (iou_bytes False 80 9999999999999999) = Ok XFL_OVERFLOW"
  by code_simp+

text \<open>
  The header written for a type code from 16 on with a field code below 16 has the field code in the
  high half of its first byte, where a serialized object has the type code; and an XRP amount of
  \<open>2 ^ 54\<close> drops or more is read without its high bits.
\<close>

lemma field_header_misplaced: "field_header 17 3 = [0x30, 17]"
  by code_simp

lemma read_xrp_truncated: "read_amount log10_exact (xrp_bytes False (2 ^ 54)) = Ok 0"
  by code_simp

end
