(* ===== verification/Sto.thy ===== *)
theory Sto
  imports Hook_Memory
begin

unbundle bit_operations_syntax

text \<open>
  Serialized objects as hooks see them: \<^verbatim>\<open>get_stobject_length\<close> and the functions \<^verbatim>\<open>sto_subfield\<close>,
  \<^verbatim>\<open>sto_subarray\<close>, \<^verbatim>\<open>sto_emplace\<close>, \<^verbatim>\<open>sto_erase\<close> and \<^verbatim>\<open>sto_validate\<close> of
  \<^verbatim>\<open>src/ripple/app/hook/impl/applyHook.cpp\<close>.

  The parser works between two pointers, so it is a function of the bytes between them; a read
  at or past the end pointer is \<open>Undef\<close>. Offsets are relative to the start pointer.
\<close>

section \<open>One field\<close>

text \<open>
  What the parser reports: a negative code, or the length of the whole field with its type, its
  field code, and where its payload starts and how long it is.
\<close>

datatype sto_parse =
    StoErr int
  | StoField (sto_length: int) (sto_type: int) (sto_field: int) (payload_start: int) (payload_length: int)

text \<open>Type and field code, in one to three bytes, and the offset after them.\<close>

definition sto_header :: "bytes \<Rightarrow> (int + int \<times> int \<times> int) outcome" where
  "sto_header b =
     obind (byte_at b 0) (\<lambda>x.
     let high = uint (drop_bit 4 x); low = uint (x AND 0xF); end = int (length b) in
     if end \<le> 1 then Ok (Inl (- 1))
     else
       obind
         (if 0 < high \<and> 0 < low then Ok (Inr (high, low, 1))
          else if 0 < high then obind (byte_at b 1) (\<lambda>f. Ok (Inr (high, uint f, 2)))
          else if 0 < low then obind (byte_at b 1) (\<lambda>t. Ok (Inr (uint t, low, 2)))
          else obind (byte_at b 1) (\<lambda>t.
            if end \<le> 2 then Ok (Inl (- 1))
            else obind (byte_at b 2) (\<lambda>f. Ok (Inr (uint t, uint f, 3)))))
         (\<lambda>r. case r of
             Inl code \<Rightarrow> Ok (Inl code)
           | Inr (type, field, pos) \<Rightarrow>
               if end \<le> pos then Ok (Inl (- 1)) else Ok (Inr (type, field, pos))))"

text \<open>The length prefix of a variable length type, in one to three bytes.\<close>

definition sto_vl_length :: "bytes \<Rightarrow> int \<Rightarrow> (int + int \<times> int) outcome" where
  "sto_vl_length b pos =
     obind (byte_at b pos) (\<lambda>l.
     let length1 = uint l; pos = pos + 1; end = int (length b) in
     if end \<le> pos then Ok (Inl (- 1))
     else if length1 < 193 then Ok (Inr (length1, pos))
     else if 192 < length1 \<and> length1 < 241 then
       obind (byte_at b pos) (\<lambda>x.
       if end < pos + 1 then Ok (Inl (- 1))
       else Ok (Inr ((length1 - 193) * 256 + (uint x + 193), pos + 1)))
     else
       obind (byte_at b pos) (\<lambda>b2.
       if end \<le> pos + 1 then Ok (Inl (- 1))
       else
         obind (byte_at b (pos + 1)) (\<lambda>x.
         if end \<le> pos + 2 then Ok (Inl (- 1))
         else Ok (Inr ((length1 - 241) * 65536 + (12481 + uint b2 * 256 + uint x), pos + 2)))))"

text \<open>The payload length of the other types, -1 for objects and arrays.\<close>

definition sto_fixed_length :: "bytes \<Rightarrow> int \<Rightarrow> int \<Rightarrow> int outcome" where
  "sto_fixed_length b type pos =
     (if (1 \<le> type \<and> type \<le> 5) \<or> type = 16 \<or> type = 17 then
        Ok (if type = 1 then 2 else if type = 2 then 4 else if type = 3 then 8
            else if type = 4 then 16 else if type = 5 then 32 else if type = 16 then 1
            else if type = 17 then 20 else - 1)
      else if type = 6 then
        obind (byte_at b pos) (\<lambda>x. Ok (if drop_bit 6 x = 1 then 8 else 48))
      else Ok (- 1))"

definition sto_payload :: "bytes \<Rightarrow> int \<Rightarrow> int \<Rightarrow> (int + int \<times> int) outcome" where
  "sto_payload b type pos =
     (if type = 8 \<or> type = 7 \<or> type = 18 \<or> type = 19 then sto_vl_length b pos
      else obind (sto_fixed_length b type pos) (\<lambda>n. Ok (Inr (n, pos))))"

text \<open>
  The parser, nested at \<open>depth\<close>, and the loop over the members of an object or array, of which
  \<open>n\<close> turns are left.
\<close>

function get_stobject_length :: "bytes \<Rightarrow> nat \<Rightarrow> sto_parse outcome"
  and sto_members :: "bytes \<Rightarrow> int \<Rightarrow> int \<Rightarrow> int \<Rightarrow> int \<Rightarrow> nat \<Rightarrow> nat \<Rightarrow> sto_parse outcome"
where
  "get_stobject_length b depth =
     (if 10 < depth then Ok (StoErr (- 4))
      else obind (sto_header b) (\<lambda>h. case h of
          Inl code \<Rightarrow> Ok (StoErr code)
        | Inr (type, field, pos) \<Rightarrow>
            if type < 1 \<or> 19 < type \<or> (9 \<le> type \<and> type \<le> 13) then Ok (StoErr (- 2))
            else obind (sto_payload b type pos) (\<lambda>p. case p of
                Inl code \<Rightarrow> Ok (StoErr code)
              | Inr (len, pos) \<Rightarrow>
                  if - 1 < len then Ok (StoField (len + pos) type field pos len)
                  else if type = 15 \<or> type = 14 then sto_members b type field pos pos depth 1024
                  else Ok (StoErr (- 3)))))"
| "sto_members b type field start pos depth 0 = Ok (StoErr (- 5))"
| "sto_members b type field start pos depth (Suc n) =
     obind (get_stobject_length (drop (nat pos) b) (Suc depth)) (\<lambda>r. case r of
        StoErr _ \<Rightarrow> Ok (StoErr (- 1))
      | StoField sublength _ _ _ _ \<Rightarrow>
          let pos = pos + sublength in
          if int (length b) \<le> pos then Ok (StoErr (- 1))
          else obind (byte_at b pos) (\<lambda>x.
            if (x = 0xE1 \<and> type = 14) \<or> (x = 0xF1 \<and> type = 15)
            then Ok (StoField (pos + 1) type field start (pos - start))
            else sto_members b type field start pos depth n))"
  by pat_completeness auto
termination
  by (relation "measures [\<lambda>x. case x of Inl (b, depth) \<Rightarrow> 2 * (12 - depth)
                            | Inr (b, t, f, s, u, depth, n) \<Rightarrow> 2 * (12 - depth) - 1,
                          \<lambda>x. case x of Inl _ \<Rightarrow> 0 | Inr (b, t, f, s, u, depth, n) \<Rightarrow> n]") auto

declare get_stobject_length.simps [simp del] sto_members.simps [simp del]

section \<open>Looking up\<close>

definition joined :: "int \<Rightarrow> int \<Rightarrow> int" where
  "joined offset len = push_bit 32 offset + take_bit 32 len"

text \<open>The loop of \<^verbatim>\<open>sto_subfield\<close> over the object's bytes, with \<open>n\<close> turns left.\<close>

primrec subfield_loop :: "nat \<Rightarrow> bytes \<Rightarrow> int \<Rightarrow> int \<Rightarrow> int outcome" where
  "subfield_loop 0 obj field_id pos =
     Ok (if pos \<noteq> int (length obj) then PARSE_ERROR else DOESNT_EXIST)"
| "subfield_loop (Suc n) obj field_id pos =
     (if pos < int (length obj) then
        obind (get_stobject_length (drop (nat pos) obj) 0) (\<lambda>r. case r of
          StoErr _ \<Rightarrow> Ok PARSE_ERROR
        | StoField len type field start plen \<Rightarrow>
            if push_bit 16 type + field = field_id then
              if type = 15 then Ok (joined pos len) else Ok (joined (pos + start) plen)
            else subfield_loop n obj field_id (pos + len))
      else Ok (if pos \<noteq> int (length obj) then PARSE_ERROR else DOESNT_EXIST))"

definition sto_subfield :: "memory \<Rightarrow> u32 \<Rightarrow> u32 \<Rightarrow> u32 \<Rightarrow> int outcome" where
  "sto_subfield mem read_ptr read_len field_id =
     (if NOT_IN_BOUNDS read_ptr read_len mem then Ok OUT_OF_BOUNDS
      else if read_len < 2 then Ok TOO_SMALL
      else subfield_loop 1024 (mem_get mem (uint read_ptr) (uint read_len)) (uint field_id) 0)"

text \<open>
  The loop of \<^verbatim>\<open>sto_subarray\<close> between \<open>pos\<close> and the end of \<open>obj\<close>; \<open>i\<close> counts the elements.
  Offsets count from the start of the object, before a wrapping byte is skipped.
\<close>

primrec subarray_loop :: "nat \<Rightarrow> bytes \<Rightarrow> int \<Rightarrow> int \<Rightarrow> int \<Rightarrow> int outcome" where
  "subarray_loop 0 obj index_id i pos =
     Ok (if pos \<noteq> int (length obj) then PARSE_ERROR else DOESNT_EXIST)"
| "subarray_loop (Suc n) obj index_id i pos =
     (if pos < int (length obj) then
        obind (get_stobject_length (drop (nat pos) obj) 0) (\<lambda>r. case r of
          StoErr _ \<Rightarrow> Ok PARSE_ERROR
        | StoField len type field start plen \<Rightarrow>
            if i = index_id then Ok (push_bit 32 pos + len)
            else subarray_loop n obj index_id (i + 1) (pos + len))
      else Ok (if pos \<noteq> int (length obj) then PARSE_ERROR else DOESNT_EXIST))"

definition sto_subarray :: "memory \<Rightarrow> u32 \<Rightarrow> u32 \<Rightarrow> u32 \<Rightarrow> int outcome" where
  "sto_subarray mem read_ptr read_len index_id =
     (if NOT_IN_BOUNDS read_ptr read_len mem then Ok OUT_OF_BOUNDS
      else if read_len < 2 then Ok TOO_SMALL
      else
        let obj = mem_get mem (uint read_ptr) (uint read_len);
            wrapped = (obj ! 0 AND 0xF0 = 0xF0);
            pos = (if wrapped then 1 else 0);
            obj = (if wrapped then butlast obj else obj)
        in if int (length obj) \<le> pos then Ok PARSE_ERROR
           else subarray_loop 1024 obj (uint index_id) 0 pos)"

section \<open>Validation\<close>

primrec validate_loop :: "nat \<Rightarrow> bytes \<Rightarrow> int \<Rightarrow> int outcome" where
  "validate_loop 0 obj pos = Ok (if pos = int (length obj) then 1 else 0)"
| "validate_loop (Suc n) obj pos =
     (if pos < int (length obj) then
        obind (get_stobject_length (drop (nat pos) obj) 0) (\<lambda>r. case r of
          StoErr _ \<Rightarrow> Ok 0
        | StoField len type field start plen \<Rightarrow> validate_loop n obj (pos + len))
      else Ok (if pos = int (length obj) then 1 else 0))"

definition sto_validate :: "memory \<Rightarrow> u32 \<Rightarrow> u32 \<Rightarrow> int outcome" where
  "sto_validate mem read_ptr read_len =
     (if NOT_IN_BOUNDS read_ptr read_len mem then Ok OUT_OF_BOUNDS
      else if read_len < 2 then Ok TOO_SMALL
      else validate_loop 1024 (mem_get mem (uint read_ptr) (uint read_len)) 0)"

section \<open>Inserting and removing\<close>

text \<open>\<^verbatim>\<open>overlapping_memory\<close> on a list of intervals, each given by its two ends.\<close>

fun region_pairs :: "int list \<Rightarrow> (int \<times> int) list" where
  "region_pairs (a # b # rs) = (a, b) # region_pairs rs"
| "region_pairs _ = []"

definition overlapping_memory :: "int list \<Rightarrow> bool" where
  "overlapping_memory regions =
     (let rs = region_pairs regions in
      list_ex (\<lambda>i. list_ex (\<lambda>j. j \<noteq> i \<and> \<not> (snd (rs ! j) \<le> fst (rs ! i) \<or> snd (rs ! i) \<le> fst (rs ! j)))
        [0..<length rs]) [0..<length rs])"

text \<open>
  The scan for the canonical place: where the new field begins and where the rest of the object
  resumes, or an error.
\<close>

primrec emplace_loop :: "nat \<Rightarrow> bytes \<Rightarrow> int \<Rightarrow> int \<Rightarrow> (int + int \<times> int) outcome" where
  "emplace_loop 0 obj field_id pos =
     Ok (if int (length obj) < pos then Inl PARSE_ERROR else Inr (int (length obj), int (length obj)))"
| "emplace_loop (Suc n) obj field_id pos =
     (if pos < int (length obj) then
        obind (get_stobject_length (drop (nat pos) obj) 0) (\<lambda>r. case r of
          StoErr _ \<Rightarrow> Ok (Inl PARSE_ERROR)
        | StoField len type field start plen \<Rightarrow>
            if push_bit 16 type + field = field_id then Ok (Inr (pos, pos + len))
            else if field_id < push_bit 16 type + field then Ok (Inr (pos, pos))
            else emplace_loop n obj field_id (pos + len))
      else Ok (if int (length obj) < pos then Inl PARSE_ERROR else Inr (int (length obj), int (length obj))))"

text \<open>
  The successive copies to the destination. Each reads its source from the memory as it is then;
  an empty source is skipped.
\<close>

fun copy_all :: "memory \<Rightarrow> int \<Rightarrow> int \<Rightarrow> int \<Rightarrow> (int \<times> int) list \<Rightarrow> int \<times> memory" where
  "copy_all mem write_ptr write_len written [] = (written, mem)"
| "copy_all mem write_ptr write_len written ((ptr, len) # srcs) =
     (if 0 < len then
        (case WRITE_WASM_MEMORY mem (write_ptr + written) (write_len - written) (mem_get mem ptr len) of
           None \<Rightarrow> (OUT_OF_BOUNDS, mem)
         | Some (n, mem) \<Rightarrow> copy_all mem write_ptr write_len (written + n) srcs)
      else copy_all mem write_ptr write_len written srcs)"

text \<open>The sums of pointers and lengths are taken in 32 bits.\<close>

definition sto_emplace :: "memory \<Rightarrow> u32 \<Rightarrow> u32 \<Rightarrow> u32 \<Rightarrow> u32 \<Rightarrow> u32 \<Rightarrow> u32 \<Rightarrow> u32 \<Rightarrow> api_result" where
  "sto_emplace mem write_ptr write_len sread_ptr sread_len fread_ptr fread_len field_id =
     (if NOT_IN_BOUNDS write_ptr write_len mem then Ok (OUT_OF_BOUNDS, mem)
      else if NOT_IN_BOUNDS sread_ptr sread_len mem then Ok (OUT_OF_BOUNDS, mem)
      else if NOT_IN_BOUNDS fread_ptr fread_len mem then Ok (OUT_OF_BOUNDS, mem)
      else if write_len < sread_len + fread_len then Ok (TOO_SMALL, mem)
      else if 16384 < sread_len then Ok (TOO_BIG, mem)
      else if sread_len < 2 then Ok (TOO_SMALL, mem)
      else if fread_len = 0 \<and> fread_ptr = 0
        \<and> overlapping_memory [uint write_ptr, uint (write_ptr + write_len), uint sread_ptr, uint (sread_ptr + sread_len)]
        then Ok (MEM_OVERLAP, mem)
      else if \<not> (fread_len = 0 \<and> fread_ptr = 0) \<and> 4096 < fread_len then Ok (TOO_BIG, mem)
      else if \<not> (fread_len = 0 \<and> fread_ptr = 0) \<and> fread_len < 2 then Ok (TOO_SMALL, mem)
      else if \<not> (fread_len = 0 \<and> fread_ptr = 0)
        \<and> overlapping_memory [uint write_ptr, uint (write_ptr + write_len), uint sread_ptr, uint (sread_ptr + sread_len),
            uint fread_ptr, uint (fread_ptr + fread_len)]
        then Ok (MEM_OVERLAP, mem)
      else
        obind (emplace_loop 1024 (mem_get mem (uint sread_ptr) (uint sread_len)) (uint field_id) 0) (\<lambda>r. case r of
          Inl code \<Rightarrow> Ok (code, mem)
        | Inr (inject_start, inject_end) \<Rightarrow>
            Ok (copy_all mem (uint write_ptr) (uint write_len) 0
              [(uint sread_ptr, inject_start), (uint fread_ptr, uint fread_len),
               (uint sread_ptr + inject_end, uint sread_len - inject_end)])))"

definition sto_erase :: "memory \<Rightarrow> u32 \<Rightarrow> u32 \<Rightarrow> u32 \<Rightarrow> u32 \<Rightarrow> u32 \<Rightarrow> api_result" where
  "sto_erase mem write_ptr write_len read_ptr read_len field_id =
     obind (sto_emplace mem write_ptr write_len read_ptr read_len 0 0 field_id) (\<lambda>(ret, mem).
     if 0 < ret \<and> ret = uint read_len then Ok (DOESNT_EXIST, mem) else Ok (ret, mem))"

end
