(* ===== verification/Sto_Props.thy ===== *)
theory Sto_Props
  imports Sto
begin

unbundle bit_operations_syntax

text \<open>
  What the parser of serialized objects guarantees: it reads no byte at or past the end pointer,
  what it reports is consistent, and its verdict on a field depends on that field's bytes only.
\<close>

section \<open>The parts of the parser\<close>

lemma uint_u8_bounds: "- 1 < uint (x :: u8)" "uint (x :: u8) \<le> 255"
  using uint_bounded [of x] by (auto intro: less_le_trans [of _ 0])

lemma byte_at_in [simp]: "0 \<le> i \<Longrightarrow> i < int (length b) \<Longrightarrow> byte_at b i = Ok (b ! nat i)"
  by (simp add: byte_at_def below_size_def)

lemma sto_header_total: "b \<noteq> [] \<Longrightarrow> \<exists>r. sto_header b = Ok r"
  by (cases b) (auto simp: sto_header_def Let_def)

lemma sto_header_shape:
  assumes "sto_header b = Ok (Inr (type, field, pos))"
  shows "1 \<le> pos" "pos \<le> 3" "pos < int (length b)" "0 \<le> field" "field \<le> 255"
  using assms uint_u8_bounds [of "b ! 0 AND 0xF"] uint_u8_bounds [of "b ! 1"] uint_u8_bounds [of "b ! 2"]
  by (auto simp: sto_header_def Let_def outcome_simps split: if_splits)

lemma sto_vl_length_total: "0 \<le> pos \<Longrightarrow> pos < int (length b) \<Longrightarrow> \<exists>r. sto_vl_length b pos = Ok r"
  by (auto simp: sto_vl_length_def Let_def)

lemma sto_vl_length_shape:
  assumes "sto_vl_length b pos = Ok (Inr (len, pos'))"
  shows "0 \<le> len" "pos < pos'" "pos' \<le> pos + 3" "pos' \<le> int (length b)" "len \<le> 1064752"
  using assms uint_u8_bounds [of "b ! nat pos"] uint_u8_bounds [of "b ! nat (pos + 1)"] uint_u8_bounds [of "b ! nat (2 + pos)"]
  by (auto simp: sto_vl_length_def Let_def outcome_simps below_size_def split: if_splits)

lemma sto_payload_total: "0 \<le> pos \<Longrightarrow> pos < int (length b) \<Longrightarrow> \<exists>r. sto_payload b type pos = Ok r"
  using sto_vl_length_total by (auto simp: sto_payload_def sto_fixed_length_def)

lemma sto_payload_shape:
  assumes "sto_payload b type pos = Ok (Inr (len, pos'))" and "pos < int (length b)" and "0 \<le> pos"
  shows "- 1 \<le> len" "pos \<le> pos'" "pos' \<le> pos + 3" "pos' \<le> int (length b)" "len = 0 \<Longrightarrow> pos < pos'" "len = - 1 \<Longrightarrow> pos' = pos"
    "len \<le> 1064752"
  using assms sto_vl_length_shape [of b pos len pos']
  by (auto simp: sto_payload_def sto_fixed_length_def outcome_simps split: if_splits)

section \<open>Safety of the parser\<close>

text \<open>What a field report satisfies.\<close>

definition field_shape :: "bytes \<Rightarrow> sto_parse \<Rightarrow> bool" where
  "field_shape b r \<longleftrightarrow>
     (case r of
        StoErr code \<Rightarrow> code < 0
      | StoField len type field start plen \<Rightarrow>
          1 \<le> type \<and> type \<le> 19 \<and> 0 \<le> field \<and> field \<le> 255 \<and>
          1 \<le> start \<and> start \<le> int (length b) \<and> 0 \<le> plen \<and> 2 \<le> len \<and>
          (if type = 14 \<or> type = 15 then len = start + plen + 1 \<and> len \<le> int (length b)
           else len = start + plen \<and> start \<le> 6 \<and> plen \<le> 1064752))"

lemma sto_parse_safe:
  "b \<noteq> [] \<Longrightarrow> \<exists>r. get_stobject_length b depth = Ok r \<and> field_shape b r"
  "1 \<le> start \<Longrightarrow> start \<le> pos \<Longrightarrow> pos < int (length b) \<Longrightarrow> 0 \<le> field \<Longrightarrow> field \<le> 255 \<Longrightarrow> type = 14 \<or> type = 15 \<Longrightarrow>
     \<exists>r. sto_members b type field start pos depth n = Ok r \<and> field_shape b r"
proof (induction b depth and b type field start pos depth n rule: get_stobject_length_sto_members.induct)
  case (1 b depth)
  show ?case
  proof (cases "10 < depth")
    case False
    obtain h where h: "sto_header b = Ok h"
      using sto_header_total 1(2) by blast
    show ?thesis
    proof (cases h)
      case (Inl code)
      with h have "code = - 1"
        by (auto simp: sto_header_def Let_def outcome_simps split: if_splits)
      with False h Inl show ?thesis
        by (simp add: get_stobject_length.simps field_shape_def)
    next
      case (Inr x)
      obtain type field pos where x: "x = (type, field, pos)"
        by (cases x)
      note hs = sto_header_shape [OF h [unfolded Inr x]]
      obtain p where p: "sto_payload b type pos = Ok p"
        using sto_payload_total hs by fastforce
      show ?thesis
      proof (cases "type < 1 \<or> 19 < type \<or> (9 \<le> type \<and> type \<le> 13)")
        case ok: False
        show ?thesis
        proof (cases p)
          case (Inl code)
          with p have "code = - 1"
            by (auto simp: sto_payload_def sto_vl_length_def Let_def outcome_simps split: if_splits)
          with False h Inr x p Inl ok show ?thesis
            by (simp add: get_stobject_length.simps field_shape_def)
        next
          case p': (Inr y)
          obtain len pos' where y: "y = (len, pos')"
            by (cases y)
          have ps: "- 1 \<le> len" "pos \<le> pos'" "pos' \<le> pos + 3" "pos' \<le> int (length b)" "len = 0 \<Longrightarrow> pos < pos'"
              "len = - 1 \<Longrightarrow> pos' = pos" "len \<le> 1064752"
            using sto_payload_shape [OF p [unfolded p' y]] hs by auto
          have t: "type = 14 \<or> type = 15 \<Longrightarrow> len = - 1"
            using p p' y by (auto simp: sto_payload_def sto_fixed_length_def)
          have nested: "\<exists>r. sto_members b type field pos pos depth 1024 = Ok r \<and> field_shape b r"
            if "type = 14 \<or> type = 15"
            using 1(1) [OF False h Inr] p p' y x ok hs ps t that by auto
          show ?thesis
          proof (cases "- 1 < len")
            case True
            then have "2 \<le> len + pos'"
              using ps hs by (cases "len = 0") auto
            with True False h Inr x p p' y ok hs ps t show ?thesis
              by (auto simp: get_stobject_length.simps field_shape_def)
          next
            case neg: False
            show ?thesis
            proof (cases "type = 14 \<or> type = 15")
              case True
              obtain r where "sto_members b type field pos pos depth 1024 = Ok r" "field_shape b r"
                using nested [OF True] by blast
              with True neg False h Inr x p p' y ok ps t show ?thesis
                by (auto simp: get_stobject_length.simps)
            next
              case other: False
              with neg False h Inr x p p' y ok show ?thesis
                by (simp add: get_stobject_length.simps field_shape_def)
            qed
          qed
        qed
      qed (use False h Inr x p in \<open>auto simp: get_stobject_length.simps field_shape_def\<close>)
    qed
  qed (simp add: get_stobject_length.simps field_shape_def)
next
  case (2 b type field start pos depth)
  then show ?case
    by (simp add: sto_members.simps field_shape_def)
next
  case (3 b type field start pos depth n)
  obtain r where r: "get_stobject_length (drop (nat pos) b) (Suc depth) = Ok r" "field_shape (drop (nat pos) b) r"
    using 3(1) 3(3-) by (fastforce simp: nat_le_iff not_le nat_less_iff)
  show ?case
  proof (cases r)
    case (StoField sub st sf ss sp)
    have "2 \<le> sub"
      using r(2) StoField by (simp add: field_shape_def)
    then show ?thesis
      using r StoField 3(2) [OF r(1) StoField refl] 3(3-)
      by (auto simp: sto_members.simps Let_def field_shape_def)
  qed (use r in \<open>simp add: sto_members.simps field_shape_def\<close>)
qed

section \<open>Locality\<close>

lemma nth_agree: "take n b' = take n b \<Longrightarrow> i < n \<Longrightarrow> b' ! i = b ! i"
  by (metis nth_take)

lemma sto_header_local:
  assumes "sto_header b = Ok (Inr (type, field, pos))" and "take n b' = take n b" and "nat pos \<le> n"
    and "pos < int (length b')"
  shows "sto_header b' = Ok (Inr (type, field, pos))"
proof -
  note shape = sto_header_shape [OF assms(1)]
  have len: "\<not> int (length b') \<le> 1" "b \<noteq> []" "b' \<noteq> []"
    using shape assms(4) by auto
  have agree: "i < nat pos \<Longrightarrow> b' ! i = b ! i" for i
    using nth_agree [OF assms(2)] assms(3) by simp
  have "pos = 1 \<or> pos = 2 \<or> pos = 3"
    using shape by auto
  then show ?thesis
    using assms(1,4) shape len agree [of 0] agree [of 1] agree [of 2]
    by (elim disjE) (auto simp: sto_header_def Let_def outcome_simps split: if_splits)
qed

lemma sto_vl_length_local:
  assumes "sto_vl_length b pos = Ok (Inr (len, pos'))" and "take n b' = take n b" and "nat pos' \<le> n"
    and "pos' < int (length b')" and "0 \<le> pos"
  shows "sto_vl_length b' pos = Ok (Inr (len, pos'))"
proof -
  note shape = sto_vl_length_shape [OF assms(1)]
  have agree: "0 \<le> i \<Longrightarrow> i < pos' \<Longrightarrow> b' ! nat i = b ! nat i" for i
    using nth_agree [OF assms(2)] assms(3) by simp
  have "pos' = pos + 1 \<or> pos' = pos + 2 \<or> pos' = pos + 3"
    using shape by auto
  then show ?thesis
    using assms(1,4,5) shape agree [of pos] agree [of "pos + 1"] agree [of "2 + pos"]
    by (elim disjE) (auto simp: sto_vl_length_def Let_def outcome_simps below_size_def split: if_splits)
qed

lemma sto_payload_local:
  assumes "sto_payload b type pos = Ok (Inr (len, pos'))" and "take n b' = take n b" and "nat pos' \<le> n"
    and "type = 6 \<Longrightarrow> nat pos' < n" and "pos' < int (length b')" and "0 \<le> pos"
  shows "sto_payload b' type pos = Ok (Inr (len, pos'))"
  using assms nth_agree [OF assms(2), of "nat pos"] sto_vl_length_local [of b pos len pos' n b']
  by (auto simp: sto_payload_def sto_fixed_length_def outcome_simps below_size_def split: if_splits)

lemma sto_members_grow:
  assumes "sto_members b type field start pos depth n = Ok (StoField len type' field' start' plen)"
    and "0 \<le> pos" and "pos < int (length b)"
  shows "pos + 2 < len \<and> len \<le> int (length b) \<and> plen = len - 1 - start"
  using assms
proof (induction n arbitrary: pos)
  case (Suc n)
  have "drop (nat pos) b \<noteq> []"
    using Suc.prems(2,3) by auto
  then obtain r where r: "get_stobject_length (drop (nat pos) b) (Suc depth) = Ok r" "field_shape (drop (nat pos) b) r"
    using sto_parse_safe(1) by blast
  then obtain sub st sf ss sp where sub: "r = StoField sub st sf ss sp" "2 \<le> sub"
    using Suc.prems(1) by (cases r) (auto simp: sto_members.simps field_shape_def)
  show ?case
    using Suc.prems r(1) sub Suc.IH [of "pos + sub"]
    by (auto simp: sto_members.simps Let_def split: if_splits)
qed (simp add: sto_members.simps)

lemma get_stobject_length_parts:
  assumes "get_stobject_length b depth = Ok (StoField len t f s p)"
  obtains type field pos plen pos' where "\<not> 10 < depth" and "sto_header b = Ok (Inr (type, field, pos))"
    and "\<not> (type < 1 \<or> 19 < type \<or> (9 \<le> type \<and> type \<le> 13))" and "sto_payload b type pos = Ok (Inr (plen, pos'))"
    and "(if - 1 < plen then Ok (StoField (plen + pos') type field pos' plen)
         else if type = 15 \<or> type = 14 then sto_members b type field pos' pos' depth 1024
         else Ok (StoErr (- 3))) = Ok (StoField len t f s p)"
proof -
  from assms obtain h where h: "\<not> 10 < depth" "sto_header b = Ok h"
    by (auto simp: get_stobject_length.simps outcome_simps split: if_splits)
  with assms obtain type field pos where pos: "h = Inr (type, field, pos)"
    "\<not> (type < 1 \<or> 19 < type \<or> (9 \<le> type \<and> type \<le> 13))"
    by (cases h) (auto simp: get_stobject_length.simps split: if_splits)
  with assms h obtain q where q: "sto_payload b type pos = Ok q"
    by (auto simp: get_stobject_length.simps outcome_simps split: if_splits)
  with assms h pos obtain plen pos' where "q = Inr (plen, pos')"
    by (cases q) (auto simp: get_stobject_length.simps)
  with assms h pos q show thesis
    by (intro that) (auto simp: get_stobject_length.simps)
qed

lemma sto_parse_local:
  "get_stobject_length b depth = Ok (StoField len t f s p) \<Longrightarrow> len \<le> int (length b) \<Longrightarrow>
     take (nat len) b' = take (nat len) b \<Longrightarrow> len < int (length b') \<or> len \<le> int (length b') \<and> 0 < p \<Longrightarrow>
     get_stobject_length b' depth = Ok (StoField len t f s p)"
  "sto_members b type field start pos depth n = Ok (StoField len t f s p) \<Longrightarrow> 0 \<le> pos \<Longrightarrow> pos < int (length b) \<Longrightarrow>
     take (nat len) b' = take (nat len) b \<Longrightarrow> len \<le> int (length b') \<Longrightarrow>
     sto_members b' type field start pos depth n = Ok (StoField len t f s p)"
proof (induction b depth and b type field start pos depth n arbitrary: len t f s p b' and len t f s p b'
    rule: get_stobject_length_sto_members.induct)
  case (1 b depth)
  obtain type field pos plen pos' where
    parts: "\<not> 10 < depth" "sto_header b = Ok (Inr (type, field, pos))"
      "\<not> (type < 1 \<or> 19 < type \<or> (9 \<le> type \<and> type \<le> 13))" "sto_payload b type pos = Ok (Inr (plen, pos'))"
    and rest: "(if - 1 < plen then Ok (StoField (plen + pos') type field pos' plen)
         else if type = 15 \<or> type = 14 then sto_members b type field pos' pos' depth 1024
         else Ok (StoErr (- 3))) = Ok (StoField len t f s p)"
    by (rule get_stobject_length_parts [OF 1(2)])
  note hs = sto_header_shape [OF parts(2)]
  have ps: "- 1 \<le> plen" "pos \<le> pos'" "pos' \<le> int (length b)" "plen = - 1 \<Longrightarrow> pos' = pos"
    using sto_payload_shape [OF parts(4) hs(3)] hs by auto
  have six: "type = 6 \<Longrightarrow> 0 < plen"
    using parts(4) by (auto simp: sto_payload_def sto_fixed_length_def outcome_simps)
  have len: "pos' \<le> len" "type = 6 \<Longrightarrow> pos' < len" "pos' < int (length b')"
  proof (atomize (full), cases "- 1 < plen")
    case True
    with rest six 1(5) show "pos' \<le> len \<and> (type = 6 \<longrightarrow> pos' < len) \<and> pos' < int (length b')"
      by auto
  next
    case False
    then have "pos' + 2 < len"
      using rest ps hs sto_members_grow [of b type field pos' pos' depth 1024 len t f s p] by (auto split: if_splits)
    with 1(5) show "pos' \<le> len \<and> (type = 6 \<longrightarrow> pos' < len) \<and> pos' < int (length b')"
      by auto
  qed
  have h': "sto_header b' = Ok (Inr (type, field, pos))"
    by (rule sto_header_local [OF parts(2) 1(4)]) (use ps len in auto)
  have p': "sto_payload b' type pos = Ok (Inr (plen, pos'))"
    by (rule sto_payload_local [OF parts(4) 1(4)]) (use ps len hs in auto)
  show ?case
  proof (cases "- 1 < plen")
    case True
    with rest parts h' p' show ?thesis
      by (simp add: get_stobject_length.simps)
  next
    case False
    then have m: "type = 15 \<or> type = 14" "sto_members b type field pos' pos' depth 1024 = Ok (StoField len t f s p)"
      using rest by (auto split: if_splits)
    have "sto_members b' type field pos' pos' depth 1024 = Ok (StoField len t f s p)"
      using 1(1) [OF parts(1,2) refl refl refl parts(3,4) refl refl False m] 1(3,4,5) ps hs False by auto
    with False m(1) parts h' p' show ?thesis
      by (auto simp: get_stobject_length.simps)
  qed
next
  case (2 b type field start pos depth)
  then show ?case
    by (simp add: sto_members.simps)
next
  case (3 b type field start pos depth n)
  have "drop (nat pos) b \<noteq> []"
    using 3(4,5) by auto
  then obtain r where r: "get_stobject_length (drop (nat pos) b) (Suc depth) = Ok r" "field_shape (drop (nat pos) b) r"
    using sto_parse_safe(1) by blast
  then obtain sub st sf ss sp where sub: "r = StoField sub st sf ss sp" "2 \<le> sub"
    using 3(3) by (cases r) (auto simp: sto_members.simps field_shape_def)
  have inside: "pos + sub < int (length b)"
    using 3(3) r(1) sub by (auto simp: sto_members.simps Let_def split: if_splits)
  have grow: "pos + sub < len"
  proof (cases "(b ! nat (pos + sub) = 0xE1 \<and> type = 14) \<or> (b ! nat (pos + sub) = 0xF1 \<and> type = 15)")
    case True
    with 3(3,4) r(1) sub inside show ?thesis
      by (auto simp: sto_members.simps Let_def)
  next
    case False
    with 3(3,4) r(1) sub inside have "sto_members b type field start (pos + sub) depth n = Ok (StoField len t f s p)"
      by (auto simp: sto_members.simps Let_def)
    with sto_members_grow 3(4) sub inside show ?thesis
      by fastforce
  qed
  have same: "get_stobject_length (drop (nat pos) b') (Suc depth) = Ok (StoField sub st sf ss sp)"
  proof (rule 3(1))
    show "get_stobject_length (drop (nat pos) b) (Suc depth) = Ok (StoField sub st sf ss sp)"
      using r sub by simp
    show "sub \<le> int (length (drop (nat pos) b))"
      using inside 3(4) by simp
    show "take (nat sub) (drop (nat pos) b') = take (nat sub) (drop (nat pos) b)"
    proof -
      have le: "nat pos + nat sub \<le> nat len"
        using grow 3(4) sub by linarith
      have "take (nat pos + nat sub) b' = take (nat pos + nat sub) b"
        using arg_cong [OF 3(6), of "take (nat pos + nat sub)"] le by (simp add: min_absorb1)
      then have "drop (nat pos) (take (nat pos + nat sub) b') = drop (nat pos) (take (nat pos + nat sub) b)"
        by simp
      then show ?thesis
        by (simp add: take_drop add.commute)
    qed
    show "sub < int (length (drop (nat pos) b')) \<or> sub \<le> int (length (drop (nat pos) b')) \<and> 0 < sp"
      using grow 3(4,7) by auto
  qed
  have byte: "b' ! nat (pos + sub) = b ! nat (pos + sub)"
    using nth_agree [OF 3(6)] grow 3(4) sub by simp
  have here: "byte_at b (pos + sub) = Ok (b ! nat (pos + sub))" "byte_at b' (pos + sub) = Ok (b ! nat (pos + sub))"
    "\<not> int (length b) \<le> pos + sub" "\<not> int (length b') \<le> pos + sub"
    using inside grow 3(4,7) sub byte by simp_all
  show ?case
  proof (cases "(b ! nat (pos + sub) = 0xE1 \<and> type = 14) \<or> (b ! nat (pos + sub) = 0xF1 \<and> type = 15)")
    case True
    with 3(3) r(1) sub here same show ?thesis
      by (simp add: sto_members.simps Let_def del: byte_at_in)
  next
    case False
    with 3(3) r(1) sub here have "sto_members b type field start (pos + sub) depth n = Ok (StoField len t f s p)"
      by (simp add: sto_members.simps Let_def del: byte_at_in)
    then have "sto_members b' type field start (pos + sub) depth n = Ok (StoField len t f s p)"
      by (rule 3(2) [OF r(1) sub(1) refl here(3) here(1) False _ _ _ 3(6,7)]) (use 3(4) sub inside in auto)
    then show ?thesis
      using False by (simp only: sto_members.simps(2) same here Let_def obind.simps sto_parse.case if_False)
  qed
qed

text \<open>
  C38: the parser of serialized objects is memory safe and its reports are consistent. Started inside
  the bytes, at any nesting depth, it reads none at or past the end pointer and returns; what it
  reports is a negative code, or a field of at least two bytes whose payload starts inside the bytes
  and, with the end marker of an object or array, makes up the rest of the field's length.
\<close>

theorem get_stobject_length_safe:
  assumes "b \<noteq> []"
  shows "\<exists>r. get_stobject_length b depth = Ok r \<and> field_shape b r"
  using assms by (rule sto_parse_safe(1))

theorem get_stobject_length_safe_witness:
  "\<exists>r. get_stobject_length [0xE9, 0x12, 0, 7, 0xE1] 0 = Ok r \<and> field_shape [0xE9, 0x12, 0, 7, 0xE1] r
     \<and> r = StoField 5 14 9 1 3"
proof -
  have "get_stobject_length [0xE9, 0x12, 0, 7, 0xE1] 0 = Ok (StoField 5 14 9 1 3)"
    by code_simp
  then show ?thesis
    using get_stobject_length_safe [of "[0xE9, 0x12, 0, 7, 0xE1]" 0] by auto
qed

text \<open>An object without members is not accepted: its end marker is parsed as the start of a member.\<close>

lemma empty_object_refused: "get_stobject_length [0xE9, 0xE1, 0x12, 0, 7] 0 = Ok (StoErr (- 1))"
  by code_simp

text \<open>The length of a field may exceed the bytes there are.\<close>

lemma field_past_end: "get_stobject_length [0x24, 0] 0 = Ok (StoField 5 2 4 1 4)"
  by code_simp

end
