(* ===== verification/Kv_Store.thy ===== *)
theory Kv_Store
  imports Main
begin

text \<open>
  The contract of a keyed store, which serialized objects, the state cache and the ledger's state
  entries fulfil: a write is what the next lookup of that key finds and leaves the other keys as
  they were. \<open>ok\<close> says which entries may be stored and \<open>wf\<close> is the store's own invariant.
\<close>

locale kv_store =
  fixes wf :: "'s \<Rightarrow> bool"
    and ok :: "'k \<Rightarrow> 'v \<Rightarrow> bool"
    and lookup :: "'s \<Rightarrow> 'k \<Rightarrow> 'v option"
    and put :: "'k \<Rightarrow> 'v \<Rightarrow> 's \<Rightarrow> 's"
    and del :: "'k \<Rightarrow> 's \<Rightarrow> 's"
  assumes wf_put: "wf s \<Longrightarrow> ok k v \<Longrightarrow> wf (put k v s)"
    and wf_del: "wf s \<Longrightarrow> wf (del k s)"
    and lookup_put: "wf s \<Longrightarrow> ok k v \<Longrightarrow> lookup (put k v s) = (lookup s)(k \<mapsto> v)"
    and lookup_del: "wf s \<Longrightarrow> lookup (del k s) = (lookup s)(k := None)"
begin

text \<open>One write: a value to store, or none to delete.\<close>

definition kv_write :: "'k \<times> 'v option \<Rightarrow> 's \<Rightarrow> 's" where
  "kv_write w s = (case snd w of None \<Rightarrow> del (fst w) s | Some v \<Rightarrow> put (fst w) v s)"

definition ok_write :: "'k \<times> 'v option \<Rightarrow> bool" where
  "ok_write w \<longleftrightarrow> (case snd w of None \<Rightarrow> True | Some v \<Rightarrow> ok (fst w) v)"

lemma wf_write: "wf s \<Longrightarrow> ok_write w \<Longrightarrow> wf (kv_write w s)"
  by (auto simp: kv_write_def ok_write_def wf_put wf_del split: option.splits)

lemma lookup_write: "wf s \<Longrightarrow> ok_write w \<Longrightarrow> lookup (kv_write w s) = (lookup s)(fst w := snd w)"
  by (auto simp: kv_write_def ok_write_def lookup_put lookup_del split: option.splits)

lemma wf_writes: "wf s \<Longrightarrow> list_all ok_write ws \<Longrightarrow> wf (fold kv_write ws s)"
  by (induction ws arbitrary: s) (simp_all add: wf_write)

text \<open>After a sequence of writes a key has the value of the last write to it.\<close>

lemma lookup_writes:
  "wf s \<Longrightarrow> list_all ok_write ws \<Longrightarrow>
     lookup (fold kv_write ws s) k = (case map_of (rev ws) k of None \<Rightarrow> lookup s k | Some r \<Rightarrow> r)"
proof (induction ws arbitrary: s)
  case (Cons w ws)
  then have "lookup (kv_write w s) = (lookup s)(fst w := snd w)"
    by (simp add: lookup_write)
  with Cons have "lookup (fold kv_write ws (kv_write w s)) k =
      (case map_of (rev ws) k of None \<Rightarrow> ((lookup s)(fst w := snd w)) k | Some r \<Rightarrow> r)"
    by (simp add: wf_write split: option.split)
  then show ?case
    by (cases w) (auto simp: map_add_def split: option.splits)
qed simp

lemma write_overwrites:
  "wf s \<Longrightarrow> ok_write (k, r) \<Longrightarrow> ok_write (k, r') \<Longrightarrow> lookup (kv_write (k, r') (kv_write (k, r) s)) = lookup (kv_write (k, r') s)"
  by (simp add: lookup_write wf_write)

lemma writes_commute:
  "wf s \<Longrightarrow> ok_write (k, r) \<Longrightarrow> ok_write (k', r') \<Longrightarrow> k \<noteq> k' \<Longrightarrow>
     lookup (kv_write (k', r') (kv_write (k, r) s)) = lookup (kv_write (k, r) (kv_write (k', r') s))"
  by (auto simp: lookup_write wf_write)

end

section \<open>Ordered maps\<close>

text \<open>
  \<^verbatim>\<open>std::map\<close> is a list of keys and values in ascending order of the keys, which is the order in
  which the code iterates over it; \<^verbatim>\<open>map_of\<close> is its \<^verbatim>\<open>find\<close>.
\<close>

type_synonym ('k, 'v) omap = "('k \<times> 'v) list"

definition omap_ok :: "('k :: linorder, 'v) omap \<Rightarrow> bool" where
  "omap_ok m \<longleftrightarrow> sorted_wrt (<) (map fst m)"

primrec omap_put :: "'k :: linorder \<Rightarrow> 'v \<Rightarrow> ('k, 'v) omap \<Rightarrow> ('k, 'v) omap" where
  "omap_put k v [] = [(k, v)]"
| "omap_put k v (x # m) =
     (if fst x = k then (k, v) # m
      else if k < fst x then (k, v) # x # m
      else x # omap_put k v m)"

primrec omap_del :: "'k :: linorder \<Rightarrow> ('k, 'v) omap \<Rightarrow> ('k, 'v) omap" where
  "omap_del k [] = []"
| "omap_del k (x # m) =
     (if fst x = k then m
      else if k < fst x then x # m
      else x # omap_del k m)"

lemma omap_set_put: "set (omap_put k v m) \<subseteq> insert (k, v) (set m)"
  by (induction m) auto

lemma omap_set_del: "set (omap_del k m) \<subseteq> set m"
  by (induction m) auto

lemma omap_ok_put: "omap_ok m \<Longrightarrow> omap_ok (omap_put k v m)"
proof (induction m)
  case (Cons x m)
  then show ?case
    using omap_set_put [of k v m] by (fastforce simp: omap_ok_def)
qed (simp add: omap_ok_def)

lemma omap_ok_del: "omap_ok m \<Longrightarrow> omap_ok (omap_del k m)"
proof (induction m)
  case (Cons x m)
  then show ?case
    using omap_set_del [of k m] by (fastforce simp: omap_ok_def)
qed (simp add: omap_ok_def)

lemma map_of_smaller: "(\<And>x. x \<in> set m \<Longrightarrow> (k :: 'k :: linorder) < fst x) \<Longrightarrow> map_of m k = None"
  by (fastforce simp: map_of_eq_None_iff)

lemma omap_lookup_put: "map_of (omap_put k v m) = (map_of m)(k \<mapsto> v)"
  by (induction m) (auto simp: fun_eq_iff)

lemma omap_lookup_del: "omap_ok m \<Longrightarrow> map_of (omap_del k m) = (map_of m)(k := None)"
proof (induction m)
  case (Cons x m)
  then have "map_of m k = None" if "k \<le> fst x"
    using that by (intro map_of_smaller) (fastforce simp: omap_ok_def)
  with Cons show ?case
    by (cases x) (auto simp: fun_eq_iff omap_ok_def)
qed simp

lemma omap_ok_distinct: "omap_ok m \<Longrightarrow> distinct (map fst m)"
  using strict_sorted_iff by (auto simp: omap_ok_def)

lemma map_of_rev_distinct: "distinct (map fst xs) \<Longrightarrow> map_of (rev xs) = map_of xs"
  by (subst map_of_inject_set) (simp_all add: rev_map [symmetric])

lemma map_of_filter_distinct:
  "distinct (map fst xs) \<Longrightarrow> map_of (filter P xs) k = (case map_of xs k of Some v \<Rightarrow> (if P (k, v) then Some v else None) | None \<Rightarrow> None)"
proof (induction xs)
  case (Cons x xs)
  then have "map_of xs (fst x) = None"
    by (simp add: map_of_eq_None_iff)
  with Cons show ?case
    by (cases x) auto
qed simp

lemma omap_ok_filter: "omap_ok m \<Longrightarrow> omap_ok (filter P m)"
  unfolding omap_ok_def by (induction m) auto

interpretation omaps: kv_store omap_ok "\<lambda>_ _. True" map_of omap_put omap_del
  by unfold_locales (simp_all add: omap_ok_put omap_ok_del omap_lookup_put omap_lookup_del)

text \<open>A sequence of insertions leaves each key with its last value.\<close>

lemma omap_ok_puts: "omap_ok m \<Longrightarrow> omap_ok (fold (\<lambda>x. omap_put (k x) (v x)) xs m)"
  by (induction xs arbitrary: m) (simp_all add: omap_ok_put)

lemma omap_lookup_puts:
  "map_of (fold (\<lambda>x. omap_put (k x) (v x)) xs m) a =
     (case map_of (rev (map (\<lambda>x. (k x, v x)) xs)) a of None \<Rightarrow> map_of m a | Some r \<Rightarrow> Some r)"
proof (induction xs arbitrary: m)
  case (Cons x xs)
  then show ?case
    by (auto simp: omap_lookup_put map_add_def split: option.split)
qed simp

end
