(* ===== verification/Sto_Objects.thy ===== *)
theory Sto_Objects
  imports Sto_Props Kv_Store
begin

unbundle bit_operations_syntax

text \<open>
  Serialized objects as lists of fields: what \<^verbatim>\<open>sto_validate\<close> accepts, what \<^verbatim>\<open>sto_subfield\<close> finds,
  and that \<^verbatim>\<open>sto_emplace\<close> and \<^verbatim>\<open>sto_erase\<close> implement insertion and removal in a list kept in
  order of field identifiers.
\<close>

section \<open>Fields and objects\<close>

text \<open>The report on a field standing alone, with a byte after it so that none of its reads is refused.\<close>

definition field_report :: "bytes \<Rightarrow> sto_parse outcome" where
  "field_report c = get_stobject_length (c @ [0]) 0"

definition is_field :: "int \<Rightarrow> bytes \<Rightarrow> bool" where
  "is_field fid c \<longleftrightarrow>
     (case field_report c of
        Ok (StoField len type field start plen) \<Rightarrow> len = int (length c) \<and> push_bit 16 type + field = fid
      | _ \<Rightarrow> False)"

definition empty_payload :: "bytes \<Rightarrow> bool" where
  "empty_payload c \<longleftrightarrow>
     (case field_report c of Ok (StoField len type field start plen) \<Rightarrow> plen = 0 | _ \<Rightarrow> True)"

text \<open>What a lookup hands out: the payload, or the whole field for an array.\<close>

definition visible :: "bytes \<Rightarrow> bytes" where
  "visible c =
     (case field_report c of
        Ok (StoField len type field start plen) \<Rightarrow>
          if type = 15 then c else take (nat plen) (drop (nat start) c)
      | _ \<Rightarrow> [])"

definition visible_start :: "bytes \<Rightarrow> int" where
  "visible_start c =
     (case field_report c of
        Ok (StoField len type field start plen) \<Rightarrow> if type = 15 then 0 else start
      | _ \<Rightarrow> 0)"

type_synonym sto_object = "(int \<times> bytes) list"

definition encode :: "sto_object \<Rightarrow> bytes" where
  "encode fs = concat (map snd fs)"

definition valid_object :: "sto_object \<Rightarrow> bool" where
  "valid_object fs \<longleftrightarrow> list_all (\<lambda>(fid, c). is_field fid c) fs \<and> (fs = [] \<or> \<not> empty_payload (snd (last fs)))"

lemma encode_simps [simp]:
  "encode [] = []" "encode ((fid, c) # fs) = c @ encode fs" "encode (fs @ gs) = encode fs @ encode gs"
  by (simp_all add: encode_def)

lemma is_fieldE:
  assumes "is_field fid c"
  obtains type field start plen where
    "field_report c = Ok (StoField (int (length c)) type field start plen)" "fid = push_bit 16 type + field"
    "2 \<le> length c" "1 \<le> start" "0 \<le> plen" "start + plen \<le> int (length c)" "type = 15 \<Longrightarrow> 0 < plen"
    "1 \<le> type" "type \<le> 19" "0 \<le> field" "field \<le> 255"
proof -
  have "c @ [0] \<noteq> []"
    by simp
  then obtain r where r: "get_stobject_length (c @ [0]) 0 = Ok r" "field_shape (c @ [0]) r"
    using sto_parse_safe(1) by blast
  with assms obtain type field start plen where
    f: "r = StoField (int (length c)) type field start plen" "fid = push_bit 16 type + field"
    by (auto simp: is_field_def field_report_def split: sto_parse.splits)
  have "0 < plen" if "type = 15"
  proof -
    obtain ty fi pos pl pos' where parts: "sto_header (c @ [0]) = Ok (Inr (ty, fi, pos))"
      "sto_payload (c @ [0]) ty pos = Ok (Inr (pl, pos'))"
      "(if - 1 < pl then Ok (StoField (pl + pos') ty fi pos' pl)
         else if ty = 15 \<or> ty = 14 then sto_members (c @ [0]) ty fi pos' pos' 0 1024
         else Ok (StoErr (- 3))) = Ok (StoField (int (length c)) type field start plen)"
      by (rule get_stobject_length_parts [OF r(1) [unfolded f(1)]])
    note hs = sto_header_shape [OF parts(1)]
    have ps: "- 1 \<le> pl" "pl = - 1 \<Longrightarrow> pos' = pos" "pos \<le> pos'"
      using sto_payload_shape [OF parts(2) hs(3)] hs by auto
    show ?thesis
    proof (cases "- 1 < pl")
      case True
      with parts that show ?thesis
        by (auto simp: sto_payload_def sto_fixed_length_def)
    next
      case False
      then have "sto_members (c @ [0]) ty fi pos' pos' 0 1024 = Ok (StoField (int (length c)) type field start plen)"
        using parts(3) by (auto split: if_splits)
      from sto_members_grow [OF this] hs ps False show ?thesis
        using r f that by (auto simp: field_shape_def)
    qed
  qed
  with r f show thesis
    by (intro that [of type field start plen])
       (auto simp: field_report_def field_shape_def split: if_splits)
qed

text \<open>The same report is made of the field in front of anything.\<close>

lemma field_parse:
  assumes "is_field fid c" and "field_report c = Ok r" and "d \<noteq> [] \<or> \<not> empty_payload c"
  shows "get_stobject_length (c @ d) 0 = Ok r"
  using assms(1)
proof (rule is_fieldE)
  fix type field start plen
  assume *: "field_report c = Ok (StoField (int (length c)) type field start plen)" "0 \<le> plen"
  have "get_stobject_length (c @ d) 0 = Ok (StoField (int (length c)) type field start plen)"
    by (rule sto_parse_local(1) [where b = "c @ [0]"])
       (use * assms(3) in \<open>auto simp: field_report_def empty_payload_def\<close>)
  with * assms(2) show ?thesis
    by simp
qed

lemma valid_object_Cons:
  "valid_object ((fid, c) # fs) \<longleftrightarrow> is_field fid c \<and> (fs = [] \<longrightarrow> \<not> empty_payload c) \<and> valid_object fs"
  by (auto simp: valid_object_def)

lemma is_field_length: "is_field fid c \<Longrightarrow> 2 \<le> length c"
  by (erule is_fieldE)

lemma encode_eq_Nil: "valid_object fs \<Longrightarrow> encode fs = [] \<longleftrightarrow> fs = []"
  by (cases fs) (force simp: valid_object_Cons dest: is_field_length)+

text \<open>What the loops over an object see at the start of each turn.\<close>

lemma next_field:
  assumes "valid_object ((fid, c) # fs)"
  obtains type field start plen where
    "get_stobject_length (drop (nat (int (length pre))) (pre @ encode ((fid, c) # fs))) 0
       = Ok (StoField (int (length c)) type field start plen)"
    "field_report c = Ok (StoField (int (length c)) type field start plen)" "fid = push_bit 16 type + field"
    "2 \<le> length c"
proof -
  have f: "is_field fid c" and rest: "encode fs \<noteq> [] \<or> \<not> empty_payload c"
    using assms encode_eq_Nil by (auto simp: valid_object_Cons)
  from f show thesis
  proof (rule is_fieldE)
    fix type field start plen
    assume *: "field_report c = Ok (StoField (int (length c)) type field start plen)"
      "fid = push_bit 16 type + field" "2 \<le> length c"
    with field_parse [OF f *(1) rest] show thesis
      by (intro that [of type field start plen]) auto
  qed
qed

section \<open>Lookup\<close>

text \<open>The first field with an identifier, and the offset where it starts.\<close>

primrec find_field :: "int \<Rightarrow> sto_object \<Rightarrow> (int \<times> bytes) option" where
  "find_field fid [] = None"
| "find_field fid (x # fs) =
     (if fst x = fid then Some (0, snd x)
      else map_option (\<lambda>(off, c). (off + int (length (snd x)), c)) (find_field fid fs))"

lemma find_field_map_of: "map_option snd (find_field fid fs) = map_of fs fid"
  by (induction fs) (auto simp: option.map_comp comp_def case_prod_unfold)

lemma find_field_split:
  "find_field fid fs = Some (off, c) \<Longrightarrow> \<exists>pre post. encode fs = pre @ c @ post \<and> off = int (length pre)"
proof (induction fs arbitrary: off)
  case (Cons x fs)
  show ?case
  proof (cases "fst x = fid")
    case True
    with Cons.prems show ?thesis
      by (cases x) (auto intro: exI [of _ "[]"])
  next
    case False
    with Cons.prems obtain off' where off': "find_field fid fs = Some (off', c)" "off = off' + int (length (snd x))"
      by auto
    with Cons.IH obtain pre post where "encode fs = pre @ c @ post" "off' = int (length pre)"
      by blast
    with off' have "encode (x # fs) = (snd x @ pre) @ c @ post \<and> off = int (length (snd x @ pre))"
      by (cases x) auto
    then show ?thesis
      by blast
  qed
qed simp

lemma find_field_is_field: "find_field fid fs = Some (off, c) \<Longrightarrow> list_all (\<lambda>(fid, c). is_field fid c) fs \<Longrightarrow> is_field fid c"
  by (induction fs arbitrary: off) (auto split: if_splits)

lemma subfield_scan:
  "valid_object fs \<Longrightarrow> length fs \<le> n \<Longrightarrow>
     subfield_loop n (pre @ encode fs) fid (int (length pre)) =
       Ok (case find_field fid fs of None \<Rightarrow> DOESNT_EXIST
           | Some (off, c) \<Rightarrow> joined (int (length pre) + off + visible_start c) (int (length (visible c))))"
proof (induction fs arbitrary: n pre)
  case Nil
  then show ?case
    by (cases n) auto
next
  case (Cons x fs)
  obtain fid' c where x: "x = (fid', c)"
    by (cases x)
  obtain m where n: "n = Suc m"
    using Cons.prems(2) by (cases n) auto
  obtain type field start plen where f:
    "get_stobject_length (drop (nat (int (length pre))) (pre @ encode ((fid', c) # fs))) 0
       = Ok (StoField (int (length c)) type field start plen)"
    "field_report c = Ok (StoField (int (length c)) type field start plen)" "fid' = push_bit 16 type + field"
    "2 \<le> length c"
    using next_field [OF Cons.prems(1) [unfolded x]] .
  have ok: "is_field fid' c" "valid_object fs"
    using Cons.prems(1) x by (simp_all add: valid_object_Cons)
  have bounds: "1 \<le> start" "0 \<le> plen" "start + plen \<le> int (length c)"
    using is_fieldE [OF ok(1)] f(2) by (metis outcome.inject(1) sto_parse.inject(2))+
  have rest: "subfield_loop m ((pre @ c) @ encode fs) fid (int (length (pre @ c))) =
       Ok (case find_field fid fs of None \<Rightarrow> DOESNT_EXIST
           | Some (off, d) \<Rightarrow> joined (int (length (pre @ c)) + off + visible_start d) (int (length (visible d))))"
    using Cons.IH [of m "pre @ c"] ok(2) Cons.prems(2) n by simp
  have here: "visible_start c = (if type = 15 then 0 else start)"
      "int (length (visible c)) = (if type = 15 then int (length c) else plen)"
    using f(2) bounds by (auto simp: visible_start_def visible_def)
  show ?case
    using f rest here by (auto simp: x n split: option.splits) (auto simp: algebra_simps)
qed

section \<open>Validation\<close>

lemma validate_scan:
  "valid_object fs \<Longrightarrow> length fs \<le> n \<Longrightarrow> validate_loop n (pre @ encode fs) (int (length pre)) = Ok 1"
proof (induction fs arbitrary: n pre)
  case Nil
  then show ?case
    by (cases n) auto
next
  case (Cons x fs)
  obtain fid' c where x: "x = (fid', c)"
    by (cases x)
  obtain m where n: "n = Suc m"
    using Cons.prems(2) by (cases n) auto
  obtain type field start plen where f:
    "get_stobject_length (drop (nat (int (length pre))) (pre @ encode ((fid', c) # fs))) 0
       = Ok (StoField (int (length c)) type field start plen)" "2 \<le> length c"
    using next_field [OF Cons.prems(1) [unfolded x]] by metis
  have "validate_loop m ((pre @ c) @ encode fs) (int (length (pre @ c))) = Ok 1"
    using Cons.IH [of m "pre @ c"] Cons.prems n by (simp add: x valid_object_Cons)
  with f show ?case
    by (auto simp: x n)
qed

text \<open>An empty payload is not reported at the very end of the bytes.\<close>

lemma nonempty_at_end:
  assumes "get_stobject_length b depth = Ok (StoField len type field start 0)"
  shows "len < int (length b)"
proof -
  obtain ty fi pos pl pos' where parts: "sto_header b = Ok (Inr (ty, fi, pos))" "sto_payload b ty pos = Ok (Inr (pl, pos'))"
    "(if - 1 < pl then Ok (StoField (pl + pos') ty fi pos' pl)
       else if ty = 15 \<or> ty = 14 then sto_members b ty fi pos' pos' depth 1024
       else Ok (StoErr (- 3))) = Ok (StoField len type field start 0)"
    by (rule get_stobject_length_parts [OF assms])
  note hs = sto_header_shape [OF parts(1)]
  have ps: "- 1 \<le> pl" "pl = - 1 \<Longrightarrow> pos' = pos"
    using sto_payload_shape [OF parts(2) hs(3)] hs by auto
  show ?thesis
  proof (cases "- 1 < pl")
    case True
    with parts(3) have "pl = 0" "len = pos'"
      by auto
    then show ?thesis
      using parts(2) uint_u8_bounds [of "b ! nat pos"] uint_u8_bounds [of "b ! nat (pos + 1)"] uint_u8_bounds [of "b ! nat (2 + pos)"]
      by (auto simp: sto_payload_def sto_fixed_length_def sto_vl_length_def Let_def outcome_simps below_size_def split: if_splits)
  next
    case False
    then have m: "sto_members b ty fi pos' pos' depth 1024 = Ok (StoField len type field start 0)"
      using parts(3) by (auto split: if_splits)
    have "pos' + 2 < len \<and> len \<le> int (length b) \<and> 0 = len - 1 - pos'"
      by (rule sto_members_grow [OF m]) (use ps hs False in auto)
    then show ?thesis
      by linarith
  qed
qed

lemma validate_complete:
  "validate_loop n (pre @ b) (int (length pre)) = Ok 1 \<Longrightarrow> \<exists>fs. length fs \<le> n \<and> valid_object fs \<and> encode fs = b"
proof (induction n arbitrary: pre b)
  case 0
  then show ?case
    by (auto simp: valid_object_def intro: exI [of _ "[]"] split: if_splits)
next
  case (Suc n)
  show ?case
  proof (cases "b = []")
    case True
    then show ?thesis
      by (auto simp: valid_object_def intro: exI [of _ "[]"])
  next
    case False
    then obtain r where r: "get_stobject_length b 0 = Ok r" "field_shape b r"
      using sto_parse_safe(1) by blast
    with Suc.prems False obtain len type field start plen where f: "r = StoField len type field start plen"
      by (cases r) auto
    have more: "validate_loop n (pre @ b) (int (length pre) + len) = Ok 1" and len: "2 \<le> len"
      using Suc.prems False r f by (auto simp: field_shape_def)
    have inside: "len \<le> int (length b)"
    proof (rule ccontr)
      assume "\<not> len \<le> int (length b)"
      with more show False
        by (cases n) (auto split: if_splits)
    qed
    define c where "c = take (nat len) b"
    have c: "int (length c) = len" "b = c @ drop (nat len) b"
      using inside len by (simp_all add: c_def)
    have "validate_loop n ((pre @ c) @ drop (nat len) b) (int (length (pre @ c))) = Ok 1"
      using more c by simp
    from Suc.IH [OF this] obtain fs where fs: "length fs \<le> n" "valid_object fs" "encode fs = drop (nat len) b"
      by blast
    have report: "field_report c = Ok (StoField len type field start plen)"
      unfolding field_report_def
      by (rule sto_parse_local(1) [where b = b]) (use r f inside c len in \<open>auto simp: c_def\<close>)
    have "fs = [] \<Longrightarrow> \<not> empty_payload c"
    proof
      assume "fs = []" "empty_payload c"
      then have "plen = 0" "b = c"
        using report fs(3) c(2) by (auto simp: empty_payload_def)
      then show False
        using r f c(1) nonempty_at_end [of b 0 len type field start] by auto
    qed
    then have "valid_object ((push_bit 16 type + field, c) # fs)"
      using fs(2) report c(1) by (simp add: valid_object_Cons is_field_def)
    then show ?thesis
      using fs c(2) by (intro exI [of _ "(push_bit 16 type + field, c) # fs"]) auto
  qed
qed

section \<open>Insertion and removal\<close>

definition canonical :: "sto_object \<Rightarrow> bool" where
  "canonical fs \<longleftrightarrow> omap_ok fs \<and> list_all (\<lambda>(fid, c). is_field fid c) fs"

lemma canonical_put: "canonical fs \<Longrightarrow> is_field fid c \<Longrightarrow> canonical (omap_put fid c fs)"
  using omap_set_put [of fid c fs] by (auto simp: canonical_def list_all_iff omaps.wf_put)

lemma canonical_del: "canonical fs \<Longrightarrow> canonical (omap_del fid fs)"
  using omap_set_del [of fid fs] by (auto simp: canonical_def list_all_iff omaps.wf_del)

interpretation objects: kv_store canonical is_field map_of omap_put omap_del
  by unfold_locales
     (simp_all add: canonical_put canonical_del, simp_all add: canonical_def omaps.lookup_put omaps.lookup_del)

text \<open>The scan finds the place the abstract operations change.\<close>

lemma emplace_scan:
  "valid_object fs \<Longrightarrow> length fs \<le> n \<Longrightarrow>
     \<exists>k k'. emplace_loop n (pre @ encode fs) fid (int (length pre)) = Ok (Inr (int (length pre + k), int (length pre + k')))
       \<and> k \<le> k' \<and> k' \<le> length (encode fs)
       \<and> (\<forall>c. encode (omap_put fid c fs) = take k (encode fs) @ c @ drop k' (encode fs))
       \<and> encode (omap_del fid fs) = take k (encode fs) @ drop k' (encode fs)
       \<and> (k = k' \<longleftrightarrow> omap_del fid fs = fs)"
proof (induction fs arbitrary: n pre)
  case Nil
  then show ?case
    by (cases n) auto
next
  case (Cons x fs)
  obtain fid' c where x: "x = (fid', c)"
    by (cases x)
  obtain m where n: "n = Suc m"
    using Cons.prems(2) by (cases n) auto
  obtain type field start plen where f:
    "get_stobject_length (drop (nat (int (length pre))) (pre @ encode ((fid', c) # fs))) 0
       = Ok (StoField (int (length c)) type field start plen)" "fid' = push_bit 16 type + field" "2 \<le> length c"
    using next_field [OF Cons.prems(1) [unfolded x]] by metis
  consider (equal) "fid' = fid" | (less) "fid < fid'" | (greater) "fid' < fid"
    by linarith
  then show ?case
  proof cases
    case equal
    have "fs \<noteq> x # fs"
      by (metis not_Cons_self2)
    then show ?thesis
      using equal f by (intro exI [of _ 0] exI [of _ "length c"]) (auto simp: x n)
  next
    case less
    then show ?thesis
      using f by (intro exI [of _ 0] exI [of _ 0]) (auto simp: x n)
  next
    case greater
    obtain k k' where k: "emplace_loop m ((pre @ c) @ encode fs) fid (int (length (pre @ c)))
        = Ok (Inr (int (length (pre @ c) + k), int (length (pre @ c) + k')))"
      "k \<le> k'" "k' \<le> length (encode fs)"
      "\<And>d. encode (omap_put fid d fs) = take k (encode fs) @ d @ drop k' (encode fs)"
      "encode (omap_del fid fs) = take k (encode fs) @ drop k' (encode fs)" "k = k' \<longleftrightarrow> omap_del fid fs = fs"
      using Cons.IH [of m "pre @ c"] Cons.prems n by (auto simp: x valid_object_Cons)
    with greater f show ?thesis
      by (intro exI [of _ "length c + k"] exI [of _ "length c + k'"]) (auto simp: x n ac_simps)
  qed
qed

end
