(* ===== verification/Sto_Api_Props.thy ===== *)
theory Sto_Api_Props
  imports Sto_Objects
begin

unbundle bit_operations_syntax

text \<open>
  The functions on serialized objects in guest memory: validation, insertion followed by lookup,
  and removal, in terms of the objects of \<^verbatim>\<open>Sto_Objects\<close>.
\<close>

section \<open>Copies between disjoint regions\<close>

lemma mem_get_put_disjoint:
  assumes "0 \<le> q" and "q + int (length src) \<le> int (length mem)" and "0 \<le> p" and "p + n \<le> int (length mem)"
    and "p + n \<le> q \<or> q + int (length src) \<le> p"
  shows "mem_get (mem_put mem q src) p n = mem_get mem p n"
proof (cases "0 \<le> n")
  case True
  show ?thesis
  proof (rule nth_equalityI)
    show "length (mem_get (mem_put mem q src) p n) = length (mem_get mem p n)"
      using assms True by simp
  next
    fix i
    assume "i < length (mem_get (mem_put mem q src) p n)"
    then have i: "int i < n"
      using assms True by simp
    have "mem_put mem q src ! (nat p + i) = mem ! (nat p + i)"
      by (rule nth_mem_put_outside) (use assms i in auto)
    then show "mem_get (mem_put mem q src) p n ! i = mem_get mem p n ! i"
      using assms i True by (simp add: mem_get_def)
  qed
qed (simp add: mem_get_def)

definition gather :: "memory \<Rightarrow> (int \<times> int) list \<Rightarrow> bytes" where
  "gather mem srcs = concat (map (\<lambda>(p, n). mem_get mem p n) srcs)"

definition apart :: "memory \<Rightarrow> int \<Rightarrow> int \<Rightarrow> int \<times> int \<Rightarrow> bool" where
  "apart mem w n = (\<lambda>(p, k). k \<le> 0 \<or> 0 \<le> p \<and> p + k \<le> int (length mem) \<and> (p + k \<le> w \<or> w + n \<le> p))"

lemma copy_all_gather:
  "list_all (apart mem w n) srcs \<Longrightarrow> 0 \<le> w \<Longrightarrow> w + n \<le> int (length mem) \<Longrightarrow> 0 \<le> off \<Longrightarrow>
     off + int (length (gather mem srcs)) \<le> n \<Longrightarrow>
     copy_all mem w n off srcs = (off + int (length (gather mem srcs)), mem_put mem (w + off) (gather mem srcs))"
proof (induction srcs arbitrary: mem off)
  case Nil
  then show ?case
    by (simp add: gather_def)
next
  case (Cons x srcs)
  obtain p k where x: "x = (p, k)"
    by (cases x)
  show ?case
  proof (cases "0 < k")
    case False
    then have "mem_get mem p k = []"
      by (simp add: mem_get_def)
    with False Cons.IH [of mem off] Cons.prems show ?thesis
      by (simp add: x gather_def)
  next
    case True
    define a where "a = mem_get mem p k"
    have src: "0 \<le> p" "p + k \<le> int (length mem)" "int (length a) = k"
      using Cons.prems(1) True by (auto simp: x apart_def a_def)
    have total: "gather mem (x # srcs) = a @ gather mem srcs"
      by (simp add: gather_def x a_def)
    have room: "off + k + int (length (gather mem srcs)) \<le> n"
      using Cons.prems(5) total src by simp
    define mem' where "mem' = mem_put mem (w + off) a"
    have len: "length mem' = length mem"
      using Cons.prems room src by (simp add: mem'_def)
    have same: "gather mem' srcs = gather mem srcs"
    proof -
      have "mem_get mem' q l = mem_get mem q l" if "(q, l) \<in> set srcs" for q l
      proof (cases "l \<le> 0")
        case False
        then have "0 \<le> q" "q + l \<le> int (length mem)" "q + l \<le> w \<or> w + n \<le> q"
          using Cons.prems(1) that by (auto simp: apart_def list_all_iff)
        then show ?thesis
          unfolding mem'_def by (intro mem_get_put_disjoint) (use Cons.prems room src in auto)
      qed (simp add: mem_get_def)
      then show ?thesis
        by (auto simp: gather_def intro!: arg_cong [where f = concat])
    qed
    have stored: "WRITE_WASM_MEMORY mem (w + off) (n - off) a = Some (k, mem')"
      using Cons.prems room src by (simp add: WRITE_WASM_MEMORY_def Let_def mem'_def)
    have "copy_all mem' w n (off + k) srcs
        = (off + k + int (length (gather mem' srcs)), mem_put mem' (w + (off + k)) (gather mem' srcs))"
      by (rule Cons.IH) (use Cons.prems room True in \<open>auto simp: len same apart_def list_all_iff\<close>)
    moreover have "mem_put mem' (w + (off + k)) (gather mem srcs) = mem_put mem (w + off) (a @ gather mem srcs)"
      using mem_put_append [of "w + off" a "gather mem srcs" mem] Cons.prems room src by (simp add: mem'_def ac_simps)
    ultimately show ?thesis
      using True stored total src by (simp add: x a_def same)
  qed
qed

lemma uint_sum:
  fixes p n :: u32
  assumes "uint p + uint n \<le> int (length (mem :: memory))" and "int (length mem) < 2 ^ 32"
  shows "uint (p + n) = uint p + uint n"
  using assms by (simp add: uint_word_ariths)

lemma overlapping_two: "overlapping_memory [a, b, c, d] \<longleftrightarrow> \<not> (d \<le> a \<or> b \<le> c)"
  by (auto simp: overlapping_memory_def Let_def upt_rec numeral_eq_Suc)

lemma overlapping_three:
  "overlapping_memory [a, b, c, d, e, f] \<longleftrightarrow> \<not> (d \<le> a \<or> b \<le> c) \<or> \<not> (f \<le> a \<or> b \<le> e) \<or> \<not> (f \<le> c \<or> d \<le> e)"
  by (auto simp: overlapping_memory_def Let_def upt_rec numeral_eq_Suc)

lemma mem_get_parts:
  assumes "0 \<le> p" and "p + n \<le> int (length mem)" and "int k \<le> n"
  shows "mem_get mem p (int k) = take k (mem_get mem p n)" "mem_get mem (p + int k) (n - int k) = drop k (mem_get mem p n)"
  using assms le_nat_iff [of n k]
  by (simp_all add: mem_get_def min_absorb1 nat_add_distrib nat_diff_distrib drop_take add.commute)

section \<open>Insertion\<close>

text \<open>The conditions under which \<^verbatim>\<open>sto_emplace\<close> gets past its checks of sizes and regions.\<close>

definition emplace_ready :: "memory \<Rightarrow> u32 \<Rightarrow> u32 \<Rightarrow> u32 \<Rightarrow> u32 \<Rightarrow> u32 \<Rightarrow> u32 \<Rightarrow> bool" where
  "emplace_ready mem wp wl sp sl fp fl \<longleftrightarrow>
     int (length mem) < 2 ^ 32 \<and>
     \<not> NOT_IN_BOUNDS wp wl mem \<and> \<not> NOT_IN_BOUNDS sp sl mem \<and> \<not> NOT_IN_BOUNDS fp fl mem \<and>
     uint sl + uint fl \<le> uint wl \<and> 2 \<le> uint sl \<and> uint sl \<le> 16384 \<and> 2 \<le> uint fl \<and> uint fl \<le> 4096 \<and>
     \<not> overlapping_memory [uint wp, uint wp + uint wl, uint sp, uint sp + uint sl, uint fp, uint fp + uint fl]"

text \<open>The copies \<^verbatim>\<open>sto_emplace\<close> makes around the place the scan found.\<close>

lemma copy_around:
  fixes wp wl sp sl fp fl :: u32
  assumes "uint wp + uint wl \<le> int (length mem)" and "uint sp + uint sl \<le> int (length mem)"
    and "fl = 0 \<or> uint fp + uint fl \<le> int (length mem) \<and> (uint fp + uint fl \<le> uint wp \<or> uint wp + uint wl \<le> uint fp)"
    and "uint sp + uint sl \<le> uint wp \<or> uint wp + uint wl \<le> uint sp"
    and "uint sl + uint fl \<le> uint wl" and "mem_get mem (uint sp) (uint sl) = obj" and "k \<le> k'" and "k' \<le> length obj"
    and "out = take k obj @ mem_get mem (uint fp) (uint fl) @ drop k' obj"
  shows "copy_all mem (uint wp) (uint wl) 0
      [(uint sp, int k), (uint fp, uint fl), (uint sp + int k', uint sl - int k')]
    = (int (length out), mem_put mem (uint wp) out)"
proof -
  have len: "int (length obj) = uint sl"
    using assms(2,6) by auto
  have parts: "mem_get mem (uint sp) (int k) = take k obj" "mem_get mem (uint sp + int k') (uint sl - int k') = drop k' obj"
    using mem_get_parts [of "uint sp" "uint sl" mem] assms(2,6,7,8) len by auto
  have out: "gather mem [(uint sp, int k), (uint fp, uint fl), (uint sp + int k', uint sl - int k')] = out"
    by (simp add: gather_def parts assms(9))
  have "length (mem_get mem (uint fp) (uint fl)) \<le> nat (uint fl)"
    unfolding mem_get_def by (simp only: length_take min.cobounded2)
  then have "int (length (mem_get mem (uint fp) (uint fl))) \<le> uint fl"
    by (simp only: le_nat_iff uint_ge_0)
  then have "int (length out) \<le> uint wl"
    using assms(5,7,8) len by (simp add: assms(9))
  then show ?thesis
    using copy_all_gather [of mem "uint wp" "uint wl" "[(uint sp, int k), (uint fp, uint fl), (uint sp + int k', uint sl - int k')]" 0]
      assms(1-5,7,8) len
    by (auto simp: out apart_def)
qed

lemma sto_emplace_puts:
  assumes "emplace_ready mem wp wl sp sl fp fl" and "mem_get mem (uint sp) (uint sl) = encode fs"
    and "valid_object fs" and "length fs \<le> 1024"
    and "out = encode (omap_put (uint fid) (mem_get mem (uint fp) (uint fl)) fs)"
  shows "sto_emplace mem wp wl sp sl fp fl fid = Ok (int (length out), mem_put mem (uint wp) out)"
proof -
  note ready = assms(1) [unfolded emplace_ready_def overlapping_three]
  have bounds: "uint wp + uint wl \<le> int (length mem)" "uint sp + uint sl \<le> int (length mem)" "uint fp + uint fl \<le> int (length mem)"
    using ready by (simp_all add: in_bounds)
  have sums: "uint (wp + wl) = uint wp + uint wl" "uint (sp + sl) = uint sp + uint sl" "uint (fp + fl) = uint fp + uint fl"
    using bounds ready by (simp_all only: uint_sum)
  have "uint (sl + fl) = uint sl + uint fl"
    using ready by (simp add: uint_word_ariths)
  then have guards: "\<not> wl < sl + fl" "\<not> 16384 < sl" "\<not> sl < 2" "fl \<noteq> 0" "\<not> 4096 < fl" "\<not> fl < 2"
    using ready by (auto simp: word_less_def)
  obtain k k' where k: "emplace_loop 1024 (encode fs) (uint fid) 0 = Ok (Inr (int k, int k'))"
    "k \<le> k'" "k' \<le> length (encode fs)"
    "\<And>c. encode (omap_put (uint fid) c fs) = take k (encode fs) @ c @ drop k' (encode fs)"
    using emplace_scan [OF assms(3,4), of "[]" "uint fid"] by auto
  have "copy_all mem (uint wp) (uint wl) 0 [(uint sp, int k), (uint fp, uint fl), (uint sp + int k', uint sl - int k')]
      = (int (length out), mem_put mem (uint wp) out)"
    by (rule copy_around [OF bounds(1,2) _ _ _ assms(2) k(2,3)]) (use ready bounds k(4) assms(5) in auto)
  then show ?thesis
    using ready guards k(1) sums assms(2) by (simp add: sto_emplace_def overlapping_three)
qed

text \<open>Removal, as \<^verbatim>\<open>sto_erase\<close> calls it, with neither pointer nor length of a field.\<close>

definition erase_ready :: "memory \<Rightarrow> u32 \<Rightarrow> u32 \<Rightarrow> u32 \<Rightarrow> u32 \<Rightarrow> bool" where
  "erase_ready mem wp wl sp sl \<longleftrightarrow>
     int (length mem) < 2 ^ 32 \<and> \<not> NOT_IN_BOUNDS wp wl mem \<and> \<not> NOT_IN_BOUNDS sp sl mem \<and>
     uint sl \<le> uint wl \<and> 2 \<le> uint sl \<and> uint sl \<le> 16384 \<and>
     \<not> overlapping_memory [uint wp, uint wp + uint wl, uint sp, uint sp + uint sl]"

lemma sto_emplace_deletes:
  assumes "erase_ready mem wp wl sp sl" and "mem_get mem (uint sp) (uint sl) = encode fs"
    and "valid_object fs" and "length fs \<le> 1024" and "out = encode (omap_del (uint fid) fs)"
  shows "sto_emplace mem wp wl sp sl 0 0 fid = Ok (int (length out), mem_put mem (uint wp) out)
    \<and> (int (length out) = uint sl \<longleftrightarrow> omap_del (uint fid) fs = fs)"
proof -
  note ready = assms(1) [unfolded erase_ready_def overlapping_two]
  have bounds: "uint wp + uint wl \<le> int (length mem)" "uint sp + uint sl \<le> int (length mem)"
    using ready by (simp_all add: in_bounds)
  have sums: "uint (wp + wl) = uint wp + uint wl" "uint (sp + sl) = uint sp + uint sl"
    using bounds ready by (simp_all only: uint_sum)
  have guards: "\<not> wl < sl" "\<not> 16384 < sl" "\<not> sl < 2" "\<not> NOT_IN_BOUNDS 0 0 mem"
    using ready by (auto simp: word_less_def NOT_IN_BOUNDS_def)
  obtain k k' where k: "emplace_loop 1024 (encode fs) (uint fid) 0 = Ok (Inr (int k, int k'))"
    "k \<le> k'" "k' \<le> length (encode fs)" "encode (omap_del (uint fid) fs) = take k (encode fs) @ drop k' (encode fs)"
    "k = k' \<longleftrightarrow> omap_del (uint fid) fs = fs"
    using emplace_scan [OF assms(3,4), of "[]" "uint fid"] by auto
  have "copy_all mem (uint wp) (uint wl) 0 [(uint sp, int k), (uint (0 :: u32), uint (0 :: u32)), (uint sp + int k', uint sl - int k')]
      = (int (length out), mem_put mem (uint wp) out)"
    by (rule copy_around [OF bounds(1,2) _ _ _ assms(2) k(2,3)])
       (use ready bounds k(4) assms(5) in \<open>auto simp: mem_get_def\<close>)
  moreover have "int (length (encode fs)) = uint sl"
    using assms(2) bounds by (metis length_mem_get nat_0_le uint_ge_0)
  ultimately show ?thesis
    using ready guards k sums assms(2,5) by (auto simp: sto_emplace_def overlapping_two)
qed

section \<open>Lookup\<close>

text \<open>
  What \<^verbatim>\<open>sto_subfield\<close> returns for a field, or for none: the code \<^verbatim>\<open>DOESNT_EXIST\<close>, or the place in memory
  where the visible part of the field stands.
\<close>

definition subfield_gives :: "memory \<Rightarrow> u32 \<Rightarrow> u32 \<Rightarrow> u32 \<Rightarrow> bytes option \<Rightarrow> bool" where
  "subfield_gives mem p n fid r \<longleftrightarrow>
     (case r of
        None \<Rightarrow> sto_subfield mem p n fid = Ok DOESNT_EXIST
      | Some c \<Rightarrow>
          (\<exists>off. 0 \<le> off \<and> sto_subfield mem p n fid = Ok (joined off (int (length (visible c))))
             \<and> mem_get mem (uint p + off) (int (length (visible c))) = visible c))"

lemma visible_slice:
  assumes "is_field fid c"
  shows "0 \<le> visible_start c \<and> nat (visible_start c) + length (visible c) \<le> length c
    \<and> take (length (visible c)) (drop (nat (visible_start c)) c) = visible c"
  using assms
proof (rule is_fieldE)
  fix type field start plen
  assume "field_report c = Ok (StoField (int (length c)) type field start plen)" "1 \<le> start" "0 \<le> plen"
    "start + plen \<le> int (length c)"
  then show ?thesis
    by (auto simp: visible_def visible_start_def min_absorb2)
qed

lemma subfield_lookup:
  assumes "\<not> NOT_IN_BOUNDS p n mem" and "2 \<le> uint n" and "mem_get mem (uint p) (uint n) = encode fs"
    and "valid_object fs" and "length fs \<le> 1024"
  shows "subfield_gives mem p n fid (map_of fs (uint fid))"
proof -
  have "\<not> n < 2"
    using assms(2) by (simp add: word_less_def)
  then have res: "sto_subfield mem p n fid =
      Ok (case find_field (uint fid) fs of None \<Rightarrow> DOESNT_EXIST
          | Some (off, c) \<Rightarrow> joined (off + visible_start c) (int (length (visible c))))"
    using subfield_scan [OF assms(4,5), of "[]" "uint fid"] assms(1,3)
    by (simp add: sto_subfield_def del: subfield_loop.simps split: option.splits)
  show ?thesis
  proof (cases "find_field (uint fid) fs")
    case None
    then have "map_of fs (uint fid) = None"
      using find_field_map_of [of "uint fid" fs] by simp
    with res None show ?thesis
      by (simp add: subfield_gives_def)
  next
    case (Some x)
    obtain off c where x: "x = (off, c)"
      by (cases x)
    have found: "map_of fs (uint fid) = Some c"
      using find_field_map_of [of "uint fid" fs] Some x by simp
    obtain pre post where split: "encode fs = pre @ c @ post" "off = int (length pre)"
      using find_field_split Some x by blast
    have field: "is_field (uint fid) c"
      using find_field_is_field Some x assms(4) by (auto simp: valid_object_def)
    note slice = visible_slice [OF field]
    have "length (encode fs) \<le> nat (uint n)"
      unfolding assms(3) [symmetric] mem_get_def by (simp only: length_take min.cobounded2)
    then have room: "length pre + (nat (visible_start c) + length (visible c)) \<le> nat (uint n)"
      using slice split by simp
    have "mem_get mem (uint p + (off + visible_start c)) (int (length (visible c)))
        = take (length (visible c)) (drop (length pre + nat (visible_start c)) (mem_get mem (uint p) (uint n)))"
      using split(2) slice room
      by (simp add: mem_get_def nat_add_distrib drop_take min_absorb1 add.assoc add.commute add.left_commute)
    also have "\<dots> = visible c"
      using slice by (simp add: assms(3) split(1))
    finally show ?thesis
      using res Some x found slice split(2) by (auto simp: subfield_gives_def intro!: exI [of _ "off + visible_start c"])
  qed
qed

section \<open>The properties\<close>

lemma validate_result: "0 \<le> pos \<Longrightarrow> \<exists>r. validate_loop n obj pos = Ok r \<and> (r = 0 \<or> r = 1)"
proof (induction n arbitrary: pos)
  case (Suc n)
  show ?case
  proof (cases "pos < int (length obj)")
    case True
    then have "drop (nat pos) obj \<noteq> []"
      using Suc.prems by auto
    then obtain r where "get_stobject_length (drop (nat pos) obj) 0 = Ok r" "field_shape (drop (nat pos) obj) r"
      using sto_parse_safe(1) by blast
    with True Suc show ?thesis
      by (cases r) (auto simp: field_shape_def)
  qed auto
qed auto

lemma put_not_Nil [simp]: "omap_put fid c fs \<noteq> []"
  by (cases fs) auto

lemma valid_put:
  assumes "valid_object fs" and "is_field fid c" and "\<not> empty_payload c"
  shows "valid_object (omap_put fid c fs)"
proof -
  have "snd (last (omap_put fid c fs)) = c \<or> fs \<noteq> [] \<and> snd (last (omap_put fid c fs)) = snd (last fs)"
    by (induction fs) auto
  moreover have "list_all (\<lambda>(fid, c). is_field fid c) (omap_put fid c fs)"
    using assms omap_set_put [of fid c fs] by (auto simp: valid_object_def list_all_iff)
  ultimately show ?thesis
    using assms by (auto simp: valid_object_def)
qed

lemma del_absent: "map_of fs fid = None \<Longrightarrow> omap_del fid fs = fs"
  by (induction fs) (auto split: if_splits)

lemma length_put: "length (omap_put fid c fs) \<le> Suc (length fs)"
  by (induction fs) auto

lemma emplaced_length:
  assumes "emplace_ready mem wp wl sp sl fp fl" and "mem_get mem (uint sp) (uint sl) = encode fs" and "valid_object fs"
    and "length fs \<le> 1024" and "mem_get mem (uint fp) (uint fl) = c" and "is_field fid c"
  shows "2 \<le> int (length (encode (omap_put fid c fs))) \<and> int (length (encode (omap_put fid c fs))) \<le> uint wl"
proof -
  obtain k k' where k: "k \<le> k'" "k' \<le> length (encode fs)" "encode (omap_put fid c fs) = take k (encode fs) @ c @ drop k' (encode fs)"
    using emplace_scan [OF assms(3,4), of "[]" fid] by auto
  have "length (encode fs) \<le> nat (uint sl)" "length c \<le> nat (uint fl)"
    unfolding assms(2,5) [symmetric] mem_get_def by (simp_all only: length_take min.cobounded2)
  then have "int (length (encode fs)) \<le> uint sl" "int (length c) \<le> uint fl"
    by (simp_all only: le_nat_iff uint_ge_0)
  then show ?thesis
    using k is_field_length [OF assms(6)] assms(1) by (auto simp: emplace_ready_def)
qed

text \<open>
  C37: validation accepts a language. On a region in bounds of at least two bytes, \<^verbatim>\<open>sto_validate\<close> returns
  1 or 0, and it returns 1 exactly when the bytes are a sequence of at most 1024 fields, the last of
  them with a payload that is not empty.
\<close>

theorem sto_validate_grammar:
  assumes "\<not> NOT_IN_BOUNDS p n mem" and "2 \<le> n"
  shows "(\<exists>r. sto_validate mem p n = Ok r \<and> (r = 0 \<or> r = 1))
    \<and> (sto_validate mem p n = Ok 1 \<longleftrightarrow>
         (\<exists>fs. length fs \<le> 1024 \<and> valid_object fs \<and> encode fs = mem_get mem (uint p) (uint n)))"
proof -
  have eq: "sto_validate mem p n = validate_loop 1024 (mem_get mem (uint p) (uint n)) 0"
    using assms(1) leD [OF assms(2)] by (simp only: sto_validate_def if_False)
  let ?obj = "mem_get mem (uint p) (uint n)"
  have "validate_loop 1024 ?obj 0 = Ok 1" if "length fs \<le> 1024" "valid_object fs" "encode fs = ?obj" for fs
    using validate_scan [of fs 1024 "[]"] that by simp
  moreover have "\<exists>fs. length fs \<le> 1024 \<and> valid_object fs \<and> encode fs = ?obj" if "validate_loop 1024 ?obj 0 = Ok 1"
    using validate_complete [of 1024 "[]" ?obj] that by simp
  ultimately show ?thesis
    using validate_result [of 0 1024 ?obj] unfolding eq by blast
qed

theorem sto_validate_grammar_witness:
  "\<exists>fs. length fs \<le> 1024 \<and> valid_object fs \<and> encode fs = [0x12, 0, 7, 0x24, 0, 0, 0, 1]"
proof -
  have "\<not> NOT_IN_BOUNDS 1 8 [9, 0x12, 0, 7, 0x24, 0, 0, 0, 1, 5]"
    by code_simp
  moreover have "sto_validate [9, 0x12, 0, 7, 0x24, 0, 0, 0, 1, 5] 1 8 = Ok 1"
    by code_simp
  moreover have "mem_get [9, 0x12, 0, 7, 0x24, 0, 0, 0, 1, 5] (uint (1 :: u32)) (uint (8 :: u32)) = [0x12, 0, 7, 0x24, 0, 0, 0, 1]"
    by code_simp
  ultimately show ?thesis
    using sto_validate_grammar [of 1 8 "[9, 0x12, 0, 7, 0x24, 0, 0, 0, 1, 5]"] by auto
qed



text \<open>
  Removal. On an object in canonical order, in sizes and regions it accepts, \<^verbatim>\<open>sto_erase\<close> writes the
  object without the field and nothing else; it returns the new length, or \<^verbatim>\<open>DOESNT_EXIST\<close> exactly when
  there was no such field, in which case the object has been copied all the same.
\<close>

theorem sto_erase_removes:
  assumes "erase_ready mem wp wl sp sl" and "mem_get mem (uint sp) (uint sl) = encode fs"
    and "valid_object fs" and "canonical fs" and "length fs \<le> 1024"
  shows "\<exists>gs. sto_erase mem wp wl sp sl fid
        = Ok (if map_of fs (uint fid) = None then DOESNT_EXIST else int (length (encode gs)), mem_put mem (uint wp) (encode gs))
      \<and> canonical gs \<and> map_of gs = (map_of fs)(uint fid := None)"
proof -
  define gs where "gs = omap_del (uint fid) fs"
  have gs: "canonical gs" "map_of gs = (map_of fs)(uint fid := None)"
    using objects.wf_del objects.lookup_del assms(4) by (simp_all add: gs_def)
  have "gs = fs \<longleftrightarrow> map_of fs (uint fid) = None"
    using fun_cong [OF gs(2), of "uint fid"] del_absent [of fs "uint fid"] by (auto simp: gs_def)
  moreover have "0 < uint sl"
    using assms(1) by (simp add: erase_ready_def)
  ultimately show ?thesis
    using sto_emplace_deletes [OF assms(1-3,5) refl, of fid] gs
    by (intro exI [of _ gs]) (auto simp: sto_erase_def gs_def)
qed

theorem sto_erase_removes_witness:
  "\<exists>gs. sto_erase ([0x12, 0, 7, 0x24, 0, 0, 0, 1] @ replicate 8 0) 8 8 0 8 0x10002
       = Ok (int (length (encode gs)), mem_put ([0x12, 0, 7, 0x24, 0, 0, 0, 1] @ replicate 8 0) 8 (encode gs))
     \<and> map_of gs 0x10002 = None \<and> map_of gs 0x20004 = Some [0x24, 0, 0, 0, 1]"
proof -
  let ?mem = "[0x12, 0, 7, 0x24, 0, 0, 0, 1] @ replicate 8 0 :: memory"
  let ?fs = "[(0x10002, [0x12, 0, 7]), (0x20004, [0x24, 0, 0, 0, 1])] :: sto_object"
  have ready: "erase_ready ?mem 8 8 0 8"
    by code_simp
  have source: "mem_get ?mem (uint (0 :: u32)) (uint (8 :: u32)) = encode ?fs"
    by code_simp
  have object: "valid_object ?fs" "canonical ?fs" "length ?fs \<le> 1024"
    by code_simp+
  show ?thesis
    using sto_erase_removes [OF ready source object, of "0x10002"] by auto
qed

text \<open>
  Without a check of the length against the object, a lookup can report a payload that runs past
  the object, here four bytes of which one is there.
\<close>

lemma subfield_past_end: "sto_subfield [0x24, 0] 0 2 0x20004 = Ok (joined 1 4)"
  by code_simp

end
