(* ===== verification/Directory.thy ===== *)
theory Directory
  imports Hook_Prelude
begin

text \<open>
  Paged directories of ledger entries: \<^verbatim>\<open>ApplyView::dirAdd\<close> and \<^verbatim>\<open>ApplyView::dirRemove\<close> of
  \<^verbatim>\<open>src/ripple/ledger/impl/ApplyView.cpp\<close>, as the hook state and the emitted transactions use them.

  A directory is the map from page numbers to pages; a page is absent when the view has no entry
  for its keylet. The view hands out one object for one keylet, so an update through one pointer is
  seen through another, which the map expresses.
\<close>

section \<open>Pages\<close>

record 'k dir_page =
  sfIndexes :: "'k list"
  sfIndexNext :: int
  sfIndexPrevious :: int

type_synonym 'k directory = "int \<rightharpoonup> 'k dir_page"

definition dirNodeMaxEntries :: nat where
  "dirNodeMaxEntries = 32"

definition dirNodeMaxPages :: int where
  "dirNodeMaxPages = 262144"

section \<open>Insertion\<close>

definition add_index :: "bool \<Rightarrow> 'k :: linorder list \<Rightarrow> 'k \<Rightarrow> 'k list outcome" where
  "add_index preserveOrder indexes key =
     (if preserveOrder then
        if key \<in> set indexes then Throw logic_error else Ok (indexes @ [key])
      else
        let indexes = sort indexes;
            before = takeWhile (\<lambda>k. k < key) indexes;
            pos = dropWhile (\<lambda>k. k < key) indexes
        in if pos \<noteq> [] \<and> hd pos = key then Throw logic_error else Ok (before @ key # pos))"

definition dirAdd :: "bool \<Rightarrow> 'k :: linorder directory \<Rightarrow> 'k \<Rightarrow> (int option \<times> 'k directory) outcome" where
  "dirAdd preserveOrder d key =
     (case d 0 of
        None \<Rightarrow> Ok (Some 0, d(0 \<mapsto> \<lparr>sfIndexes = [key], sfIndexNext = 0, sfIndexPrevious = 0\<rparr>))
      | Some root \<Rightarrow>
          let page = sfIndexPrevious root in
          case d page of
            None \<Rightarrow> Throw logic_error
          | Some node \<Rightarrow>
              if length (sfIndexes node) < dirNodeMaxEntries then
                obind (add_index preserveOrder (sfIndexes node) key) (\<lambda>indexes.
                Ok (Some page, d(page \<mapsto> node\<lparr>sfIndexes := indexes\<rparr>)))
              else if dirNodeMaxPages \<le> page + 1 then Ok (None, d)
              else
                let d = d(page \<mapsto> node\<lparr>sfIndexNext := page + 1\<rparr>);
                    d = d(0 \<mapsto> (the (d 0))\<lparr>sfIndexPrevious := page + 1\<rparr>);
                    d = d(page + 1 \<mapsto> \<lparr>sfIndexes = [key], sfIndexNext = 0,
                          sfIndexPrevious = (if page + 1 \<noteq> 1 then page else 0)\<rparr>)
                in Ok (Some (page + 1), d))"

definition dirInsert :: "'k :: linorder directory \<Rightarrow> 'k \<Rightarrow> (int option \<times> 'k directory) outcome" where
  "dirInsert = dirAdd False"

section \<open>Removal\<close>

text \<open>The root page has become empty.\<close>

definition remove_root :: "'k directory \<Rightarrow> bool \<Rightarrow> int \<Rightarrow> int \<Rightarrow> (bool \<times> 'k directory) outcome" where
  "remove_root d keepRoot prevPage nextPage =
     (if nextPage = 0 \<and> prevPage \<noteq> 0 then Throw logic_error
      else if prevPage = 0 \<and> nextPage \<noteq> 0 then Throw logic_error
      else
        obind
          (if nextPage = prevPage \<and> nextPage \<noteq> 0 then
             case d nextPage of
               None \<Rightarrow> Throw logic_error
             | Some last_page \<Rightarrow>
                 if sfIndexes last_page = [] then
                   let d = d(0 \<mapsto> (the (d 0))\<lparr>sfIndexNext := 0, sfIndexPrevious := 0\<rparr>);
                       d = d(nextPage := None)
                   in Ok (d, 0, 0)
                 else Ok (d, prevPage, nextPage)
           else Ok (d, prevPage, nextPage))
          (\<lambda>(d, prevPage, nextPage).
           if keepRoot then Ok (True, d)
           else if nextPage = 0 \<and> prevPage = 0 then Ok (True, d(0 := None))
           else Ok (True, d)))"

text \<open>Another page has become empty and is unlinked.\<close>

definition remove_page :: "'k directory \<Rightarrow> int \<Rightarrow> bool \<Rightarrow> int \<Rightarrow> int \<Rightarrow> (bool \<times> 'k directory) outcome" where
  "remove_page d page keepRoot prevPage nextPage =
     (if nextPage = page then Throw logic_error
      else if prevPage = page then Throw logic_error
      else case d prevPage of
        None \<Rightarrow> Throw logic_error
      | Some prev \<Rightarrow>
          let d = d(prevPage \<mapsto> prev\<lparr>sfIndexNext := nextPage\<rparr>) in
          case d nextPage of
            None \<Rightarrow> Throw logic_error
          | Some next \<Rightarrow>
              let d = d(nextPage \<mapsto> next\<lparr>sfIndexPrevious := prevPage\<rparr>);
                  d = d(page := None);
                  next = the (d nextPage)
              in obind
                   (if nextPage \<noteq> 0 \<and> sfIndexNext next = 0 \<and> sfIndexes next = [] then
                      let d = d(nextPage := None);
                          d = d(prevPage \<mapsto> (the (d prevPage))\<lparr>sfIndexNext := 0\<rparr>)
                      in case d 0 of
                           None \<Rightarrow> Throw logic_error
                         | Some root \<Rightarrow> Ok (d(0 \<mapsto> root\<lparr>sfIndexPrevious := prevPage\<rparr>), 0)
                    else Ok (d, nextPage))
                   (\<lambda>(d, nextPage).
                    if \<not> keepRoot \<and> nextPage = 0 \<and> prevPage = 0 \<and> sfIndexes prev = []
                    then Ok (True, d(prevPage := None))
                    else Ok (True, d)))"

definition dirRemove :: "'k directory \<Rightarrow> int \<Rightarrow> 'k \<Rightarrow> bool \<Rightarrow> (bool \<times> 'k directory) outcome" where
  "dirRemove d page key keepRoot =
     (case d page of
        None \<Rightarrow> Ok (False, d)
      | Some node \<Rightarrow>
          if key \<notin> set (sfIndexes node) then Ok (False, d)
          else
            let entries = remove1 key (sfIndexes node);
                d = d(page \<mapsto> node\<lparr>sfIndexes := entries\<rparr>);
                prevPage = sfIndexPrevious node; nextPage = sfIndexNext node
            in if entries \<noteq> [] then Ok (True, d)
               else if page = 0 then remove_root d keepRoot prevPage nextPage
               else remove_page d page keepRoot prevPage nextPage)"

end
