(* ===== verification/Directory_Props.thy ===== *)
theory Directory_Props
  imports Directory
begin

text \<open>
  Directories are rings of pages. On a well-formed directory an insertion and a removal keep the
  ring, store or drop exactly the entry given, leave every other entry on its page and never reach
  a \<^verbatim>\<open>LogicError\<close>; the root disappears exactly when the last entry does.
\<close>

section \<open>Rings\<close>

fun links :: "'a list \<Rightarrow> ('a \<times> 'a) list" where
  "links (a # b # ps) = (a, b) # links (b # ps)"
| "links _ = []"

lemma links_append: "links (as @ p # bs) = links (as @ [p]) @ links (p # bs)"
  by (induction as rule: links.induct) auto

lemma links_snoc: "as \<noteq> [] \<Longrightarrow> links (as @ [p]) = links as @ [(last as, p)]"
  by (induction as rule: links.induct) auto

lemma links_Cons: "bs \<noteq> [] \<Longrightarrow> links (a # bs) = (a, hd bs) # links bs"
  by (cases bs) auto

lemma map_fst_links: "map fst (links ps) = butlast ps"
  by (induction ps rule: links.induct) auto

lemma map_snd_links: "map snd (links ps) = tl ps"
  by (induction ps rule: links.induct) auto

lemma links_fst_unique: "distinct (butlast ps) \<Longrightarrow> (a, b) \<in> set (links ps) \<Longrightarrow> (a, c) \<in> set (links ps) \<Longrightarrow> b = c"
  by (metis eq_key_imp_eq_value map_fst_links)

lemma links_snd_unique: "distinct (tl ps) \<Longrightarrow> (a, b) \<in> set (links ps) \<Longrightarrow> (c, b) \<in> set (links ps) \<Longrightarrow> a = c"
proof -
  assume *: "distinct (tl ps)" "(a, b) \<in> set (links ps)" "(c, b) \<in> set (links ps)"
  have "distinct (map snd (links ps))"
    using *(1) by (simp add: map_snd_links)
  then show "a = c"
    using *(2,3) inj_onD [of snd "set (links ps)" "(a, b)" "(c, b)"] by (simp add: distinct_map)
qed

text \<open>The ring through \<open>ps\<close>: each page points to the next and back, and the last to the root.\<close>

definition ring :: "'k directory \<Rightarrow> int list \<Rightarrow> bool" where
  "ring d ps \<longleftrightarrow>
     (\<forall>(a, b) \<in> set (links (ps @ [0])). sfIndexNext (the (d a)) = b \<and> sfIndexPrevious (the (d b)) = a)"

lemma ringD:
  "ring d ps \<Longrightarrow> (a, b) \<in> set (links (ps @ [0])) \<Longrightarrow> sfIndexNext (the (d a)) = b \<and> sfIndexPrevious (the (d b)) = a"
  by (auto simp: ring_def)

lemma ringI:
  "(\<And>a b. (a, b) \<in> set (links (ps @ [0])) \<Longrightarrow> sfIndexNext (the (d a)) = b \<and> sfIndexPrevious (the (d b)) = a) \<Longrightarrow> ring d ps"
  by (auto simp: ring_def)

abbreviation entries :: "'k directory \<Rightarrow> int \<Rightarrow> 'k list" where
  "entries d p \<equiv> sfIndexes (the (d p))"

definition dir_ok :: "'k directory \<Rightarrow> int list \<Rightarrow> bool" where
  "dir_ok d ps \<longleftrightarrow>
     ps \<noteq> [] \<and> hd ps = 0 \<and> sorted_wrt (<) ps \<and> (\<forall>p \<in> set ps. p < dirNodeMaxPages) \<and>
     dom d = set ps \<and> ring d ps \<and>
     (\<forall>p \<in> set ps. distinct (entries d p) \<and> (p \<noteq> 0 \<or> ps = [0] \<longrightarrow> entries d p \<noteq> [])) \<and>
     (\<forall>p \<in> set ps. \<forall>q \<in> set ps. p \<noteq> q \<longrightarrow> set (entries d p) \<inter> set (entries d q) = {})"

definition dir_inv :: "'k directory \<Rightarrow> bool" where
  "dir_inv d \<longleftrightarrow> d = Map.empty \<or> (\<exists>ps. dir_ok d ps)"

text \<open>The entry \<open>key\<close> is on page \<open>p\<close>.\<close>

definition in_dir :: "'k directory \<Rightarrow> int \<Rightarrow> 'k \<Rightarrow> bool" where
  "in_dir d p key \<longleftrightarrow> (case d p of None \<Rightarrow> False | Some node \<Rightarrow> key \<in> set (sfIndexes node))"

lemma dir_okD:
  assumes "dir_ok d ps"
  shows "ps \<noteq> []" "hd ps = 0" "sorted_wrt (<) ps" "p \<in> set ps \<Longrightarrow> p < dirNodeMaxPages" "dom d = set ps" "ring d ps"
    "p \<in> set ps \<Longrightarrow> distinct (entries d p)" "p \<in> set ps \<Longrightarrow> p \<noteq> 0 \<or> ps = [0] \<Longrightarrow> entries d p \<noteq> []"
    "p \<in> set ps \<Longrightarrow> q \<in> set ps \<Longrightarrow> p \<noteq> q \<Longrightarrow> set (entries d p) \<inter> set (entries d q) = {}"
    "distinct ps" "0 \<in> set ps"
proof -
  show "distinct ps"
    using assms strict_sorted_iff by (auto simp: dir_ok_def)
  show "0 \<in> set ps"
    using assms hd_in_set [of ps] by (simp add: dir_ok_def)
qed (use assms in \<open>simp_all add: dir_ok_def\<close>)

lemma in_dir_iff: "dom d = set ps \<Longrightarrow> in_dir d p k \<longleftrightarrow> p \<in> set ps \<and> k \<in> set (entries d p)"
  by (auto simp: in_dir_def split: option.splits)

lemma in_dir_unique: "dir_inv d \<Longrightarrow> in_dir d p k \<Longrightarrow> in_dir d q k \<Longrightarrow> p = q"
proof -
  assume *: "dir_inv d" "in_dir d p k" "in_dir d q k"
  then obtain ps where ok: "dir_ok d ps"
    by (auto simp: dir_inv_def in_dir_def)
  note d = in_dir_iff [OF dir_okD(5) [OF ok]]
  show "p = q"
    using dir_okD(9) [OF ok, of p q] *(2,3) by (auto simp: d)
qed

lemma root_iff_entries: "dir_inv d \<Longrightarrow> d 0 = None \<longleftrightarrow> (\<forall>p k. \<not> in_dir d p k)"
proof (cases "d = Map.empty")
  case False
  assume "dir_inv d"
  with False obtain ps where ok: "dir_ok d ps"
    by (auto simp: dir_inv_def)
  note d = in_dir_iff [OF dir_okD(5) [OF ok]]
  have root: "d 0 \<noteq> None"
    using dir_okD(5,11) [OF ok] by blast
  obtain p where p: "p \<in> set ps" "entries d p \<noteq> []"
  proof (cases "ps = [0]")
    case True
    then show thesis
      using dir_okD(8,11) [OF ok] that [of 0] by simp
  next
    case False
    with dir_okD(1,2,10) [OF ok] obtain q qs where q: "ps = 0 # q # qs" "q \<noteq> 0"
      by (cases ps; cases "tl ps") auto
    then show thesis
      using dir_okD(8) [OF ok, of q] that [of q] by simp
  qed
  then have "in_dir d p (hd (entries d p))"
    using d by simp
  with root show ?thesis
    by blast
qed (simp add: in_dir_def)

section \<open>Insertion\<close>

lemma add_index_ok:
  assumes "key \<notin> set indexes"
  shows "\<exists>xs. add_index preserveOrder indexes key = Ok xs \<and> set xs = insert key (set indexes) \<and> (distinct indexes \<longrightarrow> distinct xs)"
proof (cases preserveOrder)
  case True
  with assms show ?thesis
    by (simp add: add_index_def)
next
  case False
  define lo hi where "lo = takeWhile (\<lambda>k. k < key) (sort indexes)" and "hi = dropWhile (\<lambda>k. k < key) (sort indexes)"
  have split: "lo @ hi = sort indexes"
    by (simp add: lo_def hi_def)
  have all: "set lo \<union> set hi = set indexes"
    by (simp flip: set_append add: split)
  have "distinct (lo @ hi)" if "distinct indexes"
    using that by (simp add: split)
  moreover have "hi \<noteq> [] \<Longrightarrow> hd hi \<noteq> key"
    using assms all hd_in_set [of hi] by auto
  moreover have "add_index preserveOrder indexes key = (if hi \<noteq> [] \<and> hd hi = key then Throw logic_error else Ok (lo @ key # hi))"
    using False by (simp add: add_index_def Let_def lo_def hi_def)
  ultimately show ?thesis
    using all assms by auto
qed

lemma ring_last:
  assumes "dir_ok d ps"
  shows "sfIndexPrevious (the (d 0)) = last ps"
  using dir_okD(1,6) [OF assms] links_snoc [of ps 0] by (auto simp: ring_def)

text \<open>Changes that leave the links alone.\<close>

lemma ring_cong:
  assumes "ring d ps" and "\<And>p. p \<in> set (ps @ [0]) \<Longrightarrow> sfIndexNext (the (d' p)) = sfIndexNext (the (d p))
    \<and> sfIndexPrevious (the (d' p)) = sfIndexPrevious (the (d p))"
  shows "ring d' ps"
proof -
  have "a \<in> set (ps @ [0]) \<and> b \<in> set (ps @ [0])" if "(a, b) \<in> set (links (ps @ [0]))" for a b
  proof -
    have "a \<in> set (map fst (links (ps @ [0])))" "b \<in> set (map snd (links (ps @ [0])))"
      using that by force+
    then show ?thesis
      unfolding map_fst_links map_snd_links by (auto dest: in_set_butlastD list.set_sel(2) [rotated])
  qed
  then show ?thesis
    using assms(2) ringD [OF assms(1)] by (intro ringI) metis
qed

lemma dir_ok_entries:
  assumes "dir_ok d ps" and "p \<in> set ps" and "distinct xs" and "xs \<noteq> [] \<or> p = 0 \<and> ps \<noteq> [0]"
    and "set xs \<subseteq> insert key (set (entries d p))" and "\<And>q. \<not> in_dir d q key \<or> q = p"
  shows "dir_ok (d(p \<mapsto> (the (d p))\<lparr>sfIndexes := xs\<rparr>)) ps"
proof -
  note d = in_dir_iff [OF dir_okD(5) [OF assms(1)]]
  have "ring (d(p \<mapsto> (the (d p))\<lparr>sfIndexes := xs\<rparr>)) ps"
    using dir_okD(6) [OF assms(1)] by (rule ring_cong) simp
  moreover have "set xs \<inter> set (entries d q) = {}" if "q \<in> set ps" "q \<noteq> p" for q
    using assms(5) assms(6) [of q] dir_okD(9) [OF assms(1,2) that(1)] that d by auto
  moreover have "dom (d(p \<mapsto> (the (d p))\<lparr>sfIndexes := xs\<rparr>)) = set ps"
    using dir_okD(5) [OF assms(1)] assms(2) by auto
  ultimately show ?thesis
    using dir_okD(1,2,3,4,7,8,9) [OF assms(1)] assms(2-4) unfolding dir_ok_def
    by (intro conjI ballI impI) (auto 0 3 simp: Int_commute)
qed

text \<open>A page linked in at the end, and a page unlinked.\<close>

lemma ring_snoc:
  assumes "ring d ps" and "distinct ps" and "ps \<noteq> []" and "hd ps = 0" and "l = last ps"
    and "\<And>a. a \<in> set ps \<Longrightarrow> a \<noteq> l \<Longrightarrow> sfIndexNext (the (d' a)) = sfIndexNext (the (d a))" and "sfIndexNext (the (d' l)) = q"
    and "\<And>b. b \<in> set ps \<Longrightarrow> b \<noteq> 0 \<Longrightarrow> sfIndexPrevious (the (d' b)) = sfIndexPrevious (the (d b))"
    and "sfIndexPrevious (the (d' 0)) = q" and "sfIndexNext (the (d' q)) = 0" and "sfIndexPrevious (the (d' q)) = l"
  shows "ring d' (ps @ [q])"
proof -
  have "sfIndexNext (the (d' a)) = b \<and> sfIndexPrevious (the (d' b)) = a" if "(a, b) \<in> set (links ps)" for a b
  proof -
    have ab: "a \<in> set (butlast ps)" "b \<in> set (tl ps)"
      using that map_fst_links [of ps] map_snd_links [of ps] by (metis fst_conv list.set_map image_eqI, metis snd_conv list.set_map image_eqI)
    moreover have "a \<noteq> l"
      using ab(1) assms(2,3,5) by (metis append_butlast_last_id distinct_append disjoint_iff list.set_intros(1))
    moreover have "b \<noteq> 0"
      using ab(2) assms(2-4) by (cases ps) auto
    moreover have "sfIndexNext (the (d a)) = b \<and> sfIndexPrevious (the (d b)) = a"
      using assms(1,3) that links_snoc [of ps 0] by (auto simp: ring_def)
    ultimately show ?thesis
      using assms(6,8) by (metis in_set_butlastD list.set_sel(2) assms(3))
  qed
  moreover have "links ((ps @ [q]) @ [0]) = links ps @ [(l, q), (q, 0)]"
    using assms(3,5) links_snoc [of ps q] links_snoc [of "ps @ [q]" 0] by simp
  ultimately show ?thesis
    using assms(7,9-11) by (auto simp: ring_def)
qed

lemma ring_unlink:
  assumes "ring d (as @ p # bs)" and "distinct (as @ p # bs)" and "as \<noteq> []" and "hd as = 0"
    and "a = last as" and "b = hd (bs @ [0])"
    and "\<And>x. x \<in> set (as @ bs) \<Longrightarrow> x \<noteq> a \<Longrightarrow> sfIndexNext (the (d' x)) = sfIndexNext (the (d x))" and "sfIndexNext (the (d' a)) = b"
    and "\<And>x. x \<in> set (as @ bs) \<Longrightarrow> x \<noteq> b \<Longrightarrow> sfIndexPrevious (the (d' x)) = sfIndexPrevious (the (d x))"
    and "sfIndexPrevious (the (d' b)) = a"
  shows "ring d' (as @ bs)"
proof -
  have old: "links ((as @ p # bs) @ [0]) = links as @ [(a, p), (p, b)] @ links (bs @ [0])"
    using links_append [of as p "bs @ [0]"] links_snoc [OF assms(3), of p] links_Cons [of "bs @ [0]" p] assms(5,6) by simp
  have new: "links ((as @ bs) @ [0]) = links as @ [(a, b)] @ links (bs @ [0])"
  proof -
    obtain cs where cs: "bs @ [0] = b # cs"
      using assms(6) by (cases "bs @ [0]") auto
    then show ?thesis
      using links_append [of as b cs] links_snoc [OF assms(3), of b] assms(5) by simp
  qed
  have fst: "distinct (map fst (links ((as @ p # bs) @ [0])))"
    using assms(2) by (simp add: map_fst_links butlast_append)
  have "distinct (map snd (links ((as @ p # bs) @ [0])))"
    using assms(2-4) by (cases as) (auto simp: map_snd_links)
  with fst have apart: "x \<noteq> a \<and> y \<noteq> b" if "(x, y) \<in> set (links as) \<union> set (links (bs @ [0]))" for x y
    using that unfolding old by (force simp: rev_image_eqI)
  have inside: "x \<in> set (as @ bs) \<and> y \<in> set (as @ bs)" if "(x, y) \<in> set (links as) \<union> set (links (bs @ [0]))" for x y
  proof -
    have "x \<in> set (map fst (links ((as @ bs) @ [0])))" "y \<in> set (map snd (links ((as @ bs) @ [0])))"
      using that unfolding new by force+
    then show ?thesis
      using assms(3,4) unfolding map_fst_links map_snd_links by (cases as) (auto simp: butlast_append split: if_splits)
  qed
  have "sfIndexNext (the (d' x)) = y \<and> sfIndexPrevious (the (d' y)) = x"
    if xy: "(x, y) \<in> set (links as) \<union> set (links (bs @ [0]))" for x y
  proof -
    have "sfIndexNext (the (d x)) = y \<and> sfIndexPrevious (the (d y)) = x"
      by (rule ringD [OF assms(1)]) (use xy in \<open>auto simp only: old set_append Un_iff\<close>)
    then show ?thesis
      using apart [OF xy] inside [OF xy] assms(7) [of x] assms(9) [of y] by simp
  qed
  then show ?thesis
    using assms(8,10) by (intro ringI) (auto simp only: new set_append Un_iff list.set empty_iff insert_iff prod.inject)
qed

definition dir_full :: "'k directory \<Rightarrow> bool" where
  "dir_full d \<longleftrightarrow>
     (case d (dirNodeMaxPages - 1) of None \<Rightarrow> False | Some node \<Rightarrow> dirNodeMaxEntries \<le> length (sfIndexes node))"

lemma dir_ok_single: "dir_ok [0 \<mapsto> \<lparr>sfIndexes = [key], sfIndexNext = 0, sfIndexPrevious = 0\<rparr>] [0]"
  by (simp add: dir_ok_def ring_def dirNodeMaxPages_def)

lemma dir_ok_new_page:
  assumes ok: "dir_ok d ps" and fresh: "\<And>p. \<not> in_dir d p key" and l: "l = last ps" and room: "l + 1 < dirNodeMaxPages"
    and d': "d' = (let d = d(l \<mapsto> (the (d l))\<lparr>sfIndexNext := l + 1\<rparr>); d = d(0 \<mapsto> (the (d 0))\<lparr>sfIndexPrevious := l + 1\<rparr>)
      in d(l + 1 \<mapsto> \<lparr>sfIndexes = [key], sfIndexNext = 0, sfIndexPrevious = (if l + 1 \<noteq> 1 then l else 0)\<rparr>))"
  shows "dir_ok d' (ps @ [l + 1])"
    and "in_dir d' q k \<longleftrightarrow> in_dir d q k \<or> q = l + 1 \<and> k = key"
proof -
  note ps = dir_okD [OF ok]
  have le: "p \<le> l" if "p \<in> set ps" for p
    using ps(1,3) that by (simp add: l) (metis append_butlast_last_id in_set_conv_decomp less_imp_le
      list.set_intros(1) order_refl rotate1.simps(2) set_rotate1 sorted_wrt_append set_ConsD)
  have q: "l + 1 \<notin> set ps" "l \<in> set ps" "0 \<in> set ps" "0 \<le> l"
    using le [of "l + 1"] le [of 0] ps(1,11) by (auto simp: l)
  have dom: "dom d' = set (ps @ [l + 1])"
    using ps(5) q by (auto simp: d' Let_def)
  have same: "entries d' p = entries d p" if "p \<in> set ps" for p
    using that q ps(5) by (auto simp: d' Let_def)
  have new: "entries d' (l + 1) = [key]"
    by (simp add: d' Let_def)
  have ring: "ring d' (ps @ [l + 1])"
    by (rule ring_snoc [OF ps(6,10,1,2) l]) (use q in \<open>auto simp: d' Let_def\<close>)
  have sorted: "sorted_wrt (<) (ps @ [l + 1])"
    using ps(3) le by (fastforce simp: sorted_wrt_append)
  have absent: "key \<notin> set (entries d p)" if "p \<in> set ps" for p
    using fresh [of p] in_dir_iff [OF ps(5)] that by simp
  have disjoint: "set (entries d' p) \<inter> set (entries d' r) = {}" if "p \<in> set (ps @ [l + 1])" "r \<in> set (ps @ [l + 1])" "p \<noteq> r" for p r
    using that ps(9) [of p r] absent [of p] absent [of r] same [of p] same [of r] new by auto
  show "dir_ok d' (ps @ [l + 1])"
    unfolding dir_ok_def
    using ps(1,2) sorted ps(4) room dom ring ps(7,8) same new q disjoint
    by (intro conjI ballI impI) auto
  show "in_dir d' q k \<longleftrightarrow> in_dir d q k \<or> q = l + 1 \<and> k = key" for q k
    using in_dir_iff [OF dom] in_dir_iff [OF ps(5)] same new q(1) by auto
qed

lemma dirAdd_ok:
  assumes "dir_inv d" and fresh: "\<And>p. \<not> in_dir d p key"
  shows "(\<exists>p d'. dirAdd preserveOrder d key = Ok (Some p, d') \<and> dir_inv d'
        \<and> (\<forall>q k. in_dir d' q k \<longleftrightarrow> in_dir d q k \<or> q = p \<and> k = key))
      \<or> dirAdd preserveOrder d key = Ok (None, d) \<and> dir_full d"
proof (cases "d = Map.empty")
  case True
  then show ?thesis
    using dir_ok_single [of key] by (auto simp: dirAdd_def dir_inv_def in_dir_def)
next
  case False
  with assms(1) obtain ps where ok: "dir_ok d ps"
    by (auto simp: dir_inv_def)
  note ps = dir_okD [OF ok]
  define l where "l = last ps"
  obtain root where root: "d 0 = Some root"
    using ps(5,11) by blast
  have page: "sfIndexPrevious root = l"
    using ring_last [OF ok] root by (simp add: l_def)
  have l: "l \<in> set ps"
    using ps(1) by (simp add: l_def)
  then obtain node where node: "d l = Some node"
    using ps(5) by blast
  consider (space) "length (sfIndexes node) < dirNodeMaxEntries"
    | (full) "\<not> length (sfIndexes node) < dirNodeMaxEntries" "dirNodeMaxPages \<le> l + 1"
    | (new) "\<not> length (sfIndexes node) < dirNodeMaxEntries" "l + 1 < dirNodeMaxPages"
    by linarith
  then show ?thesis
  proof cases
    case space
    have "key \<notin> set (sfIndexes node)"
      using fresh [of l] node by (simp add: in_dir_def)
    then obtain xs where xs: "add_index preserveOrder (sfIndexes node) key = Ok xs" "set xs = insert key (set (sfIndexes node))"
        "distinct (sfIndexes node) \<longrightarrow> distinct xs"
      using add_index_ok by blast
    have "dir_ok (d(l \<mapsto> (the (d l))\<lparr>sfIndexes := xs\<rparr>)) ps"
      by (rule dir_ok_entries [OF ok l, of xs key]) (use xs ps(7) [OF l] node fresh in auto)
    moreover have "in_dir (d(l \<mapsto> node\<lparr>sfIndexes := xs\<rparr>)) q k \<longleftrightarrow> in_dir d q k \<or> q = l \<and> k = key" for q k
      using xs(2) node by (auto simp: in_dir_def)
    ultimately show ?thesis
      using space root node page xs(1) by (auto simp: dirAdd_def dir_inv_def)
  next
    case full
    then have "l = dirNodeMaxPages - 1"
      using ps(4) [OF l] by linarith
    with full root node page show ?thesis
      by (simp add: dirAdd_def dir_full_def)
  next
    case new
    define d' where "d' = (let d = d(l \<mapsto> (the (d l))\<lparr>sfIndexNext := l + 1\<rparr>); d = d(0 \<mapsto> (the (d 0))\<lparr>sfIndexPrevious := l + 1\<rparr>)
      in d(l + 1 \<mapsto> \<lparr>sfIndexes = [key], sfIndexNext = 0, sfIndexPrevious = (if l + 1 \<noteq> 1 then l else 0)\<rparr>))"
    have "dirAdd preserveOrder d key = Ok (Some (l + 1), d')"
      using new root node page by (simp add: dirAdd_def d'_def Let_def)
    then show ?thesis
      using dir_ok_new_page [OF ok fresh l_def new(2) d'_def] by (auto simp: dir_inv_def)
  qed
qed

section \<open>Removal\<close>

lemma remove_page_ok:
  assumes ok: "dir_ok d ps" and split: "ps = as @ p # bs" and as: "as \<noteq> []" "hd as = 0" and node: "d p = Some node"
    and d1: "d1 = d(p \<mapsto> node\<lparr>sfIndexes := []\<rparr>)"
  shows "\<exists>d'. remove_page d1 p False (sfIndexPrevious node) (sfIndexNext node) = Ok (True, d')
    \<and> dir_inv d' \<and> (\<forall>q k. in_dir d' q k \<longleftrightarrow> in_dir d1 q k)"
proof -
  note ps = dir_okD [OF ok]
  define a where "a = last as"
  define b where "b = hd (bs @ [0])"
  have links: "links (ps @ [0]) = links as @ [(a, p), (p, b)] @ links (bs @ [0])"
    using links_append [of as p "bs @ [0]"] links_snoc [OF as(1), of p] links_Cons [of "bs @ [0]" p]
    by (simp add: split a_def b_def)
  have ab: "sfIndexPrevious node = a" "sfIndexNext node = b"
    using ringD [OF ps(6), of a p] ringD [OF ps(6), of p b] node by (simp_all add: links)
  have mem: "a \<in> set as" "b \<in> set bs \<or> b = 0 \<and> bs = []" "0 \<in> set as"
    using as hd_in_set [of as] last_in_set [of as] by (cases bs; simp add: a_def b_def)+
  have ne: "a \<noteq> p" "b \<noteq> p" "p \<noteq> 0"
    using ps(10) mem by (auto simp: split)
  have bps: "b \<in> set ps" "b = 0 \<longleftrightarrow> bs = []"
    using mem ps(10) by (auto simp: split)
  obtain na where na: "d a = Some na"
    using ps(5) mem by (force simp: split)
  define d2 where "d2 = d1(a \<mapsto> na\<lparr>sfIndexNext := b\<rparr>)"
  have "b \<in> dom d2"
    using ps(5) bps(1) by (simp add: d2_def d1)
  then obtain nb where nb: "d2 b = Some nb"
    by blast
  define d3 where "d3 = d2(b \<mapsto> nb\<lparr>sfIndexPrevious := a\<rparr>, p := None)"
  have at: "d1 a = Some na" "d3 b = Some (nb\<lparr>sfIndexPrevious := a\<rparr>)"
    using na ne by (simp_all add: d1 d3_def)
  have same: "entries d3 q = entries d q" if "q \<in> set (as @ bs)" for q
    using that na nb ne ps(10) by (auto simp: d3_def d2_def d1 split)
  have dom: "dom d3 = set (as @ bs)"
    using ps(5,10) node na nb ne mem by (auto simp: d3_def d2_def d1 split)
  have ring: "ring d3 (as @ bs)"
    by (rule ring_unlink [OF ps(6) [unfolded split] ps(10) [unfolded split] as a_def b_def])
       (use na nb ne ps(10) in \<open>auto simp: d3_def d2_def d1 split\<close>)
  have in3: "in_dir d3 q k \<longleftrightarrow> in_dir d1 q k" for q k
  proof -
    have "dom d1 = set ps"
      using ps(5) node by (auto simp: d1)
    moreover have "entries d1 q = entries d q" if "q \<noteq> p"
      using that by (simp add: d1)
    ultimately show ?thesis
      using in_dir_iff [OF dom] in_dir_iff [of d1 ps q k] same [of q] ps(10) by (auto simp: split d1)
  qed
  have full: "b \<noteq> 0 \<Longrightarrow> sfIndexes (nb\<lparr>sfIndexPrevious := a\<rparr>) \<noteq> []"
    using ps(8) [of b] same [of b] at(2) mem bps by auto
  have step: "remove_page d1 p False a b =
      (if b = 0 \<and> a = 0 \<and> sfIndexes na = [] then Ok (True, d3(0 := None)) else Ok (True, d3))"
    using ne at nb full by (auto simp: remove_page_def Let_def simp flip: d2_def d3_def) (simp add: d3_def fun_eq_iff)
  show ?thesis
  proof (cases "b = 0 \<and> a = 0 \<and> sfIndexes na = []")
    case True
    then have "bs = []"
      using bps by simp
    moreover have "as = [0]"
      using as True ps(10) by (cases as) (auto simp: split a_def dest: last_in_set split: if_splits)
    ultimately have "dom d3 = {0}" "entries d3 0 = []"
      using dom same [of 0] na True by auto
    then have "d3(0 := None) = Map.empty" "\<not> in_dir d3 q k" for q k
      using in_dir_iff [of d3 "[0]" q k] by (auto simp: fun_eq_iff)
    then show ?thesis
      using step True in3 by (auto simp: ab dir_inv_def in_dir_def)
  next
    case False
    have "entries d 0 \<noteq> []" if "as @ bs = [0]"
      using that False na as by (cases as) (auto simp: a_def b_def)
    moreover have "sorted_wrt (<) (as @ bs)"
      using ps(3) by (auto simp: split sorted_wrt_append)
    ultimately have "dir_ok d3 (as @ bs)"
      using as ps(4,7,8,9) dom ring same unfolding dir_ok_def
      by (intro conjI ballI impI) (auto simp: split)
    then show ?thesis
      using step False in3 by (auto simp: ab dir_inv_def)
  qed
qed

lemma dirRemove_ok:
  assumes "dir_inv d" and "in_dir d p key"
  shows "\<exists>d'. dirRemove d p key False = Ok (True, d') \<and> dir_inv d' \<and> (\<forall>q k. in_dir d' q k \<longleftrightarrow> in_dir d q k \<and> k \<noteq> key)"
proof -
  obtain ps where ok: "dir_ok d ps"
    using assms by (auto simp: dir_inv_def in_dir_def)
  note ps = dir_okD [OF ok]
  obtain node where node: "d p = Some node" "key \<in> set (sfIndexes node)"
    using assms(2) by (auto simp: in_dir_def split: option.splits)
  have p: "p \<in> set ps"
    using node(1) ps(5) by blast
  define xs where "xs = remove1 key (sfIndexes node)"
  have dist: "distinct (sfIndexes node)"
    using ps(7) [OF p] node(1) by simp
  then have xs: "set xs = set (sfIndexes node) - {key}" "distinct xs"
    by (simp_all add: xs_def set_remove1_eq distinct_remove1)
  define d1 where "d1 = d(p \<mapsto> node\<lparr>sfIndexes := xs\<rparr>)"
  have only: "\<not> in_dir d q key \<or> q = p" for q
    using in_dir_unique [OF assms] by blast
  have in1: "in_dir d1 q k \<longleftrightarrow> in_dir d q k \<and> k \<noteq> key" for q k
  proof (cases "q = p")
    case True
    then show ?thesis
      using xs(1) node(1) by (auto simp: in_dir_def d1_def)
  next
    case False
    then have "in_dir d1 q k \<longleftrightarrow> in_dir d q k"
      by (simp add: in_dir_def d1_def)
    then show ?thesis
      using only [of q] False by auto
  qed
  show ?thesis
  proof (cases "xs \<noteq> [] \<or> p = 0 \<and> ps \<noteq> [0]")
    case True
    have "dir_ok (d(p \<mapsto> (the (d p))\<lparr>sfIndexes := xs\<rparr>)) ps"
      by (rule dir_ok_entries [OF ok p xs(2) True, of key]) (use xs(1) node only in auto)
    then have ok1: "dir_ok d1 ps"
      using node by (simp add: d1_def)
    moreover have "dirRemove d p key False = Ok (True, d1)"
    proof (cases "xs = []")
      case False
      then show ?thesis
        using node by (simp add: dirRemove_def d1_def xs_def)
    next
      case empty: True
      with True have root: "p = 0" "ps \<noteq> [0]"
        by auto
      then obtain q qs where q: "ps = 0 # q # qs"
        using ps(1,2) by (cases ps; cases "tl ps") auto
      have last: "last ps \<noteq> 0" "last ps \<in> set ps"
        using q ps(10) by (auto dest: last_in_set split: if_splits)
      have "sfIndexPrevious node = last ps" "sfIndexNext node = q"
        using ring_last [OF ok] ringD [OF ps(6), of 0 q] node root q by auto
      moreover obtain node' where "d1 (last ps) = Some node'" "sfIndexes node' \<noteq> []"
        using dir_okD(5) [OF ok1] dir_okD(8) [OF ok1, of "last ps"] last by force
      moreover have "q \<noteq> 0"
        using q ps(10) by auto
      ultimately show ?thesis
        using node empty last root by (simp add: dirRemove_def remove_root_def d1_def xs_def Let_def)
    qed
    ultimately show ?thesis
      using in1 by (auto simp: dir_inv_def)
  next
    case False
    then have empty: "xs = []" and which: "p \<noteq> 0 \<or> ps = [0]"
      by auto
    have nobody: "set (sfIndexes node) = {key}"
      using xs(1) empty node(2) by auto
    show ?thesis
    proof (cases "p = 0")
      case True
      then have "ps = [0]"
        using which by simp
      then have links: "sfIndexPrevious node = 0" "sfIndexNext node = 0" and d: "d1(0 := None) = Map.empty"
        using ringD [OF ps(6), of 0 0] node True ps(5) by (auto simp: d1_def fun_eq_iff dom_def)
      have "dirRemove d p key False = Ok (True, Map.empty)"
        using node links d empty True by (simp add: dirRemove_def remove_root_def xs_def d1_def Let_def)
      moreover have "\<not> (in_dir d q k \<and> k \<noteq> key)" for q k
        using in1 [of q k] d empty True by (auto simp: in_dir_def d1_def fun_eq_iff split: if_splits option.splits)
      ultimately show ?thesis
        by (auto simp: dir_inv_def in_dir_def)
    next
      case False
      then obtain as bs where split: "ps = as @ p # bs"
        using p split_list by fast
      have as: "as \<noteq> []" "hd as = 0"
        using split ps(2) False by (cases as; simp)+
      have "dirRemove d p key False = remove_page d1 p False (sfIndexPrevious node) (sfIndexNext node)"
        using node empty False by (simp add: dirRemove_def xs_def d1_def Let_def)
      then show ?thesis
        using remove_page_ok [OF ok split as node(1), of d1] in1 empty by (auto simp: d1_def)
    qed
  qed
qed

section \<open>The interface\<close>

text \<open>
  What the owners of a directory rely on: which entries it has and on which pages, and how the two
  operations change that.
\<close>

locale entry_directory =
  fixes inv :: "'d \<Rightarrow> bool"
    and member :: "'d \<Rightarrow> int \<Rightarrow> 'k \<Rightarrow> bool"
    and present :: "'d \<Rightarrow> bool"
    and full :: "'d \<Rightarrow> bool"
    and add :: "'d \<Rightarrow> 'k \<Rightarrow> (int option \<times> 'd) outcome"
    and remove :: "'d \<Rightarrow> int \<Rightarrow> 'k \<Rightarrow> (bool \<times> 'd) outcome"
  assumes add_entry: "inv d \<Longrightarrow> \<forall>p. \<not> member d p k \<Longrightarrow>
      (\<exists>p d'. add d k = Ok (Some p, d') \<and> inv d' \<and> (\<forall>q j. member d' q j \<longleftrightarrow> member d q j \<or> q = p \<and> j = k))
      \<or> add d k = Ok (None, d) \<and> full d"
    and remove_entry: "inv d \<Longrightarrow> member d p k \<Longrightarrow>
      \<exists>d'. remove d p k = Ok (True, d') \<and> inv d' \<and> (\<forall>q j. member d' q j \<longleftrightarrow> member d q j \<and> j \<noteq> k)"
    and present_iff: "inv d \<Longrightarrow> present d \<longleftrightarrow> (\<exists>p k. member d p k)"
    and member_unique: "inv d \<Longrightarrow> member d p k \<Longrightarrow> member d q k \<Longrightarrow> p = q"
begin

lemma add_cases:
  assumes "inv d" and "\<And>p. \<not> member d p k"
  obtains (added) p d' where "add d k = Ok (Some p, d')" and "inv d'" and "\<And>q j. member d' q j \<longleftrightarrow> member d q j \<or> q = p \<and> j = k"
  | (refused) "add d k = Ok (None, d)" and "full d"
  using add_entry [of d k] assms by auto

lemma remove_cases:
  assumes "inv d" and "member d p k"
  obtains d' where "remove d p k = Ok (True, d')" and "inv d'" and "\<And>q j. member d' q j \<longleftrightarrow> member d q j \<and> j \<noteq> k"
  using remove_entry [of d p k] assms by auto

text \<open>What is added on a page is removed from that page, and the directory is as before.\<close>

lemma add_remove:
  assumes "inv d" and "\<And>p. \<not> member d p k" and "add d k = Ok (Some p, d')"
  shows "\<exists>d''. remove d' p k = Ok (True, d'') \<and> inv d'' \<and> (\<forall>q j. member d'' q j \<longleftrightarrow> member d q j) \<and> (present d'' \<longleftrightarrow> present d)"
proof -
  have d': "inv d'" "\<And>q j. member d' q j \<longleftrightarrow> member d q j \<or> q = p \<and> j = k"
    using add_cases [OF assms(1,2)] assms(3) by auto
  then obtain d'' where d'': "remove d' p k = Ok (True, d'')" "inv d''" "\<And>q j. member d'' q j \<longleftrightarrow> member d' q j \<and> j \<noteq> k"
    using remove_cases [of d' p k] by auto
  have same: "member d'' q j \<longleftrightarrow> member d q j" for q j
    using d'(2) d''(3) assms(2) by auto
  then show ?thesis
    using d''(1,2) present_iff [OF d''(2)] present_iff [OF assms(1)] by auto
qed

end

interpretation dirs: entry_directory dir_inv in_dir "\<lambda>d. d 0 \<noteq> None" dir_full dirInsert "\<lambda>d p k. dirRemove d p k False"
proof unfold_locales
  fix d :: "'a :: linorder directory" and p q k
  show "dir_inv d \<Longrightarrow> \<forall>p. \<not> in_dir d p k \<Longrightarrow>
      (\<exists>p d'. dirInsert d k = Ok (Some p, d') \<and> dir_inv d' \<and> (\<forall>q j. in_dir d' q j \<longleftrightarrow> in_dir d q j \<or> q = p \<and> j = k))
      \<or> dirInsert d k = Ok (None, d) \<and> dir_full d"
    unfolding dirInsert_def by (rule dirAdd_ok) auto
  show "dir_inv d \<Longrightarrow> in_dir d p k \<Longrightarrow>
      \<exists>d'. dirRemove d p k False = Ok (True, d') \<and> dir_inv d' \<and> (\<forall>q j. in_dir d' q j \<longleftrightarrow> in_dir d q j \<and> j \<noteq> k)"
    by (rule dirRemove_ok)
  show "dir_inv d \<Longrightarrow> d 0 \<noteq> None \<longleftrightarrow> (\<exists>p k. in_dir d p k)"
    by (simp only: root_iff_entries not_all not_not)
  show "dir_inv d \<Longrightarrow> in_dir d p k \<Longrightarrow> in_dir d q k \<Longrightarrow> p = q"
    by (rule in_dir_unique)
qed

section \<open>The properties\<close>

text \<open>
  C39: insertion into a directory. On a well-formed directory that does not have the entry, \<^verbatim>\<open>dirInsert\<close>
  reaches no \<^verbatim>\<open>LogicError\<close>; it puts the entry on the page it returns, moves no other entry and keeps
  the pages linked in a ring, or it returns no page and changes nothing, only when the last possible
  page is full.
\<close>

theorem dirInsert_adds:
  assumes "dir_inv d" and "\<forall>p. \<not> in_dir d p key"
  shows "(\<exists>p d'. dirInsert d key = Ok (Some p, d') \<and> dir_inv d' \<and> (\<forall>q k. in_dir d' q k \<longleftrightarrow> in_dir d q k \<or> q = p \<and> k = key))
    \<or> dirInsert d key = Ok (None, d) \<and> dir_full d"
  using assms by (rule dirs.add_entry)

theorem dirInsert_adds_witness:
  "\<exists>p d'. dirInsert [0 \<mapsto> \<lparr>sfIndexes = [5 :: int], sfIndexNext = 0, sfIndexPrevious = 0\<rparr>] 7 = Ok (Some p, d')
     \<and> dir_inv d' \<and> in_dir d' p 7 \<and> in_dir d' 0 5"
proof -
  let ?d = "[0 \<mapsto> \<lparr>sfIndexes = [5 :: int], sfIndexNext = 0, sfIndexPrevious = 0\<rparr>]"
  have "dir_inv ?d" "\<forall>p. \<not> in_dir ?d p 7"
    using dir_ok_single [of "5 :: int"] by (auto simp: dir_inv_def in_dir_def)
  moreover have "\<not> dir_full ?d" "in_dir ?d 0 5"
    by (simp_all add: dir_full_def dirNodeMaxPages_def in_dir_def)
  ultimately show ?thesis
    using dirInsert_adds [of ?d 7] by auto
qed

text \<open>
  C40: removal from a directory. On a well-formed directory \<^verbatim>\<open>dirRemove\<close> with the page of an entry
  reaches no \<^verbatim>\<open>LogicError\<close>, succeeds, drops that entry only, moves no other and keeps the ring;
  the root page disappears exactly when no entry is left.
\<close>

theorem dirRemove_removes:
  fixes d :: "'k :: linorder directory"
  assumes "dir_inv d" and "in_dir d p key"
  shows "\<exists>d'. dirRemove d p key False = Ok (True, d') \<and> dir_inv d' \<and> (\<forall>q k. in_dir d' q k \<longleftrightarrow> in_dir d q k \<and> k \<noteq> key)
    \<and> (d' 0 = None \<longleftrightarrow> (\<forall>q k. in_dir d q k \<longrightarrow> k = key))"
proof (rule dirs.remove_cases [OF assms])
  fix d'
  assume *: "dirRemove d p key False = Ok (True, d')" "dir_inv d'" "\<And>q k. in_dir d' q k \<longleftrightarrow> in_dir d q k \<and> k \<noteq> key"
  then show ?thesis
    using root_iff_entries [OF *(2)] by auto
qed

theorem dirRemove_removes_witness:
  "\<exists>d'. dirRemove [0 \<mapsto> \<lparr>sfIndexes = [5 :: int], sfIndexNext = 0, sfIndexPrevious = 0\<rparr>] 0 5 False = Ok (True, d') \<and> d' 0 = None"
proof -
  let ?d = "[0 \<mapsto> \<lparr>sfIndexes = [5 :: int], sfIndexNext = 0, sfIndexPrevious = 0\<rparr>]"
  have "dir_inv ?d" "in_dir ?d 0 5" "\<forall>q k. in_dir ?d q k \<longrightarrow> k = 5"
    using dir_ok_single [of "5 :: int"] by (auto simp: dir_inv_def in_dir_def)
  then show ?thesis
    using dirRemove_removes [of ?d 0 5] by auto
qed

end
