(* ===== verification/Hook_Ledger.thy ===== *)
theory Hook_Ledger
  imports Hook_Memory Directory_Props Kv_Store
begin

text \<open>
  The part of the ledger that hooks use: account roots, hook arrays, hook definitions, hook state
  entries with their namespace directories, and owner directories.

  An entry is found under what its keylet is computed from (an account, a namespace and a key, for
  a state entry) rather than under the hash of it, so two different keylets are never the same
  entry. A state directory is kept in the order of the state keys instead of the order of their
  hashes.
\<close>

section \<open>Identifiers and result codes\<close>

type_synonym uint256 = "256 word"
type_synonym account_id = "160 word"

definition fromVoid :: "bytes \<Rightarrow> 'a :: len word" where
  "fromVoid bs = word_of_int (foldl (\<lambda>a b. a * 256 + uint b) 0 bs)"

definition to_bytes :: "nat \<Rightarrow> 'a :: len word \<Rightarrow> bytes" where
  "to_bytes n w = map (\<lambda>i. ucast (drop_bit (8 * (n - 1 - i)) w)) [0..<n]"

datatype TER =
    tesSUCCESS
  | tefINTERNAL | tefBAD_LEDGER
  | temHOOK_DATA_TOO_LARGE | temMALFORMED | temDISABLED
  | terNO_HOOK
  | tecINSUFFICIENT_RESERVE | tecDIR_FULL | tecHOOK_REJECTED | tecREQUIRES_FLAG | tecNO_ENTRY | tecINTERNAL | tecCLAIM

section \<open>Ledger entries\<close>

text \<open>
  The fields of an account root that hooks touch. An absent \<^verbatim>\<open>sfHookStateCount\<close> reads as 0; an
  absent \<^verbatim>\<open>sfHookNamespaces\<close> is told apart from an empty one.
\<close>

record account_root =
  sfBalance :: int
  sfOwnerCount :: u32
  sfHookStateCount :: u32
  sfHookNamespaces :: "uint256 list option"

record state_entry =
  sfHookStateData :: bytes
  sfHookStateKey :: uint256
  stateOwnerNode :: int

record hook_grant =
  grantHookHash :: uint256
  sfAuthorize :: "account_id option"

record hook_parameter =
  sfHookParameterName :: "bytes option"
  sfHookParameterValue :: "bytes option"

text \<open>An \<^verbatim>\<open>sfHook\<close> object, in a transaction or in the hook array of an account.\<close>

record hook_object =
  sfHookHash :: "uint256 option"
  sfCreateCode :: "bytes option"
  sfHookGrants :: "hook_grant list option"
  sfHookNamespace :: "uint256 option"
  sfHookParameters :: "hook_parameter list option"
  sfHookOn :: "u64 option"
  sfHookApiVersion :: "u16 option"
  sfFlags :: "u32 option"

definition blank_hook :: hook_object where
  "blank_hook = \<lparr>sfHookHash = None, sfCreateCode = None, sfHookGrants = None, sfHookNamespace = None,
     sfHookParameters = None, sfHookOn = None, sfHookApiVersion = None, sfFlags = None\<rparr>"

record hook_array =
  sfHooks :: "hook_object list"
  hookOwnerNode :: int

text \<open>A reference count is a number of installed hooks, far below \<open>2 ^ 64\<close>.\<close>

record hook_definition =
  defHookOn :: u64
  defHookNamespace :: uint256
  defHookParameters :: "hook_parameter list"
  defHookApiVersion :: u16
  defCreateCode :: bytes
  sfHookSetTxnID :: uint256
  sfReferenceCount :: nat
  sfFee :: int
  sfHookCallbackFee :: "int option"
  defFlags :: u32

record ledger =
  accounts :: "account_id \<rightharpoonup> account_root"
  hooks :: "account_id \<rightharpoonup> hook_array"
  definitions :: "uint256 \<rightharpoonup> hook_definition"
  states :: "account_id \<times> uint256 \<times> uint256 \<rightharpoonup> state_entry"
  state_dirs :: "account_id \<times> uint256 \<Rightarrow> uint256 directory"
  owner_dirs :: "account_id \<Rightarrow> uint256 directory"

section \<open>Reserves\<close>

record fees =
  fee_base_drops :: int
  reserve :: int
  increment :: int

definition accountReserve :: "fees \<Rightarrow> u32 \<Rightarrow> int" where
  "accountReserve f ownerCount = reserve f + uint ownerCount * increment f"

text \<open>The sum is taken in 32 bits; on overflow the count stays at its maximum, on underflow at 0.\<close>

definition confineOwnerCount :: "u32 \<Rightarrow> int \<Rightarrow> u32" where
  "confineOwnerCount current adjustment =
     (let adjusted = current + word_of_int adjustment in
      if 0 < adjustment then if adjusted < current then - 1 else adjusted
      else if current < adjusted then 0 else adjusted)"

definition adjustOwnerCount :: "account_root \<Rightarrow> int \<Rightarrow> account_root" where
  "adjustOwnerCount sle amount = sle\<lparr>sfOwnerCount := confineOwnerCount (sfOwnerCount sle) amount\<rparr>"

lemma confineOwnerCount_up: "unat (confineOwnerCount c 1) = min (unat c + 1) (2 ^ 32 - 1)"
proof (cases "c = - 1")
  case True
  then show ?thesis
    by (simp add: confineOwnerCount_def Let_def unsigned_minus_1_eq_mask mask_eq_exp_minus_1 word_less_nat_alt)
next
  case False
  then have "1 + c \<noteq> 0"
    by (metis minus_unique)
  then have "unat (c + 1) = unat c + 1"
    by (simp add: unatSuc add.commute)
  moreover have "unat (c + 1) < 2 ^ 32"
    using unsigned_less [of "c + 1", where ?'a = nat] by simp
  ultimately show ?thesis
    by (simp add: confineOwnerCount_def Let_def word_less_nat_alt)
qed

lemma confineOwnerCount_down: "unat (confineOwnerCount c (- 1)) = unat c - 1"
proof (cases "c = 0")
  case True
  then show ?thesis
    by (simp add: confineOwnerCount_def Let_def word_less_nat_alt unsigned_minus_1_eq_mask mask_eq_exp_minus_1)
next
  case False
  then have "unat (c - 1) = unat c - 1"
    by (simp add: unat_minus_one)
  moreover have "0 < unat c"
    using False by (simp add: unat_gt_0)
  ultimately show ?thesis
    by (simp add: confineOwnerCount_def Let_def word_less_nat_alt)
qed

end
