(* ===== verification/Hook_State.thy ===== *)
theory Hook_State
  imports Hook_Ledger
begin

unbundle bit_operations_syntax

text \<open>
  Hook state: the state entries of the ledger with their namespaces (\<^verbatim>\<open>setHookState\<close>,
  \<^verbatim>\<open>addHookNamespaceEntry\<close>, \<^verbatim>\<open>removeHookNamespaceEntry\<close>), the cache through which the hooks of a
  transaction read and write them (\<^verbatim>\<open>lookup_state_cache\<close>, \<^verbatim>\<open>set_state_cache\<close>), the API functions
  \<^verbatim>\<open>state\<close>, \<^verbatim>\<open>state_foreign\<close>, \<^verbatim>\<open>state_set\<close>, \<^verbatim>\<open>state_foreign_set\<close>, and the commit of the cache
  (\<^verbatim>\<open>finalizeHookState\<close>), all of \<^verbatim>\<open>src/ripple/app/hook/impl/applyHook.cpp\<close>.
\<close>

section \<open>Limits\<close>

definition maxHookStateDataSize :: int where
  "maxHookStateDataSize = 256"

definition computeHookStateOwnerCount :: "u32 \<Rightarrow> u32" where
  "computeHookStateOwnerCount hookStateCount = hookStateCount"

section \<open>The namespaces of an account\<close>

text \<open>Both yield the account with whether it was changed.\<close>

definition addHookNamespaceEntry :: "account_root \<Rightarrow> uint256 \<Rightarrow> bool \<times> account_root" where
  "addHookNamespaceEntry sleAccount ns =
     (let vec = (case sfHookNamespaces sleAccount of None \<Rightarrow> [] | Some v \<Rightarrow> v) in
      if ns \<in> set vec then (False, sleAccount)
      else (True, sleAccount\<lparr>sfHookNamespaces := Some (vec @ [ns])\<rparr>))"

definition removeHookNamespaceEntry :: "account_root \<Rightarrow> uint256 \<Rightarrow> bool \<times> account_root" where
  "removeHookNamespaceEntry sleAccount ns =
     (case sfHookNamespaces sleAccount of
        None \<Rightarrow> (False, sleAccount)
      | Some vec \<Rightarrow>
          if vec = [] then (True, sleAccount\<lparr>sfHookNamespaces := None\<rparr>)
          else
            let spaces = sort (remdups (filter (\<lambda>u. u \<noteq> ns) vec)) in
            if length spaces \<noteq> length vec then
              if spaces = [] then (True, sleAccount\<lparr>sfHookNamespaces := None\<rparr>)
              else (True, sleAccount\<lparr>sfHookNamespaces := Some spaces\<rparr>)
            else (False, sleAccount))"

section \<open>State entries of the ledger\<close>

text \<open>The branch of \<^verbatim>\<open>setHookState\<close> for empty data: the entry is deleted if it exists.\<close>

definition deleteHookState ::
  "ledger \<Rightarrow> account_id \<Rightarrow> uint256 \<Rightarrow> uint256 \<Rightarrow> account_root \<Rightarrow> (TER \<times> ledger) outcome" where
  "deleteHookState L acc ns key sleAccount =
     (case states L (acc, ns, key) of
        None \<Rightarrow> Ok (tesSUCCESS, L)
      | Some hookState \<Rightarrow>
          if state_dirs L (acc, ns) 0 = None then Ok (tefBAD_LEDGER, L)
          else
            obind (dirRemove (state_dirs L (acc, ns)) (stateOwnerNode hookState) key False) (\<lambda>(removed, dir).
            if \<not> removed then Ok (tefBAD_LEDGER, L)
            else
              let nsDestroyed = (dir 0 = None);
                  oldCount = sfHookStateCount sleAccount;
                  stateCount = (if 0 < oldCount then oldCount - 1 else oldCount);
                  a = (if computeHookStateOwnerCount stateCount < computeHookStateOwnerCount oldCount
                       then adjustOwnerCount sleAccount (- 1) else sleAccount);
                  a = a\<lparr>sfHookStateCount := stateCount\<rparr>;
                  a = (if nsDestroyed then snd (removeHookNamespaceEntry a ns) else a)
              in Ok (tesSUCCESS,
                   L\<lparr>states := (states L)((acc, ns, key) := None),
                     state_dirs := (state_dirs L)((acc, ns) := dir),
                     accounts := (accounts L)(acc \<mapsto> a)\<rparr>)))"

text \<open>The rest of \<^verbatim>\<open>setHookState\<close>: an existing entry is overwritten, else one is created.\<close>

definition createHookState ::
  "fees \<Rightarrow> ledger \<Rightarrow> account_id \<Rightarrow> uint256 \<Rightarrow> uint256 \<Rightarrow> bytes \<Rightarrow> account_root \<Rightarrow> (TER \<times> ledger) outcome" where
  "createHookState f L acc ns key data sleAccount =
     (let stateCount = sfHookStateCount sleAccount + 1;
          grows = (computeHookStateOwnerCount (sfHookStateCount sleAccount) < computeHookStateOwnerCount stateCount)
      in if grows \<and> sfBalance sleAccount < accountReserve f (sfOwnerCount sleAccount + 1)
         then Ok (tecINSUFFICIENT_RESERVE, L)
         else
           let a = (if grows then adjustOwnerCount sleAccount 1 else sleAccount);
               a = a\<lparr>sfHookStateCount := stateCount\<rparr>;
               L = L\<lparr>accounts := (accounts L)(acc \<mapsto> a)\<rparr>;
               nsExists = (state_dirs L (acc, ns) 0 \<noteq> None)
           in obind (dirInsert (state_dirs L (acc, ns)) key) (\<lambda>(page, dir). case page of
                None \<Rightarrow> Ok (tecDIR_FULL, L)
              | Some p \<Rightarrow>
                  let a = (if nsExists then a else snd (addHookNamespaceEntry a ns)) in
                  Ok (tesSUCCESS,
                    L\<lparr>states := (states L)((acc, ns, key) \<mapsto>
                         \<lparr>sfHookStateData = data, sfHookStateKey = key, stateOwnerNode = p\<rparr>),
                      state_dirs := (state_dirs L)((acc, ns) := dir),
                      accounts := (accounts L)(acc \<mapsto> a)\<rparr>)))"

definition setHookState ::
  "fees \<Rightarrow> ledger \<Rightarrow> account_id \<Rightarrow> uint256 \<Rightarrow> uint256 \<Rightarrow> bytes \<Rightarrow> (TER \<times> ledger) outcome" where
  "setHookState f L acc ns key data =
     (case accounts L acc of
        None \<Rightarrow> Ok (tefINTERNAL, L)
      | Some sleAccount \<Rightarrow>
          if maxHookStateDataSize < int (length data) then Ok (temHOOK_DATA_TOO_LARGE, L)
          else if data = [] then deleteHookState L acc ns key sleAccount
          else case states L (acc, ns, key) of
            None \<Rightarrow> createHookState f L acc ns key data sleAccount
          | Some hookState \<Rightarrow>
              Ok (tesSUCCESS,
                L\<lparr>states := (states L)((acc, ns, key) \<mapsto>
                     hookState\<lparr>sfHookStateData := data, sfHookStateKey := key\<rparr>)\<rparr>))"

section \<open>The cache\<close>

text \<open>
  \<^verbatim>\<open>HookStateMap\<close>: for each account the owner reserves it has left, and its entries by namespace and
  key with a mark for those that were modified.
\<close>

type_synonym state_entries = "(uint256, bool \<times> bytes) omap"
type_synonym account_state = "int \<times> (uint256, state_entries) omap"
type_synonym state_map = "(account_id, account_state) omap"

record state_ctx =
  stateMap :: state_map
  modified_entry_count :: u32
  changedStateCount :: u16
  foreignStateSetDisabled :: bool

text \<open>What is fixed for one execution of a hook.\<close>

record hook_env =
  hook_account_id :: account_id
  hookHash :: uint256
  hookNamespace :: uint256

definition make_state_key :: "bytes \<Rightarrow> uint256 option" where
  "make_state_key source =
     (if 32 < length source \<or> length source < 1 then None
      else Some (fromVoid (replicate (32 - length source) 0 @ source)))"

definition lookup_state_cache :: "state_ctx \<Rightarrow> account_id \<Rightarrow> uint256 \<Rightarrow> uint256 \<Rightarrow> (bool \<times> bytes) option" where
  "lookup_state_cache ctx acc ns key =
     (case map_of (stateMap ctx) acc of
        None \<Rightarrow> None
      | Some stateMapAcc \<Rightarrow>
          case map_of (snd stateMapAcc) ns of
            None \<Rightarrow> None
          | Some stateMapNs \<Rightarrow> map_of stateMapNs key)"

text \<open>Division of \<^verbatim>\<open>int64_t\<close> by a positive number rounds towards zero.\<close>

definition trunc_div :: "int \<Rightarrow> int \<Rightarrow> int" where
  "trunc_div x d = sgn x * (\<bar>x\<bar> div d)"

definition reserves_available :: "fees \<Rightarrow> account_root \<Rightarrow> int" where
  "reserves_available f accSLE =
     (let inc = (if increment f \<le> 0 then 1 else increment f) in
      trunc_div (sfBalance accSLE - accountReserve f (sfOwnerCount accSLE)) inc)"

definition set_state_cache ::
  "fees \<Rightarrow> ledger \<Rightarrow> state_ctx \<Rightarrow> account_id \<Rightarrow> uint256 \<Rightarrow> uint256 \<Rightarrow> bytes \<Rightarrow> bool \<Rightarrow> int \<times> state_ctx" where
  "set_state_cache f L ctx acc ns key data modified =
     (if modified \<and> max_state_modifications < unat (modified_entry_count ctx) then (TOO_MANY_STATE_MODIFICATIONS, ctx)
      else case map_of (stateMap ctx) acc of
        None \<Rightarrow>
          (case accounts L acc of
             None \<Rightarrow> (DOESNT_EXIST, ctx)
           | Some accSLE \<Rightarrow>
               let available = reserves_available f accSLE in
               if available < 1 \<and> modified then (RESERVE_INSUFFICIENT, ctx)
               else (1, ctx\<lparr>modified_entry_count := modified_entry_count ctx + 1,
                       stateMap := omap_put acc (available - 1, [(ns, [(key, (modified, data))])]) (stateMap ctx)\<rparr>))
      | Some (available, stateMapAcc) \<Rightarrow>
          let canReserveNew = (0 < available) in
          case map_of stateMapAcc ns of
            None \<Rightarrow>
              if modified \<and> \<not> canReserveNew then (RESERVE_INSUFFICIENT, ctx)
              else (1, ctx\<lparr>modified_entry_count := modified_entry_count ctx + (if modified then 1 else 0),
                      stateMap := omap_put acc (if modified then available - 1 else available,
                        omap_put ns [(key, (modified, data))] stateMapAcc) (stateMap ctx)\<rparr>)
          | Some stateMapNs \<Rightarrow>
              case map_of stateMapNs key of
                None \<Rightarrow>
                  if modified \<and> \<not> canReserveNew then (RESERVE_INSUFFICIENT, ctx)
                  else (1, ctx\<lparr>modified_entry_count := modified_entry_count ctx + (if modified then 1 else 0),
                          changedStateCount := changedStateCount ctx + 1,
                          stateMap := omap_put acc (if modified then available - 1 else available,
                            omap_put ns (omap_put key (modified, data) stateMapNs) stateMapAcc) (stateMap ctx)\<rparr>)
              | Some (was_modified, _) \<Rightarrow>
                  (1, ctx\<lparr>modified_entry_count := modified_entry_count ctx + (if modified then 1 else 0),
                      changedStateCount := changedStateCount ctx + (if modified \<and> \<not> was_modified then 1 else 0),
                      stateMap := omap_put acc (available,
                        omap_put ns (omap_put key (was_modified \<or> modified, data) stateMapNs) stateMapAcc) (stateMap ctx)\<rparr>))"

section \<open>Reading and writing state from a hook\<close>

text \<open>Up to eight bytes as a number, the first byte the highest; none if the top bit is set.\<close>

definition data_as_int64 :: "bytes \<Rightarrow> int" where
  "data_as_int64 data =
     (if 8 < length data then TOO_BIG
      else
        let output = foldl (\<lambda>a b. a * 256 + uint b) 0 data in
        if 2 ^ 63 \<le> output then TOO_BIG else output)"

text \<open>The two ways a value leaves for the guest.\<close>

definition give_data :: "memory \<Rightarrow> u32 \<Rightarrow> u32 \<Rightarrow> bytes \<Rightarrow> int \<times> memory" where
  "give_data mem write_ptr write_len data =
     (if write_ptr = 0 then (data_as_int64 data, mem)
      else if uint write_len < int (length data) then (TOO_SMALL, mem)
      else WRITE_WASM_MEMORY_AND_RETURN mem write_ptr write_len data)"

definition state_foreign ::
  "fees \<Rightarrow> ledger \<Rightarrow> hook_env \<Rightarrow> state_ctx \<Rightarrow> memory \<Rightarrow> u32 \<Rightarrow> u32 \<Rightarrow> u32 \<Rightarrow> u32 \<Rightarrow> u32 \<Rightarrow> u32 \<Rightarrow> u32 \<Rightarrow> u32
     \<Rightarrow> (int \<times> memory) \<times> state_ctx" where
  "state_foreign f L env ctx mem write_ptr write_len kread_ptr kread_len nread_ptr nread_len aread_ptr aread_len =
     (let is_foreign = (0 < aread_ptr) in
      if \<not> is_foreign \<and> aread_len \<noteq> 0 then ((INVALID_ARGUMENT, mem), ctx)
      else if is_foreign \<and> aread_len \<noteq> 20 then ((INVALID_ARGUMENT, mem), ctx)
      else if 32 < kread_len then ((TOO_BIG, mem), ctx)
      else if kread_len < 1 then ((TOO_SMALL, mem), ctx)
      else if write_len < 1 \<and> write_ptr \<noteq> 0 then ((TOO_SMALL, mem), ctx)
      else if \<not> (\<not> is_foreign \<and> nread_len = 0) \<and> nread_len \<noteq> 32 then ((INVALID_ARGUMENT, mem), ctx)
      else if NOT_IN_BOUNDS kread_ptr kread_len mem \<or> NOT_IN_BOUNDS nread_ptr nread_len mem \<or>
        NOT_IN_BOUNDS aread_ptr aread_len mem \<or> NOT_IN_BOUNDS write_ptr write_len mem then ((OUT_OF_BOUNDS, mem), ctx)
      else
        let ns = (if nread_len = 0 then hookNamespace env else fromVoid (mem_get mem (uint nread_ptr) 32));
            acc = (if is_foreign then fromVoid (mem_get mem (uint aread_ptr) 20) else hook_account_id env)
        in case make_state_key (mem_get mem (uint kread_ptr) (uint kread_len)) of
             None \<Rightarrow> ((INVALID_ARGUMENT, mem), ctx)
           | Some key \<Rightarrow>
               case lookup_state_cache ctx acc ns key of
                 Some (_, data) \<Rightarrow> (give_data mem write_ptr write_len data, ctx)
               | None \<Rightarrow>
                   case states L (acc, ns, key) of
                     None \<Rightarrow> ((DOESNT_EXIST, mem), ctx)
                   | Some hsSLE \<Rightarrow>
                       let b = sfHookStateData hsSLE; (ret, ctx) = set_state_cache f L ctx acc ns key b False in
                       if ret < 0 then ((INTERNAL_ERROR, mem), ctx)
                       else (give_data mem write_ptr write_len b, ctx))"

definition state_get ::
  "fees \<Rightarrow> ledger \<Rightarrow> hook_env \<Rightarrow> state_ctx \<Rightarrow> memory \<Rightarrow> u32 \<Rightarrow> u32 \<Rightarrow> u32 \<Rightarrow> u32 \<Rightarrow> (int \<times> memory) \<times> state_ctx" where
  "state_get f L env ctx mem write_ptr write_len kread_ptr kread_len =
     state_foreign f L env ctx mem write_ptr write_len kread_ptr kread_len 0 0 0 0"

text \<open>Whether a hook of the foreign account with this namespace grants access to the running hook.\<close>

definition grants_access :: "ledger \<Rightarrow> hook_env \<Rightarrow> uint256 \<Rightarrow> hook_object \<Rightarrow> bool" where
  "grants_access L env ns hookObj =
     (case (sfHookHash hookObj, sfHookGrants hookObj) of
        (Some hash, Some grants) \<Rightarrow>
          grants \<noteq> [] \<and>
          (case sfHookNamespace hookObj of
             Some n \<Rightarrow> n = ns
           | None \<Rightarrow> (case definitions L hash of None \<Rightarrow> False | Some d \<Rightarrow> defHookNamespace d = ns)) \<and>
          list_ex (\<lambda>g. grantHookHash g = hookHash env \<and>
            (case sfAuthorize g of None \<Rightarrow> True | Some a \<Rightarrow> a = hook_account_id env)) grants
      | _ \<Rightarrow> False)"

definition state_foreign_set ::
  "fees \<Rightarrow> ledger \<Rightarrow> hook_env \<Rightarrow> state_ctx \<Rightarrow> memory \<Rightarrow> u32 \<Rightarrow> u32 \<Rightarrow> u32 \<Rightarrow> u32 \<Rightarrow> u32 \<Rightarrow> u32 \<Rightarrow> u32 \<Rightarrow> u32
     \<Rightarrow> (int \<times> state_ctx) outcome" where
  "state_foreign_set f L env ctx mem read_ptr read_len kread_ptr kread_len nread_ptr nread_len aread_ptr aread_len =
     (if \<not> (read_ptr = 0 \<and> read_len = 0) \<and> NOT_IN_BOUNDS read_ptr read_len mem then Ok (OUT_OF_BOUNDS, ctx)
      else if 32 < kread_len then Ok (TOO_BIG, ctx)
      else if kread_len < 1 then Ok (TOO_SMALL, ctx)
      else if nread_len \<noteq> 0 \<and> nread_len \<noteq> 32 then Ok (INVALID_ARGUMENT, ctx)
      else if aread_len \<noteq> 0 \<and> aread_len \<noteq> 20 then Ok (INVALID_ARGUMENT, ctx)
      else if NOT_IN_BOUNDS kread_ptr kread_len mem then Ok (OUT_OF_BOUNDS, ctx)
      else if nread_ptr = 0 \<and> nread_len = 0 \<and> \<not> (aread_ptr = 0 \<and> aread_len = 0) then Ok (INVALID_ARGUMENT, ctx)
      else if (nread_len \<noteq> 0 \<and> NOT_IN_BOUNDS nread_ptr nread_len mem) \<or>
        (aread_len \<noteq> 0 \<and> NOT_IN_BOUNDS aread_ptr aread_len mem) then Ok (OUT_OF_BOUNDS, ctx)
      else if maxHookStateDataSize < uint read_len then Ok (TOO_BIG, ctx)
      else
        let ns = (if nread_len = 0 then hookNamespace env else fromVoid (mem_get mem (uint nread_ptr) 32));
            acc = (if aread_len = 20 then fromVoid (mem_get mem (uint aread_ptr) 20) else hook_account_id env);
            data = mem_get mem (uint read_ptr) (uint read_len)
        in case make_state_key (mem_get mem (uint kread_ptr) (uint kread_len)) of
             None \<Rightarrow> Undef
           | Some key \<Rightarrow>
               let put = (\<lambda>ctx. let (ret, ctx) = set_state_cache f L ctx acc ns key data True in
                 Ok (if ret < 0 then ret else uint read_len, ctx))
               in if aread_len = 0 \<or> acc = hook_account_id env then put ctx
                  else if foreignStateSetDisabled ctx then Ok (PREVIOUS_FAILURE_PREVENTS_RETRY, ctx)
                  else case lookup_state_cache ctx acc ns key of
                    Some (True, _) \<Rightarrow> put ctx
                  | _ \<Rightarrow>
                      case hooks L acc of
                        None \<Rightarrow> Ok (INTERNAL_ERROR, ctx)
                      | Some sle \<Rightarrow>
                          if list_ex (grants_access L env ns) (sfHooks sle) then put ctx
                          else Ok (NOT_AUTHORIZED, ctx\<lparr>foreignStateSetDisabled := True\<rparr>))"

definition state_set ::
  "fees \<Rightarrow> ledger \<Rightarrow> hook_env \<Rightarrow> state_ctx \<Rightarrow> memory \<Rightarrow> u32 \<Rightarrow> u32 \<Rightarrow> u32 \<Rightarrow> u32 \<Rightarrow> (int \<times> state_ctx) outcome" where
  "state_set f L env ctx mem read_ptr read_len kread_ptr kread_len =
     state_foreign_set f L env ctx mem read_ptr read_len kread_ptr kread_len 0 0 0 0"

section \<open>Commit\<close>

text \<open>The entries of the cache in the order of the three nested loops.\<close>

definition cache_entries :: "state_map \<Rightarrow> (account_id \<times> uint256 \<times> uint256 \<times> bool \<times> bytes) list" where
  "cache_entries m =
     concat (map (\<lambda>(acc, _, nss). concat (map (\<lambda>(ns, es). map (\<lambda>(key, is_modified, blob). (acc, ns, key, is_modified, blob)) es) nss)) m)"

fun commit_loop ::
  "fees \<Rightarrow> (account_id \<times> uint256 \<times> uint256 \<times> bool \<times> bytes) list \<Rightarrow> u16 \<Rightarrow> ledger \<Rightarrow> (TER \<times> ledger) outcome" where
  "commit_loop f [] changeCount L = Ok (tesSUCCESS, L)"
| "commit_loop f ((acc, ns, key, is_modified, blob) # es) changeCount L =
     (if is_modified then
        let changeCount = changeCount + 1 in
        if 0xFFFF \<le> changeCount then Ok (tecHOOK_REJECTED, L)
        else
          obind (setHookState f L acc ns key blob) (\<lambda>(result, L).
          if result \<noteq> tesSUCCESS then Ok (result, L)
          else commit_loop f es changeCount L)
      else commit_loop f es changeCount L)"

definition finalizeHookState :: "fees \<Rightarrow> state_map \<Rightarrow> ledger \<Rightarrow> (TER \<times> ledger) outcome" where
  "finalizeHookState f m L = commit_loop f (cache_entries m) 0 L"

end
