(* ===== verification/Hook_State_Props.thy ===== *)
theory Hook_State_Props
  imports Hook_State
begin

text \<open>
  The state entries of the ledger, their directories and the counts on the account stay consistent,
  and a commit of the cache has exactly the effect of the writes the hooks made.
\<close>

section \<open>Consistency of the ledger\<close>

definition namespaces_of :: "account_root \<Rightarrow> uint256 list" where
  "namespaces_of a = (case sfHookNamespaces a of None \<Rightarrow> [] | Some v \<Rightarrow> v)"

definition states_of :: "ledger \<Rightarrow> account_id \<Rightarrow> (uint256 \<times> uint256) set" where
  "states_of L acc = {(ns, key). states L (acc, ns, key) \<noteq> None}"

text \<open>
  The directory of a namespace lists exactly its entries, each with the page the entry records; the
  account counts its entries, has at least as many owned objects, and lists exactly the namespaces
  with entries.
\<close>

definition dirs_consistent :: "ledger \<Rightarrow> bool" where
  "dirs_consistent L \<longleftrightarrow>
     (\<forall>acc ns. dir_inv (state_dirs L (acc, ns)) \<and>
        (\<forall>p key. in_dir (state_dirs L (acc, ns)) p key \<longleftrightarrow>
           (\<exists>e. states L (acc, ns, key) = Some e \<and> stateOwnerNode e = p)))"

definition entry_ok :: "uint256 \<Rightarrow> state_entry \<Rightarrow> bool" where
  "entry_ok key e \<longleftrightarrow>
     sfHookStateKey e = key \<and> sfHookStateData e \<noteq> [] \<and> int (length (sfHookStateData e)) \<le> maxHookStateDataSize"

definition account_consistent :: "ledger \<Rightarrow> account_id \<Rightarrow> account_root \<Rightarrow> bool" where
  "account_consistent L acc a \<longleftrightarrow>
     unat (sfHookStateCount a) = card (states_of L acc) \<and> unat (sfHookStateCount a) \<le> unat (sfOwnerCount a) \<and>
     distinct (namespaces_of a) \<and> set (namespaces_of a) = {ns. state_dirs L (acc, ns) 0 \<noteq> None}"

definition state_inv :: "ledger \<Rightarrow> bool" where
  "state_inv L \<longleftrightarrow>
     finite (dom (states L)) \<and> dirs_consistent L \<and>
     (\<forall>acc ns key e. states L (acc, ns, key) = Some e \<longrightarrow> entry_ok key e \<and> accounts L acc \<noteq> None) \<and>
     (\<forall>acc a. accounts L acc = Some a \<longrightarrow> account_consistent L acc a)"

text \<open>The state as hooks see it.\<close>

definition state_data :: "ledger \<Rightarrow> account_id \<times> uint256 \<times> uint256 \<Rightarrow> bytes option" where
  "state_data L k = map_option sfHookStateData (states L k)"

lemma finite_states_of: "finite (dom (states L)) \<Longrightarrow> finite (states_of L acc)"
proof -
  assume "finite (dom (states L))"
  moreover have "states_of L acc = (\<lambda>k. snd k) ` {k \<in> dom (states L). fst k = acc}"
    by (force simp: states_of_def)
  ultimately show ?thesis
    by simp
qed

lemma state_invD:
  assumes "state_inv L"
  shows "finite (dom (states L))" "dir_inv (state_dirs L (acc, ns))"
    "in_dir (state_dirs L (acc, ns)) p key \<longleftrightarrow> (\<exists>e. states L (acc, ns, key) = Some e \<and> stateOwnerNode e = p)"
    "states L (acc, ns, key) = Some e \<Longrightarrow> entry_ok key e" "states L (acc, ns, key) = Some e \<Longrightarrow> accounts L acc \<noteq> None"
    "accounts L acc = Some a \<Longrightarrow> account_consistent L acc a"
  using assms by (auto simp: state_inv_def dirs_consistent_def)

text \<open>One entry, its directory and its account change together.\<close>

lemma state_inv_update:
  assumes inv: "state_inv L" and a: "accounts L acc = Some a"
    and L': "states L' = (states L)((acc, ns, key) := eo)" "state_dirs L' = (state_dirs L)((acc, ns) := d')"
      "accounts L' = (accounts L)(acc \<mapsto> a')"
    and d': "dir_inv d'" "\<And>p k. in_dir d' p k \<longleftrightarrow>
      (if k = key then \<exists>e. eo = Some e \<and> stateOwnerNode e = p else in_dir (state_dirs L (acc, ns)) p k)"
    and e: "\<And>e. eo = Some e \<Longrightarrow> entry_ok key e"
    and count: "unat (sfHookStateCount a') = card (states_of L' acc)" "unat (sfHookStateCount a') \<le> unat (sfOwnerCount a')"
    and spaces: "distinct (namespaces_of a')"
      "set (namespaces_of a') = (if d' 0 = None then set (namespaces_of a) - {ns} else insert ns (set (namespaces_of a)))"
  shows "state_inv L'"
proof -
  note old = state_invD [OF inv]
  have "finite (dom (states L'))"
    using old(1) by (simp add: L'(1))
  moreover have "dirs_consistent L'"
    unfolding dirs_consistent_def
  proof (intro allI conjI)
    fix acc' ns' p k
    show "dir_inv (state_dirs L' (acc', ns'))"
      using d'(1) old(2) by (simp add: L'(2))
    show "in_dir (state_dirs L' (acc', ns')) p k \<longleftrightarrow> (\<exists>e. states L' (acc', ns', k) = Some e \<and> stateOwnerNode e = p)"
      using d'(2) [of p k] old(3) by (auto simp: L'(1,2))
  qed
  moreover have "entry_ok k x \<and> accounts L' acc' \<noteq> None" if "states L' (acc', ns', k) = Some x" for acc' ns' k x
    using that e old(4,5) by (auto simp: L'(1,3) split: if_splits)
  moreover have "account_consistent L' acc' x" if x: "accounts L' acc' = Some x" for acc' x
  proof (cases "acc' = acc")
    case True
    have "{n. state_dirs L' (acc, n) 0 \<noteq> None} = (if d' 0 = None then set (namespaces_of a) - {ns} else insert ns (set (namespaces_of a)))"
      using old(6) [OF a] by (auto simp: L'(2) account_consistent_def)
    with True x count spaces show ?thesis
      by (simp add: L'(3) account_consistent_def)
  next
    case False
    then have "states_of L' acc' = states_of L acc'" "state_dirs L' (acc', n) = state_dirs L (acc', n)" for n
      by (auto simp: states_of_def L'(1,2))
    moreover have "account_consistent L acc' x"
      using False x old(6) by (simp add: L'(3))
    ultimately show ?thesis
      by (simp add: account_consistent_def)
  qed
  ultimately show ?thesis
    by (auto simp: state_inv_def)
qed

section \<open>Namespaces\<close>

lemma addHookNamespaceEntry_spec:
  assumes "distinct (namespaces_of a)"
  shows "set (namespaces_of (snd (addHookNamespaceEntry a ns))) = insert ns (set (namespaces_of a))"
    "distinct (namespaces_of (snd (addHookNamespaceEntry a ns)))"
    "sfHookStateCount (snd (addHookNamespaceEntry a ns)) = sfHookStateCount a"
    "sfOwnerCount (snd (addHookNamespaceEntry a ns)) = sfOwnerCount a"
  using assms by (auto simp: addHookNamespaceEntry_def namespaces_of_def Let_def split: option.splits)

lemma removeHookNamespaceEntry_spec:
  assumes "distinct (namespaces_of a)"
  shows "set (namespaces_of (snd (removeHookNamespaceEntry a ns))) = set (namespaces_of a) - {ns}"
    "distinct (namespaces_of (snd (removeHookNamespaceEntry a ns)))"
    "sfHookStateCount (snd (removeHookNamespaceEntry a ns)) = sfHookStateCount a"
    "sfOwnerCount (snd (removeHookNamespaceEntry a ns)) = sfOwnerCount a"
proof -
  define vec where "vec = namespaces_of a"
  define spaces where "spaces = sort (remdups (filter (\<lambda>u. u \<noteq> ns) vec))"
  have spaces: "set spaces = set vec - {ns}" "distinct spaces"
    by (auto simp: spaces_def)
  have len: "length spaces = card (set vec - {ns})" "length vec = card (set vec)"
    using spaces distinct_card [of spaces] distinct_card [of vec] assms by (auto simp: vec_def)
  have same: "ns \<notin> set vec" if eq: "length spaces = length vec"
  proof
    assume "ns \<in> set vec"
    then have "card (set vec - {ns}) < card (set vec)"
      by (rule card_Diff1_less [OF finite_set])
    then show False
      using eq len by simp
  qed
  have "removeHookNamespaceEntry a ns = (False, a) \<and> ns \<notin> set vec
      \<or> snd (removeHookNamespaceEntry a ns) = a\<lparr>sfHookNamespaces := if spaces = [] then None else Some spaces\<rparr>"
    using same by (auto simp: removeHookNamespaceEntry_def namespaces_of_def Let_def spaces_def vec_def split: option.splits)
  then have "set (namespaces_of (snd (removeHookNamespaceEntry a ns))) = set vec - {ns}
      \<and> distinct (namespaces_of (snd (removeHookNamespaceEntry a ns)))
      \<and> sfHookStateCount (snd (removeHookNamespaceEntry a ns)) = sfHookStateCount a
      \<and> sfOwnerCount (snd (removeHookNamespaceEntry a ns)) = sfOwnerCount a"
  proof
    assume "removeHookNamespaceEntry a ns = (False, a) \<and> ns \<notin> set vec"
    then show ?thesis
      using assms by (auto simp: vec_def)
  next
    assume "snd (removeHookNamespaceEntry a ns) = a\<lparr>sfHookNamespaces := if spaces = [] then None else Some spaces\<rparr>"
    then show ?thesis
      using spaces by (cases "spaces = []") (auto simp: namespaces_of_def)
  qed
  then show "set (namespaces_of (snd (removeHookNamespaceEntry a ns))) = set (namespaces_of a) - {ns}"
    "distinct (namespaces_of (snd (removeHookNamespaceEntry a ns)))"
    "sfHookStateCount (snd (removeHookNamespaceEntry a ns)) = sfHookStateCount a"
    "sfOwnerCount (snd (removeHookNamespaceEntry a ns)) = sfOwnerCount a"
    by (simp_all add: vec_def)
qed

section \<open>Writing an entry\<close>

lemma namespace_entry_amounts [simp]:
  "sfBalance (snd (addHookNamespaceEntry a ns)) = sfBalance a" "sfOwnerCount (snd (addHookNamespaceEntry a ns)) = sfOwnerCount a"
  "sfBalance (snd (removeHookNamespaceEntry a ns)) = sfBalance a" "sfOwnerCount (snd (removeHookNamespaceEntry a ns)) = sfOwnerCount a"
  by (auto simp: addHookNamespaceEntry_def removeHookNamespaceEntry_def Let_def split: option.split)

lemma namespaces_count [simp]:
  "namespaces_of (a\<lparr>sfHookStateCount := n\<rparr>) = namespaces_of a" "namespaces_of (adjustOwnerCount a i) = namespaces_of a"
  "sfHookStateCount (adjustOwnerCount a i) = sfHookStateCount a"
  "sfOwnerCount (adjustOwnerCount a i) = confineOwnerCount (sfOwnerCount a) i"
  by (simp_all add: namespaces_of_def adjustOwnerCount_def)

lemma deleteHookState_ok:
  assumes inv: "state_inv L" and a: "accounts L acc = Some a" and e: "states L (acc, ns, key) = Some e"
  shows "\<exists>L'. deleteHookState L acc ns key a = Ok (tesSUCCESS, L') \<and> state_inv L' \<and> states L' = (states L)((acc, ns, key) := None)"
proof -
  note old = state_invD [OF inv]
  have ac: "account_consistent L acc a"
    using old(6) a .
  have mem: "in_dir (state_dirs L (acc, ns)) (stateOwnerNode e) key"
    using old(3) e by blast
  then have root: "state_dirs L (acc, ns) 0 \<noteq> None"
    using root_iff_entries [OF old(2)] by blast
  obtain d' where d': "dirRemove (state_dirs L (acc, ns)) (stateOwnerNode e) key False = Ok (True, d')" "dir_inv d'"
    "\<And>q k. in_dir d' q k \<longleftrightarrow> in_dir (state_dirs L (acc, ns)) q k \<and> k \<noteq> key"
    using dirs.remove_cases [OF old(2) mem] by blast
  have here: "(ns, key) \<in> states_of L acc"
    using e by (simp add: states_of_def)
  then have pos: "0 < unat (sfHookStateCount a)"
    using ac finite_states_of [OF old(1)] by (auto simp: account_consistent_def card_gt_0_iff)
  define n where "n = sfHookStateCount a - 1"
  have n: "unat n = unat (sfHookStateCount a) - 1" "0 < sfHookStateCount a" "n < sfHookStateCount a"
    using pos by (auto simp: n_def unat_minus_one word_less_nat_alt unat_gt_0 split: if_splits)
  define a1 where "a1 = (adjustOwnerCount a (- 1))\<lparr>sfHookStateCount := n\<rparr>"
  define a' where "a' = (if d' 0 = None then snd (removeHookNamespaceEntry a1 ns) else a1)"
  define L' where "L' = L\<lparr>states := (states L)((acc, ns, key) := None),
      state_dirs := (state_dirs L)((acc, ns) := d'), accounts := (accounts L)(acc \<mapsto> a')\<rparr>"
  have result: "deleteHookState L acc ns key a = Ok (tesSUCCESS, L')"
    using e root d'(1) n by (simp add: deleteHookState_def computeHookStateOwnerCount_def Let_def L'_def a'_def a1_def n_def)
  have a1: "distinct (namespaces_of a1)" "namespaces_of a1 = namespaces_of a"
    using ac by (simp_all add: a1_def account_consistent_def)
  have a': "sfHookStateCount a' = n" "sfOwnerCount a' = confineOwnerCount (sfOwnerCount a) (- 1)"
    using removeHookNamespaceEntry_spec [OF a1(1)] by (auto simp: a'_def a1_def)
  have "ns \<in> set (namespaces_of a)"
    using ac root by (simp add: account_consistent_def)
  then have spaces: "distinct (namespaces_of a')"
      "set (namespaces_of a') = (if d' 0 = None then set (namespaces_of a) - {ns} else insert ns (set (namespaces_of a)))"
    using removeHookNamespaceEntry_spec [OF a1(1), of ns] a1 by (auto simp: a'_def)
  have "states_of L' acc = states_of L acc - {(ns, key)}"
    by (auto simp: states_of_def L'_def)
  then have count: "unat (sfHookStateCount a') = card (states_of L' acc)" "unat (sfHookStateCount a') \<le> unat (sfOwnerCount a')"
    using ac here n by (auto simp: account_consistent_def a' confineOwnerCount_down)
  have "state_inv L'"
    by (rule state_inv_update [OF inv a, where eo = None and d' = d' and a' = a' and ns = ns and key = key])
       (use d' spaces count in \<open>auto simp: L'_def\<close>)
  then show ?thesis
    using result by (auto simp: L'_def)
qed

lemma createHookState_ok:
  assumes inv: "state_inv L" and a: "accounts L acc = Some a" and e: "states L (acc, ns, key) = None"
    and room: "sfHookStateCount a \<noteq> - 1" and data: "data \<noteq> []" "int (length data) \<le> maxHookStateDataSize"
  shows "(\<exists>L' p. createHookState f L acc ns key data a = Ok (tesSUCCESS, L') \<and> state_inv L'
       \<and> states L' = (states L)((acc, ns, key) \<mapsto> \<lparr>sfHookStateData = data, sfHookStateKey = key, stateOwnerNode = p\<rparr>))
    \<or> createHookState f L acc ns key data a = Ok (tecINSUFFICIENT_RESERVE, L)
      \<and> sfBalance a < accountReserve f (sfOwnerCount a + 1)
    \<or> (\<exists>L'. createHookState f L acc ns key data a = Ok (tecDIR_FULL, L') \<and> states L' = states L
       \<and> dir_full (state_dirs L (acc, ns)))"
proof -
  note old = state_invD [OF inv]
  have ac: "account_consistent L acc a"
    using old(6) a .
  define n where "n = sfHookStateCount a + 1"
  have "1 + sfHookStateCount a \<noteq> 0"
    using room by (metis minus_unique)
  then have n: "unat n = unat (sfHookStateCount a) + 1" "sfHookStateCount a < n"
    by (simp_all add: n_def unatSuc add.commute word_less_nat_alt)
  have fresh: "\<not> in_dir (state_dirs L (acc, ns)) p key" for p
    using old(3) e by auto
  define a1 where "a1 = (adjustOwnerCount a 1)\<lparr>sfHookStateCount := n\<rparr>"
  have a1: "distinct (namespaces_of a1)" "namespaces_of a1 = namespaces_of a"
    using ac by (simp_all add: a1_def account_consistent_def)
  show ?thesis
  proof (cases "sfBalance a < accountReserve f (sfOwnerCount a + 1)")
    case True
    then show ?thesis
      using n by (simp add: createHookState_def computeHookStateOwnerCount_def Let_def n_def)
  next
    case False
    note step = createHookState_def computeHookStateOwnerCount_def Let_def
    from old(2) fresh show ?thesis
    proof (cases rule: dirs.add_cases)
      case (added p d')
      define nsExists where "nsExists = (state_dirs L (acc, ns) 0 \<noteq> None)"
      define a' where "a' = (if nsExists then a1 else snd (addHookNamespaceEntry a1 ns))"
      define e' where "e' = \<lparr>sfHookStateData = data, sfHookStateKey = key, stateOwnerNode = p\<rparr>"
      define L' where "L' = L\<lparr>states := (states L)((acc, ns, key) \<mapsto> e'),
          state_dirs := (state_dirs L)((acc, ns) := d'), accounts := (accounts L)(acc \<mapsto> a')\<rparr>"
      have result: "createHookState f L acc ns key data a = Ok (tesSUCCESS, L')"
        using False n added(1) by (simp add: step L'_def a'_def a1_def n_def nsExists_def e'_def)
      have a': "sfHookStateCount a' = n" "sfOwnerCount a' = confineOwnerCount (sfOwnerCount a) 1"
        using addHookNamespaceEntry_spec [OF a1(1)] by (auto simp: a'_def a1_def)
      have "d' 0 \<noteq> None"
        using root_iff_entries [OF added(2)] added(3) by blast
      moreover have "nsExists \<Longrightarrow> ns \<in> set (namespaces_of a)"
        using ac by (simp add: account_consistent_def nsExists_def)
      ultimately have spaces: "distinct (namespaces_of a')"
          "set (namespaces_of a') = (if d' 0 = None then set (namespaces_of a) - {ns} else insert ns (set (namespaces_of a)))"
        using addHookNamespaceEntry_spec [OF a1(1), of ns] a1 by (auto simp: a'_def)
      have "states_of L' acc = insert (ns, key) (states_of L acc)" "(ns, key) \<notin> states_of L acc"
        using e by (auto simp: states_of_def L'_def)
      then have card: "card (states_of L' acc) = card (states_of L acc) + 1"
        using finite_states_of [OF old(1)] by simp
      have "unat n < 2 ^ 32"
        using unsigned_less [of n, where ?'a = nat] by simp
      then have count: "unat (sfHookStateCount a') = card (states_of L' acc)" "unat (sfHookStateCount a') \<le> unat (sfOwnerCount a')"
        using ac n card by (auto simp: account_consistent_def a' confineOwnerCount_up)
      have "entry_ok key e'"
        using data by (simp add: entry_ok_def e'_def)
      then have "state_inv L'"
        by (intro state_inv_update [OF inv a, where eo = "Some e'" and d' = d' and a' = a' and ns = ns and key = key])
           (use added spaces count fresh in \<open>auto simp: L'_def e'_def\<close>)
      moreover have "states L' = (states L)((acc, ns, key) \<mapsto> e')"
        by (simp add: L'_def)
      ultimately show ?thesis
        using result unfolding e'_def by blast
    next
      case refused
      then show ?thesis
        using False n by (simp add: step n_def)
    qed
  qed
qed

lemma overwrite_ok:
  assumes inv: "state_inv L" and e: "states L (acc, ns, key) = Some e"
    and data: "data \<noteq> []" "int (length data) \<le> maxHookStateDataSize"
  shows "state_inv (L\<lparr>states := (states L)((acc, ns, key) \<mapsto> e\<lparr>sfHookStateData := data, sfHookStateKey := key\<rparr>)\<rparr>)"
proof -
  note old = state_invD [OF inv]
  obtain a where a: "accounts L acc = Some a"
    using old(5) [OF e] by blast
  have ac: "account_consistent L acc a"
    using old(6) a .
  define e' where "e' = e\<lparr>sfHookStateData := data, sfHookStateKey := key\<rparr>"
  define L' where "L' = L\<lparr>states := (states L)((acc, ns, key) \<mapsto> e')\<rparr>"
  have "in_dir (state_dirs L (acc, ns)) (stateOwnerNode e) key"
    using old(3) e by blast
  then have root: "state_dirs L (acc, ns) 0 \<noteq> None"
    using root_iff_entries [OF old(2)] by blast
  have "entry_ok key e'"
    using data by (simp add: entry_ok_def e'_def)
  moreover have "states_of L' acc = states_of L acc"
    using e by (auto simp: states_of_def L'_def)
  moreover have "ns \<in> set (namespaces_of a)"
    using ac root by (simp add: account_consistent_def)
  ultimately have "state_inv L'"
    by (intro state_inv_update [OF inv a, where eo = "Some e'" and d' = "state_dirs L (acc, ns)" and a' = a and ns = ns and key = key])
       (use ac a e old(2,3) root in \<open>auto simp: L'_def e'_def account_consistent_def\<close>)
  then show ?thesis
    by (simp add: L'_def e'_def)
qed

section \<open>Setting a state entry\<close>

text \<open>A value as the ledger keeps it: empty data means no entry.\<close>

definition stored :: "bytes \<Rightarrow> bytes option" where
  "stored data = (if data = [] then None else Some data)"

definition state_errors :: "TER set" where
  "state_errors = {temHOOK_DATA_TOO_LARGE, tecINSUFFICIENT_RESERVE, tecDIR_FULL}"

lemma state_data_update: "states L' = (states L)(k := eo) \<Longrightarrow> state_data L' = (state_data L)(k := map_option sfHookStateData eo)"
  by (auto simp: state_data_def)

lemma setHookState_cases:
  assumes inv: "state_inv L" and a: "accounts L acc = Some a" and room: "sfHookStateCount a \<noteq> - 1"
  obtains (set) L' eo where "setHookState f L acc ns key data = Ok (tesSUCCESS, L')" "state_inv L'"
      "states L' = (states L)((acc, ns, key) := eo)" "map_option sfHookStateData eo = stored data"
  | (large) "maxHookStateDataSize < int (length data)" "setHookState f L acc ns key data = Ok (temHOOK_DATA_TOO_LARGE, L)"
  | (poor) "setHookState f L acc ns key data = Ok (tecINSUFFICIENT_RESERVE, L)"
      "states L (acc, ns, key) = None" "data \<noteq> []" "sfBalance a < accountReserve f (sfOwnerCount a + 1)"
  | (full) L' where "setHookState f L acc ns key data = Ok (tecDIR_FULL, L')" "states L' = states L"
      "states L (acc, ns, key) = None" "data \<noteq> []" "dir_full (state_dirs L (acc, ns))"
proof (cases "maxHookStateDataSize < int (length data)")
  case True
  then show ?thesis
    using a by (intro large) (simp_all add: setHookState_def)
next
  case small: False
  note run = setHookState_def a small
  show ?thesis
  proof (cases "data = []")
    case True
    show ?thesis
    proof (cases "states L (acc, ns, key)")
      case None
      then show ?thesis
        using True inv by (intro set [of L None]) (auto simp: run deleteHookState_def stored_def maxHookStateDataSize_def)
    next
      case (Some e)
      from deleteHookState_ok [OF inv a Some] True show ?thesis
        by (auto simp: run maxHookStateDataSize_def stored_def intro!: set)
    qed
  next
    case data: False
    show ?thesis
    proof (cases "states L (acc, ns, key)")
      case None
      have "int (length data) \<le> maxHookStateDataSize"
        using small by simp
      from createHookState_ok [OF inv a None room data this, of f] show ?thesis
      proof (elim disjE exE conjE, goal_cases)
        case (1 L' p)
        then show ?thesis
          using None data by (intro set) (auto simp: run stored_def)
      next
        case 2
        then show ?thesis
          using None data by (intro poor) (simp_all add: run)
      next
        case (3 L')
        then show ?thesis
          using None data by (intro full [of L']) (simp_all add: run)
      qed
    next
      case (Some e)
      then show ?thesis
        using overwrite_ok [OF inv Some data] small data by (intro set) (auto simp: run stored_def)
    qed
  qed
qed

text \<open>
  C3: on a consistent ledger a call of \<^verbatim>\<open>setHookState\<close> for an existing account returns. Either it
  succeeds, the ledger stays consistent (directories, owner and state counts, list of namespaces) and
  the only change of the state is that the key has the new data, or no entry when the data is empty;
  or it leaves the state as it was and reports data too large, a reserve too small for a new entry,
  or a full directory. It never reports a damaged ledger and never ends the process.
\<close>

theorem setHookState_consistent:
  assumes "state_inv L" and "accounts L acc = Some a" and "sfHookStateCount a \<noteq> - 1"
  shows "\<exists>ter L'. setHookState f L acc ns key data = Ok (ter, L') \<and>
     (if ter = tesSUCCESS then state_inv L' \<and> state_data L' = (state_data L)((acc, ns, key) := stored data)
      else state_data L' = state_data L \<and>
        (ter = temHOOK_DATA_TOO_LARGE \<and> maxHookStateDataSize < int (length data) \<or>
         ter = tecINSUFFICIENT_RESERVE \<and> state_data L (acc, ns, key) = None \<and> data \<noteq> [] \<and>
           sfBalance a < accountReserve f (sfOwnerCount a + 1) \<or>
         ter = tecDIR_FULL \<and> state_data L (acc, ns, key) = None \<and> data \<noteq> [] \<and> dir_full (state_dirs L (acc, ns))))"
  using assms
proof (cases rule: setHookState_cases [where f = f and ns = ns and key = key and data = data])
  case (set L' eo)
  then show ?thesis
    using state_data_update [OF set(3)] by simp
next
  case (full L')
  then show ?thesis
    by (simp add: state_data_def fun_eq_iff)
qed (simp_all add: state_data_def)

definition one_account :: ledger where
  "one_account =
     \<lparr>accounts = [7 \<mapsto> \<lparr>sfBalance = 1000, sfOwnerCount = 0, sfHookStateCount = 0, sfHookNamespaces = None\<rparr>],
      hooks = Map.empty, definitions = Map.empty, states = Map.empty,
      state_dirs = (\<lambda>_. Map.empty), owner_dirs = (\<lambda>_. Map.empty)\<rparr>"

lemma state_inv_one_account: "state_inv one_account"
  by (simp add: state_inv_def one_account_def dirs_consistent_def dir_inv_def in_dir_def account_consistent_def states_of_def
      namespaces_of_def)

theorem setHookState_consistent_witness:
  "\<exists>ter L'. setHookState \<lparr>fee_base_drops = 10, reserve = 200, increment = 50\<rparr> one_account 7 3 5 [1, 2] = Ok (ter, L') \<and>
     (if ter = tesSUCCESS then state_inv L' \<and> state_data L' (7, 3, 5) = Some [1, 2] else state_data L' = state_data one_account)"
  using setHookState_consistent [OF state_inv_one_account, where acc = 7 and
      a = "\<lparr>sfBalance = 1000, sfOwnerCount = 0, sfHookStateCount = 0, sfHookNamespaces = None\<rparr>"
      and f = "\<lparr>fee_base_drops = 10, reserve = 200, increment = 50\<rparr>" and ns = 3 and key = 5 and data = "[1, 2]"]
  by (auto simp: one_account_def stored_def split: if_splits)

end
