(* ===== verification/Hook_State_Commit.thy ===== *)
theory Hook_State_Commit
  imports Hook_State_Props
begin

text \<open>
  The cache of hook state: what the API functions store in it is what they read back, and its commit
  has exactly the effect of the writes the hooks made.
\<close>

section \<open>Nested ordered maps as one map\<close>

definition pair_keys :: "('a \<times> ('b \<times> 'v) list) list \<Rightarrow> (('a \<times> 'b) \<times> 'v) list" where
  "pair_keys m = concat (map (\<lambda>(k, es). map (\<lambda>(k', v). ((k, k'), v)) es) m)"

lemma map_of_pair: "map_of (map (\<lambda>(k', v). ((a, k'), v)) es) (k, k') = (if k = a then map_of es k' else None)"
  by (induction es) auto

lemma map_of_pair_keys:
  "distinct (map fst m) \<Longrightarrow> map_of (pair_keys m) (k, k') = (case map_of m k of None \<Rightarrow> None | Some es \<Rightarrow> map_of es k')"
proof (induction m)
  case (Cons x m)
  then have "map_of m (fst x) = None"
    by (simp add: map_of_eq_None_iff)
  with Cons show ?case
    by (cases x) (auto simp: pair_keys_def map_of_pair map_add_def split: option.split)
qed (simp add: pair_keys_def)

lemma fst_pair_keys: "(k, k') \<in> fst ` set (pair_keys m) \<Longrightarrow> k \<in> fst ` set m"
  by (force simp: pair_keys_def)

lemma distinct_pair_keys:
  "distinct (map fst m) \<Longrightarrow> (\<And>k es. (k, es) \<in> set m \<Longrightarrow> distinct (map fst es)) \<Longrightarrow> distinct (map fst (pair_keys m))"
proof (induction m)
  case (Cons x m)
  obtain a es where x: "x = (a, es)"
    by fastforce
  have "map fst (map (\<lambda>(k', v). ((a, k'), v)) es) = map (Pair a) (map fst es)"
    by auto
  moreover have "distinct (map fst es)"
    using Cons.prems(2) [of a es] x by simp
  ultimately have "distinct (map fst (map (\<lambda>(k', v). ((a, k'), v)) es))"
    by (simp add: distinct_map del: map_map) (simp add: distinct_map inj_on_def)
  moreover have "distinct (map fst (pair_keys m))"
    using Cons by auto
  moreover have "(a, k') \<notin> fst ` set (pair_keys m)" for k'
    using Cons.prems(1) x fst_pair_keys [of a k' m] by auto
  then have "fst ` set (map (\<lambda>(k', v). ((a, k'), v)) es) \<inter> fst ` set (pair_keys m) = {}"
    by (force simp: image_iff)
  moreover have "pair_keys (x # m) = map (\<lambda>(k', v). ((a, k'), v)) es @ pair_keys m"
    by (simp add: pair_keys_def x)
  ultimately show ?case
    by (simp only: map_append distinct_append set_map)
qed (simp add: pair_keys_def)

section \<open>Well-formed caches\<close>

definition cache_ok :: "state_map \<Rightarrow> bool" where
  "cache_ok m \<longleftrightarrow> omap_ok m \<and> (\<forall>(acc, n, nss) \<in> set m. omap_ok nss \<and> (\<forall>(ns, es) \<in> set nss. omap_ok es))"

lemma cache_okI:
  "omap_ok m \<Longrightarrow> (\<And>acc n nss. (acc, n, nss) \<in> set m \<Longrightarrow> omap_ok nss) \<Longrightarrow>
   (\<And>acc n nss ns es. (acc, n, nss) \<in> set m \<Longrightarrow> (ns, es) \<in> set nss \<Longrightarrow> omap_ok es) \<Longrightarrow> cache_ok m"
  by (fastforce simp: cache_ok_def)

lemma cache_okD:
  assumes "cache_ok m"
  shows "omap_ok m" "(acc, n, nss) \<in> set m \<Longrightarrow> omap_ok nss"
    "(acc, n, nss) \<in> set m \<Longrightarrow> (ns, es) \<in> set nss \<Longrightarrow> omap_ok es"
  using assms by (fastforce simp: cache_ok_def)+

text \<open>All entries of a cache under account, namespace and key.\<close>

definition cache_alist :: "state_map \<Rightarrow> ((account_id \<times> uint256 \<times> uint256) \<times> bool \<times> bytes) list" where
  "cache_alist m = pair_keys (map (\<lambda>(acc, n, nss). (acc, pair_keys nss)) m)"

lemma cache_entries_alist: "cache_entries m = map (\<lambda>((acc, ns, key), v). (acc, ns, key, v)) (cache_alist m)"
proof -
  have inner: "map (\<lambda>((acc, ns, key), v). (acc, ns, key, v)) (map (\<lambda>(k', v). ((acc, k'), v)) (pair_keys nss))
      = concat (map (\<lambda>(ns, es). map (\<lambda>(key, is_modified, blob). (acc, ns, key, is_modified, blob)) es) nss)" for acc nss
    by (induction nss) (auto simp: pair_keys_def)
  show ?thesis
  proof (induction m)
    case (Cons x m)
    obtain acc n nss where x: "x = (acc, n, nss)"
      by (cases x)
    have "cache_alist (x # m) = map (\<lambda>(k', v). ((acc, k'), v)) (pair_keys nss) @ cache_alist m"
      by (simp add: cache_alist_def pair_keys_def x)
    moreover have "cache_entries (x # m) = concat (map (\<lambda>(ns, es). map (\<lambda>(key, is_modified, blob). (acc, ns, key, is_modified, blob)) es) nss) @ cache_entries m"
      by (simp add: cache_entries_def x)
    ultimately show ?case
      by (simp only: map_append inner Cons)
  qed (simp add: cache_entries_def cache_alist_def pair_keys_def)
qed

lemma cache_alist_lookup:
  assumes "cache_ok (stateMap ctx)"
  shows "map_of (cache_alist (stateMap ctx)) (acc, ns, key) = lookup_state_cache ctx acc ns key"
proof -
  let ?m = "map (\<lambda>(acc, n, nss). (acc, pair_keys nss)) (stateMap ctx)"
  have "map fst ?m = map fst (stateMap ctx)"
    by auto
  then have "distinct (map fst ?m)"
    using assms by (simp only: cache_ok_def omap_ok_distinct)
  moreover have "map_of (map (\<lambda>(acc, n, nss). (acc, pair_keys nss)) m) acc = map_option (\<lambda>(n, nss). pair_keys nss) (map_of m acc)"
    for m :: state_map
    by (induction m) auto
  moreover have "distinct (map fst nss)" if "map_of (stateMap ctx) acc = Some (n, nss)" for n nss
    using assms map_of_SomeD [OF that] by (force simp: cache_ok_def intro: omap_ok_distinct)
  ultimately show ?thesis
    by (simp add: cache_alist_def map_of_pair_keys lookup_state_cache_def case_prod_unfold split: option.split)
qed

lemma distinct_cache_alist: "cache_ok m \<Longrightarrow> distinct (map fst (cache_alist m))"
  unfolding cache_alist_def
  by (intro distinct_pair_keys)
     (auto simp: comp_def case_prod_unfold intro!: distinct_pair_keys omap_ok_distinct dest: cache_okD)

lemma cache_ok_empty: "cache_ok []"
  by (simp add: cache_ok_def omap_ok_def)

lemma cache_ok_put:
  assumes m: "cache_ok m" and nss: "omap_ok nss" "\<And>ns es. (ns, es) \<in> set nss \<Longrightarrow> omap_ok es"
  shows "cache_ok (omap_put acc (n, nss) m)"
proof (rule cache_okI)
  show "omap_ok (omap_put acc (n, nss) m)"
    using cache_okD(1) [OF m] by (rule omap_ok_put)
  fix acc' n' nss'
  assume "(acc', n', nss') \<in> set (omap_put acc (n, nss) m)"
  then have *: "nss' = nss \<or> (acc', n', nss') \<in> set m"
    using omap_set_put [of acc "(n, nss)" m] by auto
  then show "omap_ok nss'"
    using nss(1) cache_okD(2) [OF m] by auto
  show "omap_ok es" if "(ns, es) \<in> set nss'" for ns es
    using * that nss(2) cache_okD(3) [OF m] by auto
qed

lemma cache_ok_put_entry:
  assumes m: "cache_ok m" and acc: "map_of m acc = Some (av, nss)" and es: "omap_ok es"
  shows "cache_ok (omap_put acc (n, omap_put ns es nss) m)"
proof (rule cache_ok_put [OF m])
  have old: "(acc, av, nss) \<in> set m"
    using acc by (rule map_of_SomeD)
  show "omap_ok (omap_put ns es nss)"
    using cache_okD(2) [OF m old] by (rule omap_ok_put)
  fix ns' es'
  assume "(ns', es') \<in> set (omap_put ns es nss)"
  then have "es' = es \<or> (ns', es') \<in> set nss"
    using omap_set_put [of ns es nss] by auto
  then show "omap_ok es'"
    using es cache_okD(3) [OF m old] by auto
qed

lemma omap_ok_single [simp]: "omap_ok [(k, v)]"
  by (simp add: omap_ok_def)

lemma set_state_cache_ok:
  assumes ok: "cache_ok (stateMap ctx)" and set: "set_state_cache f L ctx acc ns key data modified = (r, ctx')"
  shows "cache_ok (stateMap ctx')"
proof (cases "map_of (stateMap ctx) acc")
  case None
  then show ?thesis
    using ok set by (auto simp: set_state_cache_def Let_def intro!: cache_ok_put split: if_splits option.splits)
next
  case (Some x)
  obtain av nss where x: "x = (av, nss)"
    by fastforce
  note acc = Some [unfolded x]
  have "omap_ok es" if "map_of nss ns = Some es" for es
    using cache_okD(3) [OF ok map_of_SomeD [OF acc] map_of_SomeD [OF that]] .
  then show ?thesis
    using ok set acc
    by (auto simp: set_state_cache_def Let_def intro!: cache_ok_put_entry omap_ok_put split: if_splits option.splits)
qed

text \<open>The cache is a store of its own: a successful write is what the next lookup of that key finds.\<close>

definition spaces_cached :: "state_ctx \<Rightarrow> account_id \<Rightarrow> (uint256, state_entries) omap" where
  "spaces_cached ctx acc = (case map_of (stateMap ctx) acc of None \<Rightarrow> [] | Some x \<Rightarrow> snd x)"

definition entries_cached :: "state_ctx \<Rightarrow> account_id \<Rightarrow> uint256 \<Rightarrow> state_entries" where
  "entries_cached ctx acc ns = (case map_of (spaces_cached ctx acc) ns of None \<Rightarrow> [] | Some es \<Rightarrow> es)"

definition cache_put :: "state_ctx \<Rightarrow> account_id \<Rightarrow> uint256 \<Rightarrow> uint256 \<Rightarrow> bool \<times> bytes \<Rightarrow> int \<Rightarrow> state_map" where
  "cache_put ctx acc ns key v n =
     omap_put acc (n, omap_put ns (omap_put key v (entries_cached ctx acc ns)) (spaces_cached ctx acc)) (stateMap ctx)"

lemma lookup_cached: "lookup_state_cache ctx acc ns key = map_of (entries_cached ctx acc ns) key"
  by (simp add: lookup_state_cache_def entries_cached_def spaces_cached_def split: option.split)

lemma lookup_cache_put:
  assumes "stateMap ctx' = cache_put ctx acc ns key v n"
  shows "lookup_state_cache ctx' acc' ns' key' =
    (if (acc', ns', key') = (acc, ns, key) then Some v else lookup_state_cache ctx acc' ns' key')"
proof -
  have "spaces_cached ctx' acc' = (if acc' = acc then omap_put ns (omap_put key v (entries_cached ctx acc ns)) (spaces_cached ctx acc)
      else spaces_cached ctx acc')"
    by (simp add: spaces_cached_def assms cache_put_def omap_lookup_put)
  then have "entries_cached ctx' acc' ns' = (if acc' = acc \<and> ns' = ns then omap_put key v (entries_cached ctx acc ns)
      else entries_cached ctx acc' ns')"
    by (simp add: entries_cached_def [of ctx' acc' ns'] omap_lookup_put) (simp add: entries_cached_def)
  then show ?thesis
    by (simp add: lookup_cached omap_lookup_put)
qed

text \<open>What a call of \<^verbatim>\<open>set_state_cache\<close> does to the map, whatever branch it takes.\<close>

lemma set_state_cache_effect:
  assumes "set_state_cache f L ctx acc ns key data modified = (r, ctx')"
  shows "(r < 0 \<and> ctx' = ctx) \<or>
    (r = 1 \<and> (\<exists>n. stateMap ctx' =
       cache_put ctx acc ns key (modified \<or> (\<exists>d. lookup_state_cache ctx acc ns key = Some (True, d)), data) n))"
proof (cases "modified \<and> max_state_modifications < unat (modified_entry_count ctx)")
  case True
  then show ?thesis
    using assms by (simp add: set_state_cache_def)
next
  case count: False
  note run = set_state_cache_def if_not_P [OF count] Let_def
  note view = cache_put_def lookup_cached entries_cached_def spaces_cached_def
  show ?thesis
  proof (cases "map_of (stateMap ctx) acc")
    case None
    then show ?thesis
      using assms by (cases "accounts L acc") (auto simp: run view split: if_splits)
  next
    case (Some x)
    obtain n nss where x: "x = (n, nss)"
      by fastforce
    note acc = Some x
    show ?thesis
    proof (cases "map_of nss ns")
      case None
      then show ?thesis
        using assms acc by (auto simp: run view split: if_splits)
    next
      case es: (Some es)
      show ?thesis
      proof (cases "map_of es key")
        case None
        then show ?thesis
          using assms acc es by (auto simp: run view split: if_splits)
      next
        case v: (Some v)
        then show ?thesis
          using assms acc es by (cases v) (auto simp: run view disj_comms)
      qed
    qed
  qed
qed

lemma set_state_cache_lookup:
  assumes "set_state_cache f L ctx acc ns key data modified = (r, ctx')"
  shows "if r = 1 then lookup_state_cache ctx' acc' ns' key' =
      (if (acc', ns', key') = (acc, ns, key)
       then Some (modified \<or> (\<exists>d. lookup_state_cache ctx acc ns key = Some (True, d)), data)
       else lookup_state_cache ctx acc' ns' key')
    else r < 0 \<and> ctx' = ctx"
  using set_state_cache_effect [OF assms] by (auto simp: lookup_cache_put)

section \<open>The commit\<close>

text \<open>The state as hooks see it is a store; the ledger refines it.\<close>

definition view_put :: "'k \<Rightarrow> 'v \<Rightarrow> ('k \<rightharpoonup> 'v) \<Rightarrow> 'k \<rightharpoonup> 'v" where
  "view_put k v s = s(k \<mapsto> v)"

definition view_del :: "'k \<Rightarrow> ('k \<rightharpoonup> 'v) \<Rightarrow> 'k \<rightharpoonup> 'v" where
  "view_del k s = s(k := None)"

interpretation views: kv_store "\<lambda>_. True" "\<lambda>_ _. True" "\<lambda>s. s" view_put view_del
  by unfold_locales (simp_all add: view_put_def view_del_def)

text \<open>The writes a cache stands for: its modified entries.\<close>

definition cache_writes :: "(account_id \<times> uint256 \<times> uint256 \<times> bool \<times> bytes) list
    \<Rightarrow> ((account_id \<times> uint256 \<times> uint256) \<times> bytes option) list" where
  "cache_writes es = map (\<lambda>(acc, ns, key, _, blob). ((acc, ns, key), stored blob)) (filter (\<lambda>(_, _, _, m, _). m) es)"

lemma cache_writes_simps [simp]:
  "cache_writes [] = []"
  "cache_writes ((acc, ns, key, m, blob) # es) = (if m then ((acc, ns, key), stored blob) # cache_writes es else cache_writes es)"
  by (simp_all add: cache_writes_def)

lemma view_write: "views.kv_write (k, eo) s = s(k := eo)"
  by (simp add: views.kv_write_def view_put_def view_del_def split: option.split)

lemma card_dom_update: "finite (dom m) \<Longrightarrow> card (dom (m(k := v))) \<le> card (dom m) + 1"
  by (cases v) (auto simp: card_insert_if card_Diff_singleton_if)

lemma count_room:
  assumes "state_inv L" and "accounts L acc = Some a" and "card (dom (states L)) < 2 ^ 32 - 1"
  shows "sfHookStateCount a \<noteq> - 1"
proof -
  have "states_of L acc \<subseteq> snd ` dom (states L)"
    by (force simp: states_of_def)
  then have "card (states_of L acc) \<le> card (dom (states L))"
    using assms(1) by (meson card_image_le card_mono finite_imageI le_trans state_invD(1))
  then have "unat (sfHookStateCount a) < 2 ^ 32 - 1"
    using assms by (auto simp: account_consistent_def dest: state_invD(6))
  moreover have "unat (- 1 :: u32) = 2 ^ 32 - 1"
    by (simp add: unsigned_minus_1_eq_mask mask_eq_exp_minus_1)
  ultimately show ?thesis
    by auto
qed

definition commit_errors :: "TER set" where
  "commit_errors = {tefINTERNAL, tecHOOK_REJECTED, temHOOK_DATA_TOO_LARGE, tecINSUFFICIENT_RESERVE, tecDIR_FULL}"

lemma commit_loop_spec:
  assumes "state_inv L" and "card (dom (states L)) + length es < 2 ^ 32 - 1"
  shows "\<exists>ter L'. commit_loop f es n L = Ok (ter, L') \<and>
    (if ter = tesSUCCESS
     then state_inv L' \<and> state_data L' = fold views.kv_write (cache_writes es) (state_data L)
     else ter \<in> commit_errors)"
  using assms
proof (induction es arbitrary: n L)
  case (Cons x es)
  obtain acc ns key m blob where x: "x = (acc, ns, key, m, blob)"
    by (cases x)
  note inv = Cons.prems(1)
  show ?case
  proof (cases "m \<and> \<not> 0xFFFF \<le> n + 1")
    case False
    show ?thesis
    proof (cases m)
      case True
      with False show ?thesis
        by (simp add: x Let_def commit_errors_def)
    next
      case False
      then show ?thesis
        using Cons.IH [OF inv, of n] Cons.prems(2) by (simp add: x split del: if_split cong: if_cong)
    qed
  next
    case m: True
    show ?thesis
    proof (cases "accounts L acc")
      case None
      then show ?thesis
        using m by (simp add: x Let_def setHookState_def commit_errors_def)
    next
      case (Some a)
      have room: "sfHookStateCount a \<noteq> - 1"
        using count_room [OF inv Some] Cons.prems(2) by simp
      from inv Some room show ?thesis
      proof (cases rule: setHookState_cases [where f = f and ns = ns and key = key and data = blob])
        case (set L' eo)
        have "card (dom (states L')) \<le> card (dom (states L)) + 1"
          using card_dom_update state_invD(1) [OF inv] by (simp only: set(3))
        then have "card (dom (states L')) + length es < 2 ^ 32 - 1"
          using Cons.prems(2) by simp
        moreover have "(state_data L)((acc, ns, key) := stored blob) = state_data L'"
          using state_data_update [OF set(3)] by (simp only: set(4))
        ultimately show ?thesis
          using m set(1) Cons.IH [OF set(2), of "n + 1"]
          by (simp add: x Let_def view_write split del: if_split cong: if_cong)
      qed (use m in \<open>simp_all add: x Let_def commit_errors_def\<close>)
    qed
  qed
qed simp

lemma cache_writes_lookup:
  assumes "cache_ok (stateMap ctx)"
  shows "map_of (rev (cache_writes (cache_entries (stateMap ctx)))) (acc, ns, key) =
    (case lookup_state_cache ctx acc ns key of Some (True, blob) \<Rightarrow> Some (stored blob) | _ \<Rightarrow> None)"
proof -
  let ?es = "filter (\<lambda>x. fst (snd x)) (cache_alist (stateMap ctx))"
  have "cache_writes (cache_entries (stateMap ctx)) = map (\<lambda>(k, v). (k, stored (snd v))) ?es"
    by (simp add: cache_writes_def cache_entries_alist filter_map comp_def case_prod_unfold)
  moreover have "distinct (map fst ?es)"
    using distinct_cache_alist [OF assms] by (simp add: distinct_map_filter)
  then have "map_of (rev (map (\<lambda>(k, v). (k, stored (snd v))) ?es)) = map_of (map (\<lambda>(k, v). (k, stored (snd v))) ?es)"
    by (intro map_of_rev_distinct) (simp add: comp_def case_prod_unfold)
  moreover have "map_of ?es (acc, ns, key) = (case lookup_state_cache ctx acc ns key of
      Some v \<Rightarrow> (if fst v then Some v else None) | None \<Rightarrow> None)"
    using map_of_filter_distinct [OF distinct_cache_alist [OF assms], of "\<lambda>x. fst (snd x)"] cache_alist_lookup [OF assms] by (simp split: option.split)
  ultimately show ?thesis
    by (simp add: map_of_map split: option.split bool.split)
qed

lemma finalizeHookState_spec:
  assumes inv: "state_inv L" and ok: "cache_ok (stateMap ctx)"
    and room: "card (dom (states L)) + length (cache_entries (stateMap ctx)) < 2 ^ 32 - 1"
  shows "\<exists>ter L'. finalizeHookState f (stateMap ctx) L = Ok (ter, L') \<and>
    (if ter = tesSUCCESS
     then state_inv L' \<and> (\<forall>acc ns key. state_data L' (acc, ns, key) =
       (case lookup_state_cache ctx acc ns key of Some (True, blob) \<Rightarrow> stored blob | _ \<Rightarrow> state_data L (acc, ns, key)))
     else ter \<in> commit_errors)"
proof -
  let ?ws = "cache_writes (cache_entries (stateMap ctx))"
  have "fold views.kv_write ?ws (state_data L) (acc, ns, key) =
      (case lookup_state_cache ctx acc ns key of Some (True, blob) \<Rightarrow> stored blob | _ \<Rightarrow> state_data L (acc, ns, key))" for acc ns key
    using views.lookup_writes [where s = "state_data L" and ws = ?ws and k = "(acc, ns, key)"] cache_writes_lookup [OF ok, of acc ns key]
    by (simp add: views.ok_write_def list_all_iff split: option.split bool.split)
  then show ?thesis
    using commit_loop_spec [OF inv room, of f 0] unfolding finalizeHookState_def by (auto split del: if_split cong: if_cong)
qed

text \<open>
  C4: the commit of a cache is the sequence of writes it stands for. On a consistent ledger
  \<^verbatim>\<open>finalizeHookState\<close> returns; when it succeeds the ledger is consistent, every modified entry of the
  cache has its cached value in the ledger (no entry if the value is empty), and every other entry
  of the ledger is as it was. Otherwise it reports one of the codes of \<^const>\<open>commit_errors\<close>, so a
  transaction that gets that far never finds the ledger damaged.
\<close>

theorem finalizeHookState_commits:
  assumes "state_inv L" and "cache_ok (stateMap ctx)"
    and "card (dom (states L)) + length (cache_entries (stateMap ctx)) < 2 ^ 32 - 1"
  shows "\<exists>ter L'. finalizeHookState f (stateMap ctx) L = Ok (ter, L') \<and>
    (if ter = tesSUCCESS
     then state_inv L' \<and> (\<forall>acc ns key. state_data L' (acc, ns, key) =
       (case lookup_state_cache ctx acc ns key of Some (True, blob) \<Rightarrow> stored blob | _ \<Rightarrow> state_data L (acc, ns, key)))
     else ter \<in> commit_errors)"
  using assms by (rule finalizeHookState_spec)

definition one_write :: state_ctx where
  "one_write = \<lparr>stateMap = [(7, 3, [(2, [(5, True, [9]), (6, True, [])])])], modified_entry_count = 2,
     changedStateCount = 1, foreignStateSetDisabled = False\<rparr>"

theorem finalizeHookState_commits_witness:
  "\<exists>ter L'. finalizeHookState \<lparr>fee_base_drops = 10, reserve = 200, increment = 50\<rparr> (stateMap one_write) one_account = Ok (ter, L') \<and>
    (if ter = tesSUCCESS then state_inv L' \<and> state_data L' (7, 2, 5) = Some [9] \<and> state_data L' (7, 2, 6) = None
     else ter \<in> commit_errors)"
proof -
  have "cache_ok (stateMap one_write)"
    by (simp add: cache_ok_def one_write_def omap_ok_def)
  moreover have "card (dom (states one_account)) + length (cache_entries (stateMap one_write)) < 2 ^ 32 - 1"
    by (simp add: one_account_def one_write_def cache_entries_def)
  ultimately obtain ter L' where
    run: "finalizeHookState \<lparr>fee_base_drops = 10, reserve = 200, increment = 50\<rparr> (stateMap one_write) one_account = Ok (ter, L')"
    and eff: "if ter = tesSUCCESS
     then state_inv L' \<and> (\<forall>acc ns key. state_data L' (acc, ns, key) =
       (case lookup_state_cache one_write acc ns key of Some (True, blob) \<Rightarrow> stored blob | _ \<Rightarrow> state_data one_account (acc, ns, key)))
     else ter \<in> commit_errors"
    using finalizeHookState_commits [OF state_inv_one_account] by blast
  have "lookup_state_cache one_write 7 2 5 = Some (True, [9])" "lookup_state_cache one_write 7 2 6 = Some (True, [])"
    by (simp_all add: one_write_def lookup_state_cache_def)
  with eff have "if ter = tesSUCCESS then state_inv L' \<and> state_data L' (7, 2, 5) = Some [9] \<and> state_data L' (7, 2, 6) = None
     else ter \<in> commit_errors"
    by (simp add: stored_def split: if_splits)
  with run show ?thesis
    by blast
qed

end
