(* ===== verification/Hook_State_Run.thy ===== *)
theory Hook_State_Run
  imports Hook_State_Commit
begin

text \<open>
  The hooks of a transaction call the state API in any order on one cache, which is committed at the
  end. The calls are the steps of a relation; what holds of every cache they can build is enough for
  the commit to succeed.
\<close>

section \<open>Calls of the state API\<close>

inductive state_call :: "fees \<Rightarrow> ledger \<Rightarrow> hook_env \<Rightarrow> state_ctx \<Rightarrow> state_ctx \<Rightarrow> bool" for f L where
  read: "state_foreign f L env ctx mem wp wl kp kl np nl ap al = (r, ctx') \<Longrightarrow> state_call f L env ctx ctx'"
| set: "state_foreign_set f L env ctx mem rp rl kp kl np nl ap al = Ok (r, ctx') \<Longrightarrow> state_call f L env ctx ctx'"
| next_hook: "ctx' = ctx\<lparr>changedStateCount := 0, foreignStateSetDisabled := False\<rparr> \<Longrightarrow> state_call f L env ctx ctx'"

definition granted :: "ledger \<Rightarrow> hook_env \<Rightarrow> account_id \<Rightarrow> uint256 \<Rightarrow> bool" where
  "granted L env acc ns \<longleftrightarrow>
     (\<exists>sle h hash grants g. hooks L acc = Some sle \<and> h \<in> set (sfHooks sle) \<and> sfHookHash h = Some hash \<and>
        sfHookGrants h = Some grants \<and> g \<in> set grants \<and> grantHookHash g = hookHash env \<and>
        sfAuthorize g \<in> {None, Some (hook_account_id env)} \<and>
        (sfHookNamespace h = Some ns \<or>
         sfHookNamespace h = None \<and> (\<exists>d. definitions L hash = Some d \<and> defHookNamespace d = ns)))"

lemma grants_access_iff:
  "grants_access L env ns h \<longleftrightarrow>
     (\<exists>hash grants g. sfHookHash h = Some hash \<and> sfHookGrants h = Some grants \<and> g \<in> set grants \<and>
        grantHookHash g = hookHash env \<and> sfAuthorize g \<in> {None, Some (hook_account_id env)} \<and>
        (sfHookNamespace h = Some ns \<or>
         sfHookNamespace h = None \<and> (\<exists>d. definitions L hash = Some d \<and> defHookNamespace d = ns)))"
proof -
  have "(case sfAuthorize g of None \<Rightarrow> True | Some a \<Rightarrow> a = hook_account_id env) \<longleftrightarrow>
      sfAuthorize g \<in> {None, Some (hook_account_id env)}" for g :: hook_grant
    by (simp split: option.split)
  then show ?thesis
    by (auto simp: grants_access_def list_ex_iff split: option.splits)
qed

lemma granted_iff:
  "granted L env acc ns \<longleftrightarrow> (case hooks L acc of None \<Rightarrow> False | Some sle \<Rightarrow> list_ex (grants_access L env ns) (sfHooks sle))"
  by (fastforce simp: granted_def grants_access_iff list_ex_iff split: option.splits)

text \<open>What a call does to the cache: nothing, the flags aside, or one \<^verbatim>\<open>set_state_cache\<close>.\<close>

lemma state_foreign_cases:
  assumes "state_foreign f L env ctx mem wp wl kp kl np nl ap al = (r, ctx')"
  obtains (same) "ctx' = ctx"
  | (cached) acc ns key e c where "lookup_state_cache ctx acc ns key = None" "states L (acc, ns, key) = Some e"
      "set_state_cache f L ctx acc ns key (sfHookStateData e) False = (c, ctx')"
  using assms unfolding state_foreign_def
  by (auto simp: Let_def split: if_splits option.splits prod.splits)

lemma state_foreign_set_cases:
  assumes "state_foreign_set f L env ctx mem rp rl kp kl np nl ap al = Ok (r, ctx')"
  obtains (same) "stateMap ctx' = stateMap ctx"
  | (written) acc ns key data c where "int (length data) \<le> maxHookStateDataSize"
      "acc = hook_account_id env \<or> granted L env acc ns \<or> (\<exists>d. lookup_state_cache ctx acc ns key = Some (True, d))"
      "set_state_cache f L ctx acc ns key data True = (c, ctx')"
proof -
  define ns where "ns = (if nl = 0 then hookNamespace env else fromVoid (mem_get mem (uint np) 32))"
  define acc where "acc = (if al = 20 then fromVoid (mem_get mem (uint ap) 20) else hook_account_id env)"
  define data where "data = mem_get mem (uint rp) (uint rl)"
  have small: "int (length data) \<le> maxHookStateDataSize" if "\<not> maxHookStateDataSize < uint rl"
  proof -
    have "length data \<le> nat (uint rl)"
      by (simp only: data_def mem_get_def length_take min.cobounded2)
    then have "int (length data) \<le> uint rl"
      by (simp only: le_nat_iff uint_ge_0)
    with that show ?thesis
      by simp
  qed
  note run = assms [unfolded state_foreign_set_def, folded ns_def acc_def data_def]
  show ?thesis
  proof (cases "stateMap ctx' = stateMap ctx")
    case False
    with run have bound: "\<not> maxHookStateDataSize < uint rl"
      by (auto split: if_splits)
    from run False obtain key where key: "make_state_key (mem_get mem (uint kp) (uint kl)) = Some key"
      by (auto simp: Let_def split: if_splits option.splits)
    from run False key have "set_state_cache f L ctx acc ns key data True = (fst (set_state_cache f L ctx acc ns key data True), ctx') \<and>
        (acc = hook_account_id env \<or> granted L env acc ns \<or> (\<exists>d. lookup_state_cache ctx acc ns key = Some (True, d)))"
      by (auto simp: Let_def granted_iff acc_def case_prod_unfold prod_eq_iff split: if_splits option.splits bool.splits)
    with small [OF bound] show ?thesis
      using written by blast
  qed (rule same)
qed

section \<open>What every cache satisfies\<close>

text \<open>Entries that the commit will create: modified, and not yet in the ledger.\<close>

definition created :: "ledger \<Rightarrow> state_ctx \<Rightarrow> account_id \<Rightarrow> (uint256 \<times> uint256) set" where
  "created L ctx acc = {(ns, key). (\<exists>d. lookup_state_cache ctx acc ns key = Some (True, d)) \<and> states L (acc, ns, key) = None}"

text \<open>The reserves set aside for an account cover what will be created for it.\<close>

definition budget_ok :: "fees \<Rightarrow> ledger \<Rightarrow> state_ctx \<Rightarrow> account_id \<Rightarrow> bool" where
  "budget_ok f L ctx acc \<longleftrightarrow>
     (case map_of (stateMap ctx) acc of
        None \<Rightarrow> True
      | Some (available, _) \<Rightarrow>
          (\<exists>a. accounts L acc = Some a \<and> available + int (card (created L ctx acc)) \<le> reserves_available f a) \<and>
          (created L ctx acc \<noteq> {} \<longrightarrow> 0 \<le> available))"

definition entry_coherent :: "ledger \<Rightarrow> state_ctx \<Rightarrow> account_id \<Rightarrow> uint256 \<Rightarrow> uint256 \<Rightarrow> bool" where
  "entry_coherent L ctx acc ns key \<longleftrightarrow>
     (case lookup_state_cache ctx acc ns key of
        None \<Rightarrow> True
      | Some (modified, data) \<Rightarrow>
          int (length data) \<le> maxHookStateDataSize \<and> (\<not> modified \<longrightarrow> state_data L (acc, ns, key) = Some data))"

definition run_inv :: "fees \<Rightarrow> ledger \<Rightarrow> state_ctx \<Rightarrow> bool" where
  "run_inv f L ctx \<longleftrightarrow>
     cache_ok (stateMap ctx) \<and> (\<forall>acc. budget_ok f L ctx acc) \<and> (\<forall>acc ns key. entry_coherent L ctx acc ns key)"

lemma lookup_same_map: "stateMap ctx' = stateMap ctx \<Longrightarrow> lookup_state_cache ctx' = lookup_state_cache ctx"
  by (simp add: lookup_state_cache_def fun_eq_iff)

lemma run_inv_same_map:
  assumes "stateMap ctx' = stateMap ctx"
  shows "run_inv f L ctx' = run_inv f L ctx"
proof -
  have created: "created L ctx' = created L ctx"
    by (simp add: fun_eq_iff created_def lookup_same_map [OF assms])
  show ?thesis
    unfolding run_inv_def budget_ok_def entry_coherent_def lookup_same_map [OF assms] assms created ..
qed

text \<open>The reserve accounting of \<^verbatim>\<open>set_state_cache\<close>.\<close>

lemma set_state_cache_budget:
  assumes "set_state_cache f L ctx acc ns key data modified = (1, ctx')"
  shows "\<exists>n nss. map_of (stateMap ctx') acc = Some (n, nss) \<and>
    (case map_of (stateMap ctx) acc of
       None \<Rightarrow> \<exists>a. accounts L acc = Some a \<and> n = reserves_available f a - 1 \<and> (modified \<longrightarrow> 0 \<le> n)
     | Some (av, _) \<Rightarrow>
         if modified \<and> lookup_state_cache ctx acc ns key = None then 0 < av \<and> n = av - 1 else n = av)"
proof (cases "map_of (stateMap ctx) acc")
  case None
  then show ?thesis
    using assms by (cases "accounts L acc") (auto simp: set_state_cache_def Let_def omap_lookup_put split: if_splits)
next
  case (Some x)
  obtain n nss where x: "x = (n, nss)"
    by fastforce
  note run = set_state_cache_def Let_def omap_lookup_put lookup_state_cache_def
  show ?thesis
  proof (cases "map_of nss ns")
    case None
    then show ?thesis
      using assms Some x by (auto simp: run split: if_splits)
  next
    case (Some es)
    then show ?thesis
      using assms \<open>map_of (stateMap ctx) acc = Some x\<close> x
      by (cases "map_of es key") (auto simp: run split: if_splits)
  qed
qed

lemma set_state_cache_other:
  assumes "set_state_cache f L ctx acc ns key data modified = (1, ctx')" and "acc' \<noteq> acc"
  shows "map_of (stateMap ctx') acc' = map_of (stateMap ctx) acc'"
  using set_state_cache_effect [OF assms(1)] assms(2) by (auto simp: cache_put_def omap_lookup_put)

lemma finite_created:
  assumes "cache_ok (stateMap ctx)"
  shows "finite (created L ctx acc)"
proof (rule finite_subset)
  show "created L ctx acc \<subseteq> (\<lambda>k. snd k) ` fst ` set (cache_alist (stateMap ctx))"
    by (force simp: created_def cache_alist_lookup [OF assms, symmetric] dest: map_of_SomeD)
qed simp

lemma set_state_cache_run_inv:
  assumes inv: "run_inv f L ctx" and set: "set_state_cache f L ctx acc ns key data modified = (1, ctx')"
    and data: "int (length data) \<le> maxHookStateDataSize"
    and read: "\<not> modified \<Longrightarrow> lookup_state_cache ctx acc ns key = None \<and> state_data L (acc, ns, key) = Some data"
  shows "run_inv f L ctx'"
proof -
  note look = set_state_cache_lookup [OF set, simplified]
  have ok: "cache_ok (stateMap ctx)" "cache_ok (stateMap ctx')"
    using inv set_state_cache_ok [OF _ set] by (auto simp: run_inv_def)
  have coherent: "entry_coherent L ctx acc' ns' key'" for acc' ns' key'
    using inv by (simp add: run_inv_def)
  have "entry_coherent L ctx' acc' ns' key'" for acc' ns' key'
    using coherent [of acc' ns' key'] data read by (auto simp: entry_coherent_def look split: option.splits)
  moreover have "budget_ok f L ctx' acc'" for acc'
  proof (cases "acc' = acc")
    case False
    then have "created L ctx' acc' = created L ctx acc'"
      by (simp add: created_def look)
    moreover have "budget_ok f L ctx acc'"
      using inv by (simp add: run_inv_def)
    ultimately show ?thesis
      by (auto simp: budget_ok_def set_state_cache_other [OF set False] split: option.splits)
  next
    case True
    let ?new = "modified \<and> lookup_state_cache ctx acc ns key = None"
    have fresh: "created L ctx' acc \<subseteq> (if ?new then insert (ns, key) (created L ctx acc) else created L ctx acc)"
      using coherent [of acc ns key] read
      by (auto simp: created_def look entry_coherent_def state_data_def split: if_splits option.splits)
    then have card: "card (created L ctx' acc) \<le> card (created L ctx acc) + (if ?new then 1 else 0)"
      using finite_created [OF ok(1), of L acc] card_mono [OF _ fresh] by (auto simp: card_insert_if split: if_splits)
    have old: "budget_ok f L ctx acc"
      using inv by (simp add: run_inv_def)
    obtain n nss where n: "map_of (stateMap ctx') acc = Some (n, nss)" and
      spec: "case map_of (stateMap ctx) acc of
          None \<Rightarrow> \<exists>a. accounts L acc = Some a \<and> n = reserves_available f a - 1 \<and> (modified \<longrightarrow> 0 \<le> n)
        | Some (av, _) \<Rightarrow> if ?new then 0 < av \<and> n = av - 1 else n = av"
      using set_state_cache_budget [OF set] by blast
    show ?thesis
    proof (cases "map_of (stateMap ctx) acc")
      case None
      then have none: "created L ctx acc = {}"
        by (simp add: created_def lookup_state_cache_def)
      with fresh have "created L ctx' acc \<noteq> {} \<Longrightarrow> modified"
        by (auto split: if_splits)
      with None spec n card none True show ?thesis
        by (auto simp: budget_ok_def split: if_splits)
    next
      case (Some x)
      obtain av rest where x: "x = (av, rest)"
        by fastforce
      have "created L ctx' acc \<noteq> {} \<Longrightarrow> \<not> ?new \<Longrightarrow> created L ctx acc \<noteq> {}"
        using fresh by auto
      with Some x old obtain a where a: "accounts L acc = Some a" "av + int (card (created L ctx acc)) \<le> reserves_available f a"
          "created L ctx' acc \<noteq> {} \<Longrightarrow> \<not> ?new \<Longrightarrow> 0 \<le> av"
        by (auto simp: budget_ok_def)
      show ?thesis
      proof (cases ?new)
        case True
        then show ?thesis
          using spec Some x n card a \<open>acc' = acc\<close> by (auto simp: budget_ok_def)
      next
        case False
        then have "n = av" "card (created L ctx' acc) \<le> card (created L ctx acc)"
          using spec Some x card by auto
        then show ?thesis
          using False n a \<open>acc' = acc\<close> by (auto simp: budget_ok_def)
      qed
    qed
  qed
  ultimately show ?thesis
    using ok(2) by (simp add: run_inv_def)
qed

lemma state_call_run_inv:
  assumes L: "state_inv L" and inv: "run_inv f L ctx" and call: "state_call f L env ctx ctx'"
  shows "run_inv f L ctx'"
  using call
proof cases
  case (read mem wp wl kp kl np nl ap al r)
  then show ?thesis
  proof (cases rule: state_foreign_cases)
    case (cached acc ns key e c)
    have "int (length (sfHookStateData e)) \<le> maxHookStateDataSize"
      using state_invD(4) [OF L cached(2)] by (simp add: entry_ok_def)
    then show ?thesis
      using set_state_cache_run_inv [OF inv, of acc ns key "sfHookStateData e" False ctx'] inv cached
        set_state_cache_effect [OF cached(3)] by (auto simp: state_data_def)
  qed (use inv in simp)
next
  case (set mem rp rl kp kl np nl ap al r)
  then show ?thesis
  proof (cases rule: state_foreign_set_cases)
    case (written acc ns key data c)
    then show ?thesis
      using set_state_cache_run_inv [OF inv, of acc ns key data True ctx'] inv set_state_cache_effect [OF written(3)] by auto
  qed (use inv run_inv_same_map in blast)
next
  case next_hook
  then show ?thesis
    using inv run_inv_same_map [of ctx' ctx] by simp
qed

section \<open>The commit has the reserves it needs\<close>

definition creations :: "ledger \<Rightarrow> (account_id \<times> uint256 \<times> uint256 \<times> bool \<times> bytes) list \<Rightarrow> account_id \<Rightarrow> nat" where
  "creations L es acc =
     length (filter (\<lambda>(a, ns, key, m, blob). m \<and> a = acc \<and> blob \<noteq> [] \<and> states L (a, ns, key) = None) es)"

definition entry_key :: "account_id \<times> uint256 \<times> uint256 \<times> bool \<times> bytes \<Rightarrow> account_id \<times> uint256 \<times> uint256" where
  "entry_key x = (case x of (acc, ns, key, _) \<Rightarrow> (acc, ns, key))"

lemma creations_cong:
  assumes "\<And>k. k \<in> entry_key ` set es \<Longrightarrow> states L' k = states L k"
  shows "creations L' es acc = creations L es acc"
  unfolding creations_def using assms by (intro arg_cong [where f = length] filter_cong) (force simp: entry_key_def)+

lemma setHookState_accounts:
  assumes "setHookState f L acc ns key data = Ok (tesSUCCESS, L')" and a: "accounts L acc = Some a"
  shows "\<exists>a'. accounts L' = (accounts L)(acc \<mapsto> a') \<and> sfBalance a' = sfBalance a \<and>
    unat (sfOwnerCount a') \<le> unat (sfOwnerCount a) + (if data \<noteq> [] \<and> states L (acc, ns, key) = None then 1 else 0)"
proof -
  have [simp]: "sfBalance (adjustOwnerCount x n) = sfBalance x" "sfOwnerCount (adjustOwnerCount x n) = confineOwnerCount (sfOwnerCount x) n" for x n
    by (simp_all add: adjustOwnerCount_def)
  note run = assms(1) [unfolded setHookState_def a option.case]
  have upd: "P x \<Longrightarrow> \<exists>a'. (accounts L)(acc \<mapsto> x) = (accounts L)(acc \<mapsto> a') \<and> P a'" for P x
    by blast
  have same: "(accounts L)(acc \<mapsto> a) = accounts L"
    using a by auto
  show ?thesis
  proof (cases "accounts L' = accounts L")
    case True
    then show ?thesis
      using same by (intro exI [of _ a]) simp
  next
    case changed: False
    show ?thesis
    proof (cases "data = []")
      case True
      then show ?thesis
        using run changed
        by (auto simp: deleteHookState_def Let_def confineOwnerCount_down obind_eq_Ok intro!: upd split: if_splits option.splits prod.splits)
    next
      case False
      then show ?thesis
        using run changed
        by (auto simp: createHookState_def Let_def confineOwnerCount_up obind_eq_Ok intro!: upd split: if_splits option.splits prod.splits)
    qed
  qed
qed

lemma accountReserve_mono:
  assumes "0 \<le> increment f" and "reserve f + int (unat c + 1) * increment f \<le> b"
  shows "accountReserve f (c + 1) \<le> b"
proof -
  have "uint (c + 1) \<le> uint c + 1"
    by (simp add: uint_word_ariths zmod_le_nonneg_dividend)
  then have "uint (c + 1) * increment f \<le> (uint c + 1) * increment f"
    using assms(1) by (rule mult_right_mono)
  then show ?thesis
    using assms(2) by (simp add: accountReserve_def algebra_simps)
qed

definition funded :: "fees \<Rightarrow> ledger \<Rightarrow> (account_id \<times> uint256 \<times> uint256 \<times> bool \<times> bytes) list \<Rightarrow> bool" where
  "funded f L es \<longleftrightarrow> (\<forall>acc a. accounts L acc = Some a \<longrightarrow> creations L es acc \<noteq> 0 \<longrightarrow>
     reserve f + int (unat (sfOwnerCount a) + creations L es acc) * increment f \<le> sfBalance a)"

lemma funded_step:
  assumes fund: "funded f L ((acc, ns, key, True, blob) # es)" and inc: "0 \<le> increment f"
    and set: "setHookState f L acc ns key blob = Ok (tesSUCCESS, L')" and a: "accounts L acc = Some a"
    and fresh: "(acc, ns, key) \<notin> entry_key ` set es" and st: "states L' = (states L)((acc, ns, key) := eo)"
  shows "funded f L' es"
proof -
  let ?new = "blob \<noteq> [] \<and> states L (acc, ns, key) = None"
  obtain a' where a': "accounts L' = (accounts L)(acc \<mapsto> a')" "sfBalance a' = sfBalance a"
      "unat (sfOwnerCount a') \<le> unat (sfOwnerCount a) + (if ?new then 1 else 0)"
    using setHookState_accounts [OF set a] by blast
  have same: "creations L' es x = creations L es x" for x
    using fresh by (intro creations_cong) (auto simp: st)
  have step: "creations L ((acc, ns, key, True, blob) # es) x = (if x = acc \<and> ?new then 1 else 0) + creations L es x" for x
    by (auto simp: creations_def)
  show ?thesis
    unfolding funded_def
  proof (intro allI impI)
    fix x b
    assume b: "accounts L' x = Some b" and some: "creations L' es x \<noteq> 0"
    obtain b0 where b0: "accounts L x = Some b0" "sfBalance b = sfBalance b0"
        "unat (sfOwnerCount b) \<le> unat (sfOwnerCount b0) + (if x = acc \<and> ?new then 1 else 0)"
      using a' a b by (cases "x = acc") auto
    have "reserve f + int (unat (sfOwnerCount b0) + creations L ((acc, ns, key, True, blob) # es) x) * increment f \<le> sfBalance b0"
      using fund b0(1) some unfolding funded_def step same by auto
    moreover have "int (unat (sfOwnerCount b) + creations L es x) * increment f
        \<le> int (unat (sfOwnerCount b0) + creations L ((acc, ns, key, True, blob) # es) x) * increment f"
      using b0(3) inc by (intro mult_right_mono of_nat_mono) (auto simp: step)
    ultimately show "reserve f + int (unat (sfOwnerCount b) + creations L' es x) * increment f \<le> sfBalance b"
      unfolding same b0(2) by linarith
  qed
qed

lemma commit_loop_succeeds:
  assumes "state_inv L" and "card (dom (states L)) + length es < 2 ^ 32 - 1"
    and "funded f L es" and inc: "0 \<le> increment f" and "distinct (map entry_key es)" and "unat n + length es < 0xFFFF"
    and "\<And>acc ns key blob. (acc, ns, key, True, blob) \<in> set es \<Longrightarrow>
      accounts L acc \<noteq> None \<and> int (length blob) \<le> maxHookStateDataSize"
  shows "\<exists>ter L'. commit_loop f es n L = Ok (ter, L') \<and> (ter = tesSUCCESS \<or> ter = tecDIR_FULL)"
  using assms
proof (induction es arbitrary: n L)
  case (Cons x es)
  obtain acc ns key m blob where x: "x = (acc, ns, key, m, blob)"
    by (cases x)
  note inv = Cons.prems(1) and room = Cons.prems(2) and fund = Cons.prems(3) and dist = Cons.prems(5)
    and count = Cons.prems(6) and ok = Cons.prems(7)
  have n: "unat (n + 1) = unat n + 1"
    using count by (simp add: unat_word_ariths)
  show ?case
  proof (cases m)
    case False
    then have "creations L (x # es) y = creations L es y" for y
      by (simp add: creations_def x)
    then have "funded f L es"
      using fund by (simp add: funded_def)
    with False Cons show ?thesis
      by (simp add: x)
  next
    case True
    obtain a where a: "accounts L acc = Some a" and size: "int (length blob) \<le> maxHookStateDataSize"
      using ok [of acc ns key blob] x True by auto
    have small: "\<not> 0xFFFF \<le> n + 1"
      using count n by (simp add: word_le_nat_alt)
    have "sfHookStateCount a \<noteq> - 1"
      using count_room [OF inv a] room by simp
    with inv a show ?thesis
    proof (cases rule: setHookState_cases [where f = f and ns = ns and key = key and data = blob])
      case (set L' eo)
      obtain a' where "accounts L' = (accounts L)(acc \<mapsto> a')"
        using setHookState_accounts [OF set(1) a] by blast
      then have "accounts L' y \<noteq> None" if "accounts L y \<noteq> None" for y
        using that by auto
      moreover have "card (dom (states L')) \<le> card (dom (states L)) + 1"
        using card_dom_update state_invD(1) [OF inv] by (simp only: set(3))
      moreover have "funded f L' es"
        using fund dist by (intro funded_step [OF _ inc set(1) a _ set(3)]) (simp_all add: x True entry_key_def)
      ultimately have "\<exists>ter L''. commit_loop f es (n + 1) L' = Ok (ter, L'') \<and> (ter = tesSUCCESS \<or> ter = tecDIR_FULL)"
        using room dist count n ok by (intro Cons.IH [OF set(2) _ _ inc]) force+
      then show ?thesis
        using set(1) small by (simp add: x True Let_def)
    next
      case poor
      then have new: "creations L (x # es) acc = creations L es acc + 1"
        by (simp add: creations_def x True)
      have "reserve f + int (unat (sfOwnerCount a) + creations L (x # es) acc) * increment f \<le> sfBalance a"
        using fund a new unfolding funded_def by (metis Suc_eq_plus1 nat.distinct(2))
      then have "reserve f + int (unat (sfOwnerCount a) + (creations L es acc + 1)) * increment f \<le> sfBalance a"
        by (simp only: new)
      moreover have "int (unat (sfOwnerCount a) + 1) * increment f \<le> int (unat (sfOwnerCount a) + (creations L es acc + 1)) * increment f"
        using inc by (intro mult_right_mono of_nat_mono) auto
      ultimately have "accountReserve f (sfOwnerCount a + 1) \<le> sfBalance a"
        by (intro accountReserve_mono inc) linarith
      with poor show ?thesis
        by simp
    qed (use room size small in \<open>simp_all add: x True Let_def\<close>)
  qed
qed simp

lemma entry_keys: "map entry_key (cache_entries m) = map fst (cache_alist m)"
  by (simp add: cache_entries_alist entry_key_def comp_def case_prod_unfold)

lemma cache_entries_lookup:
  assumes "cache_ok (stateMap ctx)" and "(acc, ns, key, m, blob) \<in> set (cache_entries (stateMap ctx))"
  shows "lookup_state_cache ctx acc ns key = Some (m, blob)"
proof -
  have "((acc, ns, key), m, blob) \<in> set (cache_alist (stateMap ctx))"
    using assms(2) by (force simp: cache_entries_alist)
  then show ?thesis
    using distinct_cache_alist [OF assms(1)] cache_alist_lookup [OF assms(1)] by (metis map_of_eq_Some_iff)
qed

lemma creations_created:
  assumes "cache_ok (stateMap ctx)"
  shows "creations L (cache_entries (stateMap ctx)) acc \<le> card (created L ctx acc)"
proof -
  let ?es = "filter (\<lambda>(a, ns, key, m, blob). m \<and> a = acc \<and> blob \<noteq> [] \<and> states L (a, ns, key) = None) (cache_entries (stateMap ctx))"
  have keys: "distinct (map entry_key ?es)"
    using distinct_cache_alist [OF assms] by (intro distinct_map_filter) (simp add: entry_keys)
  have "set (map entry_key ?es) \<subseteq> Pair acc ` created L ctx acc"
    by (auto simp: entry_key_def created_def dest: cache_entries_lookup [OF assms])
  then have "card (set (map entry_key ?es)) \<le> card (Pair acc ` created L ctx acc)"
    by (intro card_mono finite_imageI finite_created [OF assms])
  also have "\<dots> \<le> card (created L ctx acc)"
    by (rule card_image_le [OF finite_created [OF assms]])
  finally show ?thesis
    using distinct_card [OF keys] by (simp add: creations_def)
qed

lemma trunc_div_le: "0 < d \<Longrightarrow> 0 < c \<Longrightarrow> c \<le> trunc_div x d \<Longrightarrow> c * d \<le> x"
proof -
  assume *: "0 < d" "0 < c" "c \<le> trunc_div x d"
  then have "0 < sgn x * (\<bar>x\<bar> div d)"
    by (simp add: trunc_div_def)
  moreover have "0 \<le> \<bar>x\<bar> div d"
    using *(1) by (simp add: pos_imp_zdiv_nonneg_iff)
  ultimately have "0 < x"
    by (simp add: zero_less_mult_iff)
  then have "c \<le> x div d"
    using *(3) by (simp add: trunc_div_def)
  then have "c * d \<le> x div d * d"
    using *(1) by simp
  also have "\<dots> \<le> x"
    using *(1) by (simp add: minus_mod_eq_div_mult [symmetric])
  finally show ?thesis .
qed

lemma run_funded:
  assumes inv: "run_inv f L ctx" and inc: "0 < increment f"
  shows "funded f L (cache_entries (stateMap ctx))"
  unfolding funded_def
proof (intro allI impI)
  fix acc a
  let ?n = "creations L (cache_entries (stateMap ctx)) acc"
  assume a: "accounts L acc = Some a" and some: "?n \<noteq> 0"
  have ok: "cache_ok (stateMap ctx)" and budget: "budget_ok f L ctx acc"
    using inv by (simp_all add: run_inv_def)
  have le: "?n \<le> card (created L ctx acc)"
    using ok by (rule creations_created)
  with some have new: "created L ctx acc \<noteq> {}"
    by auto
  then have "map_of (stateMap ctx) acc \<noteq> None"
    by (auto simp: created_def lookup_state_cache_def split: option.splits)
  then have "int (card (created L ctx acc)) \<le> reserves_available f a"
    using budget new a by (auto simp: budget_ok_def)
  then have "int ?n \<le> trunc_div (sfBalance a - accountReserve f (sfOwnerCount a)) (increment f)"
    using le inc by (simp add: reserves_available_def Let_def)
  then have "int ?n * increment f \<le> sfBalance a - accountReserve f (sfOwnerCount a)"
    using some inc by (intro trunc_div_le) simp_all
  then show "reserve f + int (unat (sfOwnerCount a) + ?n) * increment f \<le> sfBalance a"
    by (simp add: accountReserve_def algebra_simps)
qed

section \<open>A run and its commit\<close>

definition no_state :: state_ctx where
  "no_state = \<lparr>stateMap = [], modified_entry_count = 0, changedStateCount = 0, foreignStateSetDisabled = False\<rparr>"

inductive state_run :: "fees \<Rightarrow> ledger \<Rightarrow> state_ctx \<Rightarrow> bool" for f L where
  start: "state_run f L no_state"
| call: "state_run f L ctx \<Longrightarrow> state_call f L env ctx ctx' \<Longrightarrow> state_run f L ctx'"

lemma state_run_inv: "state_run f L ctx \<Longrightarrow> state_inv L \<Longrightarrow> run_inv f L ctx"
proof (induction rule: state_run.induct)
  case start
  then show ?case
    by (simp add: run_inv_def no_state_def cache_ok_empty budget_ok_def entry_coherent_def lookup_state_cache_def)
next
  case (call ctx env ctx')
  then show ?case
    using state_call_run_inv by blast
qed

lemma run_commit:
  assumes L: "state_inv L" and run: "state_run f L ctx" and inc: "0 < increment f"
    and few: "length (cache_entries (stateMap ctx)) < 0xFFFF" and room: "card (dom (states L)) + 0xFFFF < 2 ^ 32 - 1"
  shows "\<exists>ter L'. finalizeHookState f (stateMap ctx) L = Ok (ter, L') \<and> (ter = tesSUCCESS \<or> ter = tecDIR_FULL)"
proof -
  have inv: "run_inv f L ctx"
    using run L by (rule state_run_inv)
  then have ok: "cache_ok (stateMap ctx)"
    by (simp add: run_inv_def)
  have "accounts L acc \<noteq> None \<and> int (length blob) \<le> maxHookStateDataSize"
    if "(acc, ns, key, True, blob) \<in> set (cache_entries (stateMap ctx))" for acc ns key blob
  proof -
    have look: "lookup_state_cache ctx acc ns key = Some (True, blob)"
      using cache_entries_lookup [OF ok that] .
    moreover have "entry_coherent L ctx acc ns key" "budget_ok f L ctx acc"
      using inv by (simp_all add: run_inv_def)
    ultimately show ?thesis
      by (auto simp: entry_coherent_def budget_ok_def lookup_state_cache_def split: option.splits)
  qed
  moreover have "distinct (map entry_key (cache_entries (stateMap ctx)))"
    using distinct_cache_alist [OF ok] by (simp add: entry_keys)
  ultimately show ?thesis
    unfolding finalizeHookState_def
    using few room inc by (intro commit_loop_succeeds [OF L _ run_funded [OF inv inc]]) auto
qed

text \<open>
  C5: the checks made while hooks run are enough. After any sequence of state API calls by the hooks
  of a transaction, with fewer than 65535 entries touched, the commit on the same ledger succeeds and
  brings every write to the ledger, or it finds the directory of a namespace full; it is never short
  of reserves, never refuses a value for its size and never misses an account.
\<close>

theorem hook_state_commits:
  assumes "state_inv L" and "state_run f L ctx" and "0 < increment f"
    and "length (cache_entries (stateMap ctx)) < 0xFFFF" and "card (dom (states L)) + 0xFFFF < 2 ^ 32 - 1"
  shows "\<exists>ter L'. finalizeHookState f (stateMap ctx) L = Ok (ter, L') \<and>
    (ter = tecDIR_FULL \<or> ter = tesSUCCESS \<and> state_inv L' \<and>
       (\<forall>acc ns key. state_data L' (acc, ns, key) =
         (case lookup_state_cache ctx acc ns key of Some (True, blob) \<Rightarrow> stored blob | _ \<Rightarrow> state_data L (acc, ns, key))))"
proof -
  have "cache_ok (stateMap ctx)"
    using state_run_inv assms(1,2) by (auto simp: run_inv_def)
  then show ?thesis
    using finalizeHookState_spec [of L ctx f] run_commit [OF assms] assms by (auto split: if_splits)
qed

definition drops :: fees where
  "drops = \<lparr>fee_base_drops = 10, reserve = 200, increment = 50\<rparr>"

definition hook7 :: hook_env where
  "hook7 = \<lparr>hook_account_id = 7, hookHash = 1, hookNamespace = 2\<rparr>"

definition wrote :: state_ctx where
  "wrote = \<lparr>stateMap = [(7, 15, [(2, [(5, True, [0xAA])])])], modified_entry_count = 1,
     changedStateCount = 0, foreignStateSetDisabled = False\<rparr>"

lemma wrote_run: "state_run drops one_account wrote"
proof (rule state_run.call [OF state_run.start state_call.set])
  show "state_foreign_set drops one_account hook7 no_state [0xAA, 5] 0 1 1 1 0 0 0 0 = Ok (1, wrote)"
    by code_simp
qed

theorem hook_state_commits_witness:
  "\<exists>ter L'. finalizeHookState drops (stateMap wrote) one_account = Ok (ter, L') \<and>
    (ter = tecDIR_FULL \<or> ter = tesSUCCESS \<and> state_inv L' \<and> state_data L' (7, 2, 5) = Some [0xAA])"
proof -
  have "length (cache_entries (stateMap wrote)) < 0xFFFF" "card (dom (states one_account)) + 0xFFFF < 2 ^ 32 - 1" "0 < increment drops"
    by (simp_all add: wrote_def cache_entries_def one_account_def drops_def)
  moreover have "lookup_state_cache wrote 7 2 5 = Some (True, [0xAA])"
    by (simp add: wrote_def lookup_state_cache_def)
  ultimately show ?thesis
    using hook_state_commits [OF state_inv_one_account wrote_run] by (fastforce simp: stored_def)
qed

section \<open>Reading back a write\<close>

lemma state_set_stores:
  assumes "state_set f L env ctx mem rp rl kp kl = Ok (r, ctx')" and "0 \<le> r"
  obtains key where "make_state_key (mem_get mem (uint kp) (uint kl)) = Some key" "r = uint rl" "kl \<noteq> 0" "\<not> 32 < kl"
    "length (mem_get mem (uint rp) (uint rl)) = nat (uint rl)"
    "lookup_state_cache ctx' (hook_account_id env) (hookNamespace env) key = Some (True, mem_get mem (uint rp) (uint rl))"
proof -
  note run = assms(1) [unfolded state_set_def state_foreign_set_def, simplified]
  obtain key where key: "make_state_key (mem_get mem (uint kp) (uint kl)) = Some key"
    using run assms(2) by (auto simp: Let_def split: if_splits option.splits)
  from run assms(2) key have kl: "kl \<noteq> 0" "\<not> 32 < kl" and rl: "(rp = 0 \<and> rl = 0) \<or> \<not> NOT_IN_BOUNDS rp rl mem"
    by (auto split: if_splits)
  let ?set = "set_state_cache f L ctx (hook_account_id env) (hookNamespace env) key (mem_get mem (uint rp) (uint rl)) True"
  from run assms(2) key have set: "?set = (fst ?set, ctx')" "0 \<le> fst ?set" "r = uint rl"
    by (auto simp: Let_def case_prod_unfold prod_eq_iff split: if_splits)
  have "length (mem_get mem (uint rp) (uint rl)) = nat (uint rl)"
    using rl
  proof
    assume "\<not> NOT_IN_BOUNDS rp rl mem"
    then show ?thesis
      by (intro length_mem_get) (simp_all add: in_bounds)
  qed (simp add: mem_get_def)
  with key kl set(3) show ?thesis
    using set_state_cache_lookup [OF set(1), of "hook_account_id env" "hookNamespace env" key] set(2)
    by (intro that) (auto split: if_splits)
qed

text \<open>
  C7: what a hook stores with \<^verbatim>\<open>state_set\<close> it reads back with \<^verbatim>\<open>state\<close>, into any buffer that is large
  enough, under a key with the same bytes. The call returns the length of the value, and neither the
  rest of the memory nor the cache changes.
\<close>

theorem state_set_roundtrip:
  assumes "state_set f L env ctx mem rp rl kp kl = Ok (r, ctx')" and "0 \<le> r"
    and "mem_get mem' (uint kp') (uint kl) = mem_get mem (uint kp) (uint kl)"
    and "\<not> NOT_IN_BOUNDS kp' kl mem'" and "\<not> NOT_IN_BOUNDS wp wl mem'" and "wp \<noteq> 0" and "wl \<noteq> 0" and "rl \<le> wl"
  shows "r = uint rl \<and> state_get f L env ctx' mem' wp wl kp' kl =
    ((uint rl, mem_put mem' (uint wp) (mem_get mem (uint rp) (uint rl))), ctx')"
  using assms(1,2)
proof (cases rule: state_set_stores)
  case (1 key)
  have "uint rl \<le> uint wl"
    using assms(8) by (simp add: word_le_def)
  moreover have "\<not> NOT_IN_BOUNDS 0 0 mem'"
    by (simp add: NOT_IN_BOUNDS_def)
  moreover have "int (length (mem_get mem (uint rp) (uint rl))) = uint rl"
    using 1(5) by (simp del: nat_uint_eq)
  ultimately show ?thesis
    using 1 assms(3-7) by (auto simp: state_get_def state_foreign_def give_data_def WRITE_WASM_MEMORY_in_bounds Let_def
        not_le not_less simp del: nat_uint_eq)
qed

theorem state_set_roundtrip_witness:
  "state_get drops one_account hook7 wrote [0xAA, 5] 1 1 1 1 = ((1, [0xAA, 0xAA]), wrote)"
proof -
  have "state_set drops one_account hook7 no_state [0xAA, 5] 0 1 1 1 = Ok (1, wrote)"
    by code_simp
  from state_set_roundtrip [OF this, of "[0xAA, 5]" 1 1 1] show ?thesis
    by (simp add: NOT_IN_BOUNDS_def mem_put_def mem_get_def)
qed

section \<open>Authorisation\<close>

lemma state_call_authorised:
  assumes "state_call f L env ctx ctx'" and "lookup_state_cache ctx' acc ns key = Some (True, d)"
  shows "lookup_state_cache ctx acc ns key = Some (True, d) \<or> acc = hook_account_id env \<or> granted L env acc ns
    \<or> (\<exists>d. lookup_state_cache ctx acc ns key = Some (True, d))"
  using assms(1)
proof cases
  case (read mem wp wl kp kl np nl ap al r)
  then show ?thesis
  proof (cases rule: state_foreign_cases)
    case (cached acc' ns' key' e c)
    then show ?thesis
      using set_state_cache_lookup [OF cached(3), of acc ns key] assms(2) by (auto split: if_splits)
  qed (use assms in simp)
next
  case (set mem rp rl kp kl np nl ap al r)
  then show ?thesis
  proof (cases rule: state_foreign_set_cases)
    case same
    then show ?thesis
      using assms(2) by (simp add: lookup_same_map [OF same])
  next
    case (written acc' ns' key' data c)
    then show ?thesis
      using set_state_cache_lookup [OF written(3), of acc ns key] assms(2) by (auto split: if_splits)
  qed
next
  case next_hook
  then show ?thesis
    using assms(2) by (simp add: lookup_state_cache_def)
qed

text \<open>
  C6: a hook changes the state of another account only with a grant. Whatever calls of the state API
  one hook makes, an entry of another account that is marked modified afterwards was already marked
  before the hook ran, or a hook of that account with this namespace has a grant for the hash of the
  running hook that names no account or the hook's own.
\<close>

theorem foreign_writes_granted:
  assumes "(state_call f L env)\<^sup>*\<^sup>* ctx ctx'"
    and "lookup_state_cache ctx' acc ns key = Some (True, d)" and "acc \<noteq> hook_account_id env"
  shows "granted L env acc ns \<or> (\<exists>d. lookup_state_cache ctx acc ns key = Some (True, d))"
  using assms(1,2)
proof (induction arbitrary: d rule: rtranclp_induct)
  case (step y z)
  then show ?case
    using state_call_authorised [OF step(2,4)] assms(3) by blast
qed blast

definition hook8 :: hook_env where
  "hook8 = \<lparr>hook_account_id = 8, hookHash = 3, hookNamespace = 4\<rparr>"

text \<open>Account 7 has a hook with namespace 2 and a grant for the hash 3.\<close>

definition granting :: ledger where
  "granting = one_account\<lparr>hooks := [7 \<mapsto> \<lparr>sfHooks = [blank_hook\<lparr>sfHookHash := Some 1, sfHookNamespace := Some 2,
      sfHookGrants := Some [\<lparr>grantHookHash = 3, sfAuthorize = None\<rparr>]\<rparr>], hookOwnerNode = 0\<rparr>]\<rparr>"

text \<open>A memory with the value \<open>0xBB\<close>, the key 5, the namespace 2 and the account 7.\<close>

definition foreign_memory :: memory where
  "foreign_memory = [0xBB, 5] @ replicate 31 0 @ [2] @ replicate 19 0 @ [7]"

lemma foreign_write_granted:
  "state_foreign_set drops granting hook8 no_state foreign_memory 0 1 1 1 2 32 34 20 =
     Ok (1, \<lparr>stateMap = [(7, 15, [(2, [(5, True, [0xBB])])])], modified_entry_count = 1,
       changedStateCount = 0, foreignStateSetDisabled = False\<rparr>)"
  by code_simp

theorem foreign_writes_granted_witness: "granted granting hook8 7 2"
proof -
  have "(state_call drops granting hook8)\<^sup>*\<^sup>* no_state \<lparr>stateMap = [(7, 15, [(2, [(5, True, [0xBB])])])], modified_entry_count = 1,
       changedStateCount = 0, foreignStateSetDisabled = False\<rparr>"
    by (rule r_into_rtranclp) (rule state_call.set [OF foreign_write_granted])
  then show ?thesis
    using foreign_writes_granted [of drops granting hook8 no_state _ 7 2 5 "[0xBB]"]
    by (simp add: lookup_state_cache_def no_state_def hook8_def)
qed

text \<open>
  An entry that some hook of the transaction modified, for instance one of its own account, may be
  overwritten by every later hook without a grant.
\<close>

lemma ungranted_overwrite:
  "\<not> granted one_account hook8 7 2" "hook_account_id hook8 \<noteq> 7"
  "\<exists>ctx'. state_foreign_set drops one_account hook8 wrote foreign_memory 0 1 1 1 2 32 34 20 = Ok (1, ctx') \<and>
     lookup_state_cache ctx' 7 2 5 = Some (True, [0xBB])"
proof -
  show "\<not> granted one_account hook8 7 2" "hook_account_id hook8 \<noteq> 7"
    by (simp_all add: granted_iff one_account_def hook8_def)
  have "state_foreign_set drops one_account hook8 wrote foreign_memory 0 1 1 1 2 32 34 20 =
      Ok (1, wrote\<lparr>stateMap := [(7, 15, [(2, [(5, True, [0xBB])])])], modified_entry_count := 2\<rparr>)"
    by code_simp
  then show "\<exists>ctx'. state_foreign_set drops one_account hook8 wrote foreign_memory 0 1 1 1 2 32 34 20 = Ok (1, ctx') \<and>
     lookup_state_cache ctx' 7 2 5 = Some (True, [0xBB])"
    by (simp add: lookup_state_cache_def)
qed

text \<open>
  The first change of an account or namespace is not in \<^verbatim>\<open>changedStateCount\<close>, which the metadata of
  the transaction reports; a second entry that is only read is.
\<close>

lemma changes_miscounted:
  "\<exists>ctx. state_set drops one_account hook7 no_state [0xAA, 5] 0 1 1 1 = Ok (1, ctx) \<and> changedStateCount ctx = 0"
  "\<exists>ctx. set_state_cache drops one_account wrote 7 2 6 [1] False = (1, ctx) \<and> changedStateCount ctx = 1"
proof -
  have "state_set drops one_account hook7 no_state [0xAA, 5] 0 1 1 1 = Ok (1, wrote)"
    by code_simp
  then show "\<exists>ctx. state_set drops one_account hook7 no_state [0xAA, 5] 0 1 1 1 = Ok (1, ctx) \<and> changedStateCount ctx = 0"
    by (simp add: wrote_def)
  show "\<exists>ctx. set_state_cache drops one_account wrote 7 2 6 [1] False = (1, ctx) \<and> changedStateCount ctx = 1"
    by (simp add: set_state_cache_def wrote_def Let_def)
qed

text \<open>The first entry read from an account takes one of the reserves a later write could use.\<close>

lemma read_takes_reserve:
  "\<exists>ctx. set_state_cache drops one_account no_state 7 2 5 [1] False = (1, ctx) \<and>
     map_of (stateMap ctx) 7 = Some (reserves_available drops \<lparr>sfBalance = 1000, sfOwnerCount = 0, sfHookStateCount = 0,
       sfHookNamespaces = None\<rparr> - 1, [(2, [(5, False, [1])])])"
  by (simp add: set_state_cache_def no_state_def one_account_def Let_def)

end
