(* ===== verification/Set_Hook.thy ===== *)
theory Set_Hook
  imports Hook_State Guard_Validate "HOL-Library.List_Lexorder"
begin

unbundle bit_operations_syntax

text \<open>
  The transaction that installs hooks, \<^verbatim>\<open>src/ripple/app/tx/impl/SetHook.cpp\<close>: the checks of
  \<^verbatim>\<open>preflight\<close> and \<^verbatim>\<open>preclaim\<close>, the merge of parameters, the deletion of namespaces and \<^verbatim>\<open>setHook\<close>.

  The digest, the instantiation test of the web assembly engine and the index of an account's hook
  entry are parameters, fields of \<open>set_env\<close>. Objects have the fields of their templates, so the
  checks for objects and fields of another name, which the templates exclude, are left out.
\<close>

record set_env =
  sha512Half :: "bytes \<Rightarrow> uint256"
  validateWasm :: "bytes \<Rightarrow> bool"
  hook_index :: "account_id \<Rightarrow> uint256"

record set_tx =
  tx_account :: account_id
  tx_id :: uint256
  tx_hooks :: "hook_object list option"

section \<open>Limits, fees, operations\<close>

definition maxHookWasmSize :: nat where
  "maxHookWasmSize = 0xFFFF"

definition maxHookParameterKeySize :: nat where
  "maxHookParameterKeySize = 32"

definition maxHookParameterValueSize :: nat where
  "maxHookParameterValueSize = 256"

definition maxHookChainLength :: nat where
  "maxHookChainLength = 4"

text \<open>In both comparisons the signed \<^verbatim>\<open>fee\<close> is converted to \<^verbatim>\<open>uint64_t\<close>.\<close>

definition computeExecutionFee :: "u64 \<Rightarrow> int" where
  "computeExecutionFee instructionCount =
     (let fee = instructionCount in if fee < instructionCount then 0x7FFFFFFFFFFFFFFF else sint fee)"

definition computeCreationFee :: "u64 \<Rightarrow> int" where
  "computeCreationFee byteCount =
     (let fee = byteCount * 500 in if fee < byteCount then 0x7FFFFFFFFFFFFFFF else sint fee)"

datatype HookSetOperation = hsoINVALID | hsoNOOP | hsoCREATE | hsoINSTALL | hsoDELETE | hsoNSDELETE | hsoUPDATE

definition hsfOVERRIDE :: u32 where "hsfOVERRIDE = 1"
definition hsfNSDELETE :: u32 where "hsfNSDELETE = 2"
definition hsfCOLLECT :: u32 where "hsfCOLLECT = 4"

definition has_flag :: "u32 \<Rightarrow> u32 \<Rightarrow> bool" where
  "has_flag flags f \<longleftrightarrow> flags AND f \<noteq> 0"

definition flags_or_0 :: "hook_object \<Rightarrow> u32" where
  "flags_or_0 hookSetObj = (case sfFlags hookSetObj of None \<Rightarrow> 0 | Some f \<Rightarrow> f)"

definition inferOperation :: "hook_object \<Rightarrow> HookSetOperation" where
  "inferOperation hookSetObj =
     (let wasmByteCount = (case sfCreateCode hookSetObj of None \<Rightarrow> 0 | Some c \<Rightarrow> length c);
          hasHash = (sfHookHash hookSetObj \<noteq> None);
          hasCode = (sfCreateCode hookSetObj \<noteq> None)
      in if hasHash \<and> hasCode then hsoINVALID
         else if hasHash then hsoINSTALL
         else if hasCode then if 0 < wasmByteCount then hsoCREATE else hsoDELETE
         else if sfHookGrants hookSetObj = None \<and> sfHookNamespace hookSetObj = None \<and>
           sfHookParameters hookSetObj = None \<and> sfHookOn hookSetObj = None \<and>
           sfHookApiVersion hookSetObj = None \<and> sfFlags hookSetObj = None then hsoNOOP
         else if sfHookNamespace hookSetObj \<noteq> None \<and> has_flag (flags_or_0 hookSetObj) hsfNSDELETE then hsoNSDELETE
         else hsoUPDATE)"

section \<open>Validation without the ledger\<close>

fun grants_loop :: "account_id \<Rightarrow> hook_grant list \<Rightarrow> (uint256 \<times> account_id option) list \<Rightarrow> bool" where
  "grants_loop hookAcc [] already = True"
| "grants_loop hookAcc (g # gs) already =
     (if sfAuthorize g = Some hookAcc then False
      else
        let entry = (grantHookHash g, sfAuthorize g) in
        if entry \<in> set already then False
        else grants_loop hookAcc gs (entry # already))"

definition validateHookGrants :: "account_id \<Rightarrow> hook_grant list \<Rightarrow> bool" where
  "validateHookGrants hookAcc hookGrants =
     (if 8 < length hookGrants then False else grants_loop hookAcc hookGrants [])"

fun params_loop :: "hook_parameter list \<Rightarrow> bytes list \<Rightarrow> bool" where
  "params_loop [] alreadySet = True"
| "params_loop (p # ps) alreadySet =
     (case sfHookParameterName p of
        None \<Rightarrow> False
      | Some paramName \<Rightarrow>
          if maxHookParameterKeySize < length paramName \<or>
            (case sfHookParameterValue p of None \<Rightarrow> False | Some v \<Rightarrow> maxHookParameterValueSize < length v) then False
          else if paramName \<in> set alreadySet then False
          else params_loop ps (paramName # alreadySet))"

definition validateHookParams :: "hook_parameter list \<Rightarrow> bool" where
  "validateHookParams hookParams =
     (if 16 < length hookParams then False else params_loop hookParams [])"

text \<open>
  The result is whether the entry is valid, with the instruction counts for a new hook. It may also
  be an exception of the guard checker, and the guard checker may not return.
\<close>

datatype HookSetValidation = Valid bool | Valid_Counts counts

definition params_and_grants :: "account_id \<Rightarrow> hook_object \<Rightarrow> bool" where
  "params_and_grants hookAcc hookSetObj \<longleftrightarrow>
     (case sfHookParameters hookSetObj of None \<Rightarrow> True | Some ps \<Rightarrow> validateHookParams ps) \<and>
     (case sfHookGrants hookSetObj of None \<Rightarrow> True | Some gs \<Rightarrow> validateHookGrants hookAcc gs)"

definition validate_create :: "set_env \<Rightarrow> account_id \<Rightarrow> hook_object \<Rightarrow> HookSetValidation outcome option" where
  "validate_create env hookAcc hookSetObj =
     (if \<not> params_and_grants hookAcc hookSetObj then Some (Ok (Valid False))
      else if sfHookNamespace hookSetObj = None then Some (Ok (Valid False))
      else if sfHookApiVersion hookSetObj = None then Some (Ok (Valid False))
      else if sfHookApiVersion hookSetObj \<noteq> Some 0 then Some (Ok (Valid False))
      else if sfHookOn hookSetObj = None then Some (Ok (Valid False))
      else (case sfCreateCode hookSetObj of
          None \<Rightarrow> Some (Ok (Valid False))
        | Some code \<Rightarrow>
            (case validateGuards code of
               None \<Rightarrow> None
             | Some (Reject _) \<Rightarrow> Some (Ok (Valid False))
             | Some (Throw x) \<Rightarrow> Some (Throw x)
             | Some Undef \<Rightarrow> Some Undef
             | Some (Ok result) \<Rightarrow>
                 if \<not> validateWasm env code then Some (Ok (Valid False)) else Some (Ok (Valid_Counts result)))))"

definition validateHookSetEntry :: "set_env \<Rightarrow> account_id \<Rightarrow> hook_object \<Rightarrow> HookSetValidation outcome option" where
  "validateHookSetEntry env hookAcc hookSetObj =
     (let flags = flags_or_0 hookSetObj in
      case inferOperation hookSetObj of
        hsoNOOP \<Rightarrow> Some (Ok (Valid True))
      | hsoNSDELETE \<Rightarrow>
          if sfHookGrants hookSetObj \<noteq> None \<or> sfHookParameters hookSetObj \<noteq> None \<or> sfHookOn hookSetObj \<noteq> None \<or>
            sfHookApiVersion hookSetObj \<noteq> None \<or> sfFlags hookSetObj = None \<or> sfHookNamespace hookSetObj = None
          then Some (Ok (Valid False))
          else if flags \<noteq> hsfNSDELETE then Some (Ok (Valid False))
          else Some (Ok (Valid True))
      | hsoDELETE \<Rightarrow>
          if sfHookGrants hookSetObj \<noteq> None \<or> sfHookParameters hookSetObj \<noteq> None \<or> sfHookOn hookSetObj \<noteq> None \<or>
            sfHookApiVersion hookSetObj \<noteq> None \<or> sfHookNamespace hookSetObj \<noteq> None \<or> sfFlags hookSetObj = None
          then Some (Ok (Valid False))
          else if \<not> has_flag flags hsfOVERRIDE then Some (Ok (Valid False))
          else if has_flag flags (NOT (hsfOVERRIDE OR hsfNSDELETE OR hsfCOLLECT)) then Some (Ok (Valid False))
          else Some (Ok (Valid True))
      | hsoINSTALL \<Rightarrow>
          if \<not> params_and_grants hookAcc hookSetObj then Some (Ok (Valid False))
          else if sfHookApiVersion hookSetObj \<noteq> None then Some (Ok (Valid False))
          else Some (Ok (Valid True))
      | hsoUPDATE \<Rightarrow>
          if has_flag flags hsfOVERRIDE \<or> (has_flag flags hsfNSDELETE \<and> sfHookNamespace hookSetObj = None)
          then Some (Ok (Valid False))
          else if \<not> params_and_grants hookAcc hookSetObj then Some (Ok (Valid False))
          else if sfHookApiVersion hookSetObj \<noteq> None then Some (Ok (Valid False))
          else Some (Ok (Valid True))
      | hsoCREATE \<Rightarrow> validate_create env hookAcc hookSetObj
      | hsoINVALID \<Rightarrow> Some (Ok (Valid False)))"

section \<open>Preflight, preclaim and the fee\<close>

text \<open>An exception of a validation is caught and makes the transaction malformed.\<close>

fun preflight_loop :: "set_env \<Rightarrow> account_id \<Rightarrow> hook_object list \<Rightarrow> bool \<Rightarrow> (TER + bool) outcome option" where
  "preflight_loop env hookAcc [] allBlank = Some (Ok (Inr allBlank))"
| "preflight_loop env hookAcc (s # hookSets) allBlank =
     (if (case sfCreateCode s of None \<Rightarrow> False | Some c \<Rightarrow> maxHookWasmSize < length c) then Some (Ok (Inl temMALFORMED))
      else if s = blank_hook then preflight_loop env hookAcc hookSets allBlank
      else (case validateHookSetEntry env hookAcc s of
          None \<Rightarrow> None
        | Some (Ok (Valid False)) \<Rightarrow> Some (Ok (Inl temMALFORMED))
        | Some (Throw _) \<Rightarrow> Some (Ok (Inl temMALFORMED))
        | Some (Reject e) \<Rightarrow> Some (Reject e)
        | Some Undef \<Rightarrow> Some Undef
        | Some (Ok _) \<Rightarrow> preflight_loop env hookAcc hookSets False))"

text \<open>
  \<^verbatim>\<open>preflight1\<close> and \<^verbatim>\<open>preflight2\<close>, the checks that all transactions share, are given by their results.
\<close>

definition preflight :: "set_env \<Rightarrow> bool \<Rightarrow> TER \<Rightarrow> TER \<Rightarrow> set_tx \<Rightarrow> TER outcome option" where
  "preflight env featureHooks preflight1 preflight2 tx =
     (if \<not> featureHooks then Some (Ok temDISABLED)
      else if preflight1 \<noteq> tesSUCCESS then Some (Ok preflight1)
      else case tx_hooks tx of
        None \<Rightarrow> Some (Ok temMALFORMED)
      | Some hookSets \<Rightarrow>
          if length hookSets < 1 then Some (Ok temMALFORMED)
          else if maxHookChainLength < length hookSets then Some (Ok temMALFORMED)
          else (case preflight_loop env (tx_account tx) hookSets True of
              None \<Rightarrow> None
            | Some (Ok (Inl ter)) \<Rightarrow> Some (Ok ter)
            | Some (Ok (Inr allBlank)) \<Rightarrow> Some (Ok (if allBlank then temMALFORMED else preflight2))
            | Some (Reject e) \<Rightarrow> Some (Reject e)
            | Some (Throw x) \<Rightarrow> Some (Throw x)
            | Some Undef \<Rightarrow> Some Undef))"

definition preclaim :: "ledger \<Rightarrow> hook_object list \<Rightarrow> TER" where
  "preclaim L hookSets =
     (if list_all (\<lambda>s. case sfHookHash s of None \<Rightarrow> True | Some hash \<Rightarrow> definitions L hash \<noteq> None) hookSets
      then tesSUCCESS else terNO_HOOK)"

definition param_bytes :: "hook_parameter \<Rightarrow> nat" where
  "param_bytes p =
     (case sfHookParameterName p of None \<Rightarrow> 0 | Some n \<Rightarrow> length n) +
     (case sfHookParameterValue p of None \<Rightarrow> 0 | Some v \<Rightarrow> length v)"

text \<open>What \<^verbatim>\<open>calculateBaseFee\<close> adds to the fee of every transaction.\<close>

definition extraFee :: "hook_object list \<Rightarrow> u64" where
  "extraFee hookSets =
     sum_list (map (\<lambda>s. case sfCreateCode s of
        None \<Rightarrow> 0
      | Some code \<Rightarrow>
          word_of_int (computeCreationFee (of_nat (length code))) +
          (case sfHookParameters s of None \<Rightarrow> 0 | Some ps \<Rightarrow> of_nat (sum_list (map param_bytes ps)))) hookSets)"

section \<open>Parameters\<close>

text \<open>\<^verbatim>\<open>getFieldVL\<close> of an absent field is the empty blob.\<close>

definition vl :: "bytes option \<Rightarrow> bytes" where
  "vl b = (case b of None \<Rightarrow> [] | Some v \<Rightarrow> v)"

type_synonym parameter_map = "(bytes, bytes option) omap"

definition override_parameters :: "hook_parameter list \<Rightarrow> parameter_map \<Rightarrow> parameter_map" where
  "override_parameters ps m = fold (\<lambda>p. omap_put (vl (sfHookParameterName p)) (sfHookParameterValue p)) ps m"

text \<open>Erases what is the same as a default of the definition and notes which defaults are blanked.\<close>

fun erase_defaults :: "hook_parameter list \<Rightarrow> parameter_map \<Rightarrow> bytes list \<Rightarrow> parameter_map \<times> bytes list" where
  "erase_defaults [] parameters explicitBlanks = (parameters, explicitBlanks)"
| "erase_defaults (p # ps) parameters explicitBlanks =
     (let n = vl (sfHookParameterName p); v = vl (sfHookParameterValue p) in
      case map_of parameters n of
        None \<Rightarrow> erase_defaults ps parameters explicitBlanks
      | Some pv \<Rightarrow>
          if pv = None \<or> pv = Some v then erase_defaults ps (omap_del n parameters) explicitBlanks
          else if pv = Some [] then erase_defaults ps parameters (n # explicitBlanks)
          else erase_defaults ps parameters explicitBlanks)"

definition updateHookParameters ::
  "hook_object \<Rightarrow> hook_definition option \<Rightarrow> hook_parameter list \<Rightarrow> hook_object \<Rightarrow> TER + hook_object" where
  "updateHookParameters hookSetObj oldDef oldParameters newHook =
     (let parameters = override_parameters oldParameters [];
          parameters = override_parameters (case sfHookParameters hookSetObj of None \<Rightarrow> [] | Some ps \<Rightarrow> ps) parameters;
          (parameters, explicitBlanks) =
            (case oldDef of
               None \<Rightarrow> (parameters, [])
             | Some d \<Rightarrow>
                 if parameters \<noteq> [] then erase_defaults (defHookParameters d) parameters [] else (parameters, []));
          parameters = filter (\<lambda>(pn, pv). \<not> (pv = None \<or> (pv = Some [] \<and> pn \<notin> set explicitBlanks))) parameters
      in if 16 < length parameters then Inl tecINTERNAL
         else if list_ex (\<lambda>(pn, pv). pv \<noteq> None \<and>
             (maxHookParameterKeySize < length pn \<or> maxHookParameterValueSize < length (the pv))) parameters then Inl tecINTERNAL
         else
           let newParameters = map (\<lambda>(pn, pv). \<lparr>sfHookParameterName = Some pn, sfHookParameterValue = pv\<rparr>)
                 (filter (\<lambda>(pn, pv). pv \<noteq> None) parameters)
           in Inr (if newParameters \<noteq> [] then newHook\<lparr>sfHookParameters := Some newParameters\<rparr> else newHook))"

text \<open>The parameters a hook runs with; the result is the map, into which the caller passes an empty one.\<close>

definition gatherHookParameters :: "hook_definition \<Rightarrow> hook_object \<Rightarrow> (bytes, bytes) omap \<Rightarrow> (bytes, bytes) omap" where
  "gatherHookParameters hookDef hookObj parameters =
     (let set_all = fold (\<lambda>p. omap_put (vl (sfHookParameterName p)) (vl (sfHookParameterValue p)));
          parameters = set_all (defHookParameters hookDef) parameters
      in case sfHookParameters hookObj of None \<Rightarrow> parameters | Some ps \<Rightarrow> set_all ps parameters)"

section \<open>Deletion of a namespace\<close>

text \<open>
  The entries of a directory in the order of \<^verbatim>\<open>cdirFirst\<close> and \<^verbatim>\<open>cdirNext\<close>, which end at a page that is
  missing; the inner \<open>None\<close> says that an entry is not in the ledger. The walk does not end if the
  pages form a cycle that misses the root.
\<close>

partial_function (option) cdir_walk :: "('k \<Rightarrow> bool) \<Rightarrow> 'k directory \<Rightarrow> int \<Rightarrow> 'k list option option" where
  "cdir_walk present d p =
     (case d p of
        None \<Rightarrow> Some (Some [])
      | Some page \<Rightarrow>
          if \<not> list_all present (sfIndexes page) then Some None
          else if sfIndexNext page = 0 then Some (Some (sfIndexes page))
          else Option.bind (cdir_walk present d (sfIndexNext page)) (\<lambda>r. Some (map_option ((@) (sfIndexes page)) r)))"

definition dirIsEmpty :: "'k directory \<Rightarrow> bool" where
  "dirIsEmpty d =
     (case d 0 of
        None \<Rightarrow> True
      | Some sleNode \<Rightarrow> if sfIndexes sleNode \<noteq> [] then False else sfIndexNext sleNode = 0)"

text \<open>
  The deletion loop, with the entries, the directory and the state count. \<^verbatim>\<open>None\<close> in the result is the
  code \<^verbatim>\<open>tefBAD_LEDGER\<close>.
\<close>

fun delete_states ::
  "account_id \<Rightarrow> uint256 \<Rightarrow> uint256 list \<Rightarrow> (account_id \<times> uint256 \<times> uint256 \<rightharpoonup> state_entry) \<Rightarrow> uint256 directory \<Rightarrow> u32 \<Rightarrow>
     (bool \<times> (account_id \<times> uint256 \<times> uint256 \<rightharpoonup> state_entry) \<times> uint256 directory \<times> u32) outcome" where
  "delete_states acc ns [] st d stateCount = Ok (True, st, d, stateCount)"
| "delete_states acc ns (itemKey # ks) st d stateCount =
     (case st (acc, ns, itemKey) of
        None \<Rightarrow> delete_states acc ns ks st d stateCount
      | Some sleItem \<Rightarrow>
          obind (dirRemove d (stateOwnerNode sleItem) itemKey False) (\<lambda>(removed, d).
          if \<not> removed then Ok (False, st, d, stateCount)
          else delete_states acc ns ks (st((acc, ns, itemKey) := None)) d (stateCount - 1)))"

definition destroyNamespace :: "ledger \<Rightarrow> account_id \<Rightarrow> uint256 \<Rightarrow> (TER \<times> ledger) outcome option" where
  "destroyNamespace L account ns =
     (case accounts L account of
        None \<Rightarrow> Some (Ok (tefBAD_LEDGER, L))
      | Some sleAccount \<Rightarrow>
          let sleAccount =
                (case sfHookNamespaces sleAccount of None \<Rightarrow> sleAccount | Some _ \<Rightarrow> snd (removeHookNamespaceEntry sleAccount ns));
              L = L\<lparr>accounts := (accounts L)(account \<mapsto> sleAccount)\<rparr>;
              dir = state_dirs L (account, ns)
          in if dir 0 = None then Some (Ok (tesSUCCESS, L))
             else if dirIsEmpty dir then
               Some (Ok (tesSUCCESS, L\<lparr>state_dirs := (state_dirs L)((account, ns) := dir(0 := None))\<rparr>))
             else (case cdir_walk (\<lambda>k. states L (account, ns, k) \<noteq> None) dir 0 of
                 None \<Rightarrow> None
               | Some None \<Rightarrow> Some (Ok (tefBAD_LEDGER, L))
               | Some (Some toDelete) \<Rightarrow>
                   if toDelete = [] then Some (Ok (tefINTERNAL, L))
                   else
                     let oldStateCount = sfHookStateCount sleAccount in
                     Some (obind (delete_states account ns toDelete (states L) dir oldStateCount)
                       (\<lambda>(removed, st, dir, stateCount).
                        let L = L\<lparr>states := st, state_dirs := (state_dirs L)((account, ns) := dir)\<rparr> in
                        if \<not> removed then Ok (tefBAD_LEDGER, L)
                        else if oldStateCount < stateCount then Ok (tefBAD_LEDGER, L)
                        else Ok (tesSUCCESS,
                          L\<lparr>accounts := (accounts L)(account \<mapsto> sleAccount\<lparr>sfHookStateCount := stateCount\<rparr>)\<rparr>)))))"

end
