(* ===== verification/Set_Hook_Namespace.thy ===== *)
theory Set_Hook_Namespace
  imports Set_Hook Hook_State_Props
begin

text \<open>
  The deletion of a namespace: on a consistent ledger it removes every entry of the namespace with
  its directory and nothing else, and leaves the ledger consistent. It gives back no reserve.
\<close>

section \<open>The walk over a directory\<close>

lemma link_next:
  assumes ok: "dir_ok d ps" and ps: "ps = as @ p # qs"
  shows "sfIndexNext (the (d p)) = (case qs of [] \<Rightarrow> 0 | q # _ \<Rightarrow> q)" "d p \<noteq> None" "qs \<noteq> [] \<Longrightarrow> hd qs \<noteq> 0"
proof -
  have "(p, (case qs of [] \<Rightarrow> 0 | q # _ \<Rightarrow> q)) \<in> set (links (ps @ [0]))"
    using links_append [of as p "qs @ [0]"] by (cases qs) (simp_all add: ps)
  then show "sfIndexNext (the (d p)) = (case qs of [] \<Rightarrow> 0 | q # _ \<Rightarrow> q)"
    using ringD [OF dir_okD(6) [OF ok]] by blast
  show "d p \<noteq> None"
    using dir_okD(5) [OF ok] ps by auto
  show "hd qs \<noteq> 0" if "qs \<noteq> []"
  proof -
    have "0 \<notin> set qs"
      using dir_okD(2,10) [OF ok] by (cases as) (auto simp: ps)
    then show ?thesis
      using hd_in_set [OF that] by metis
  qed
qed

lemma cdir_walk_list:
  assumes "dir_ok d ps" and "ps = as @ p # qs" and "\<forall>q \<in> set (p # qs). list_all present (entries d q)"
  shows "cdir_walk present d p = Some (Some (concat (map (entries d) (p # qs))))"
  using assms(2,3)
proof (induction qs arbitrary: as p)
  case Nil
  obtain page where page: "d p = Some page"
    using link_next(2) [OF assms(1) Nil(1)] by blast
  then show ?case
    using link_next(1) [OF assms(1) Nil(1)] Nil(2) by (subst cdir_walk.simps) simp
next
  case (Cons q qs)
  obtain page where page: "d p = Some page"
    using link_next(2) [OF assms(1) Cons.prems(1)] by blast
  have "cdir_walk present d q = Some (Some (concat (map (entries d) (q # qs))))"
    using Cons.IH [of "as @ [p]" q] Cons.prems by simp
  then show ?case
    using link_next(1,3) [OF assms(1) Cons.prems(1)] page Cons.prems(2) by (subst cdir_walk.simps) simp
qed

text \<open>On a well-formed directory the walk ends and lists every entry once.\<close>

lemma cdir_walk_entries:
  assumes "dir_inv d" and "d 0 \<noteq> None" and "\<And>p k. in_dir d p k \<Longrightarrow> present k"
  obtains ks where "cdir_walk present d 0 = Some (Some ks)" "distinct ks" "set ks = {k. \<exists>p. in_dir d p k}" "ks \<noteq> []"
proof -
  obtain ps where ok: "dir_ok d ps"
    using assms(1,2) by (auto simp: dir_inv_def)
  note d = in_dir_iff [OF dir_okD(5) [OF ok]]
  obtain qs where ps: "ps = 0 # qs"
    using dir_okD(1,2) [OF ok] by (cases ps) auto
  let ?ks = "concat (map (entries d) ps)"
  have all: "\<forall>q \<in> set ps. list_all present (entries d q)"
    using assms(3) by (auto simp: d list_all_iff)
  then have walk: "cdir_walk present d 0 = Some (Some ?ks)"
    using cdir_walk_list [OF ok, of "[]" 0 qs] ps by simp
  have "distinct ?ks"
  proof (rule distinct_concat)
    show "distinct (map (entries d) ps)"
      unfolding distinct_map
    proof (intro conjI inj_onI)
      fix p q
      assume pq: "p \<in> set ps" "q \<in> set ps" and eq: "entries d p = entries d q"
      show "p = q"
      proof (rule ccontr)
        assume "p \<noteq> q"
        then have "entries d p = []"
          using dir_okD(9) [OF ok pq] eq by simp
        then show False
          using dir_okD(8) [OF ok] pq eq \<open>p \<noteq> q\<close> by metis
      qed
    qed (rule dir_okD(10) [OF ok])
    show "distinct es" if "es \<in> set (map (entries d) ps)" for es
      using that dir_okD(7) [OF ok] by auto
    show "set xs \<inter> set ys = {}" if "xs \<in> set (map (entries d) ps)" "ys \<in> set (map (entries d) ps)" "xs \<noteq> ys" for xs ys
      using that dir_okD(9) [OF ok] by force
  qed
  moreover have "set ?ks = {k. \<exists>p. in_dir d p k}"
    by (auto simp: d)
  moreover have "?ks \<noteq> []"
    using assms(1,2) root_iff_entries calculation(2) by fastforce
  ultimately show ?thesis
    using walk that by blast
qed

section \<open>The deletion\<close>

definition without :: "account_id \<Rightarrow> uint256 \<Rightarrow> uint256 set \<Rightarrow> (account_id \<times> uint256 \<times> uint256 \<rightharpoonup> 'e) \<Rightarrow> (account_id \<times> uint256 \<times> uint256 \<rightharpoonup> 'e)" where
  "without acc ns K st = (\<lambda>(a, n, k). if a = acc \<and> n = ns \<and> k \<in> K then None else st (a, n, k))"

lemma without_apply [simp]: "without acc ns K st (a, n, k) = (if a = acc \<and> n = ns \<and> k \<in> K then None else st (a, n, k))"
  by (simp add: without_def)

lemma delete_states_ok:
  assumes "dir_inv d" and "\<And>p k. in_dir d p k \<longleftrightarrow> (\<exists>e. st (acc, ns, k) = Some e \<and> stateOwnerNode e = p)"
    and "distinct ks" and "\<And>k. k \<in> set ks \<Longrightarrow> st (acc, ns, k) \<noteq> None"
  shows "\<exists>d'. delete_states acc ns ks st d c = Ok (True, without acc ns (set ks) st, d', c - of_nat (length ks)) \<and>
    dir_inv d' \<and> (\<forall>p k. in_dir d' p k \<longleftrightarrow> in_dir d p k \<and> k \<notin> set ks)"
  using assms
proof (induction ks arbitrary: st d c)
  case Nil
  then show ?case
    by (simp add: without_def)
next
  case (Cons k ks)
  obtain e where e: "st (acc, ns, k) = Some e"
    using Cons.prems(4) [of k] by auto
  then have "in_dir d (stateOwnerNode e) k"
    using Cons.prems(2) by blast
  then obtain d1 where d1: "dirRemove d (stateOwnerNode e) k False = Ok (True, d1)" "dir_inv d1"
      "\<And>q j. in_dir d1 q j \<longleftrightarrow> in_dir d q j \<and> j \<noteq> k"
    using dirs.remove_cases [OF Cons.prems(1)] by blast
  have "\<exists>d'. delete_states acc ns ks (st((acc, ns, k) := None)) d1 (c - 1) =
      Ok (True, without acc ns (set ks) (st((acc, ns, k) := None)), d', c - 1 - of_nat (length ks)) \<and>
      dir_inv d' \<and> (\<forall>p j. in_dir d' p j \<longleftrightarrow> in_dir d1 p j \<and> j \<notin> set ks)"
    using Cons.prems(2-4) d1 by (intro Cons.IH) auto
  moreover have "without acc ns (set ks) (st((acc, ns, k) := None)) = without acc ns (set (k # ks)) st"
    by (auto simp: without_def fun_eq_iff)
  moreover have "c - 1 - of_nat (length ks) = c - of_nat (length (k # ks))"
    by simp
  ultimately show ?case
    using e d1 by auto
qed

lemma card_namespace:
  assumes "finite (states_of L acc)" and "distinct ks" and "set ks = {k. states L (acc, ns, k) \<noteq> None}"
    and "states_of L' acc = {(n, k) \<in> states_of L acc. n \<noteq> ns}"
  shows "card (states_of L acc) = card (states_of L' acc) + length ks"
proof -
  have "states_of L acc = states_of L' acc \<union> Pair ns ` set ks" "states_of L' acc \<inter> Pair ns ` set ks = {}"
    using assms(3,4) by (auto simp: states_of_def)
  moreover have "card (Pair ns ` set ks) = length ks"
    using assms(2) by (simp add: card_image inj_on_def distinct_card)
  ultimately show ?thesis
    using assms(1) by (metis card_Un_disjoint finite_Un)
qed

lemma unat_minus_of_nat:
  assumes "n \<le> unat (c :: u32)"
  shows "unat (c - of_nat n) = unat c - n"
proof -
  have "n < 2 ^ 32"
    using assms unsigned_less [of c, where ?'a = nat] by simp
  then have "unat (of_nat n :: u32) = n"
    by (simp add: unat_of_nat)
  then show ?thesis
    using assms by (metis unat_sub word_le_nat_alt)
qed

text \<open>All entries of a namespace go together with its directory and its place in the account's list.\<close>

lemma state_inv_without:
  assumes inv: "state_inv L" and a: "accounts L acc = Some a"
    and L': "states L' = without acc ns UNIV (states L)" "state_dirs L' = (state_dirs L)((acc, ns) := d')"
      "accounts L' = (accounts L)(acc \<mapsto> a')"
    and d': "dir_inv d'" "\<And>p k. \<not> in_dir d' p k"
    and a': "unat (sfHookStateCount a') = card (states_of L' acc)" "unat (sfHookStateCount a') \<le> unat (sfOwnerCount a')"
      "distinct (namespaces_of a')" "set (namespaces_of a') = set (namespaces_of a) - {ns}"
  shows "state_inv L'"
proof -
  note old = state_invD [OF inv]
  have root: "d' 0 = None"
    using root_iff_entries [OF d'(1)] d'(2) by blast
  have "dom (states L') \<subseteq> dom (states L)"
    by (auto simp: L'(1) split: if_splits)
  then have "finite (dom (states L'))"
    using old(1) finite_subset by blast
  moreover have "dirs_consistent L'"
    using d' old(2,3) by (auto simp: dirs_consistent_def L')
  moreover have "entry_ok k x \<and> accounts L' acc' \<noteq> None" if "states L' (acc', ns', k) = Some x" for acc' ns' k x
    using that old(4,5) by (auto simp: L' split: if_splits)
  moreover have "account_consistent L' acc' x" if x: "accounts L' acc' = Some x" for acc' x
  proof (cases "acc' = acc")
    case True
    have "set (namespaces_of a) = {n. state_dirs L (acc, n) 0 \<noteq> None}"
      using old(6) [OF a] by (simp add: account_consistent_def)
    with True x a' root show ?thesis
      by (auto simp: L' account_consistent_def)
  next
    case False
    then have "states_of L' acc' = states_of L acc'" "state_dirs L' (acc', n) = state_dirs L (acc', n)" for n
      by (auto simp: states_of_def L')
    moreover have "account_consistent L acc' x"
      using False x old(6) by (simp add: L'(3))
    ultimately show ?thesis
      by (simp add: account_consistent_def)
  qed
  ultimately show ?thesis
    by (simp add: state_inv_def)
qed

lemma destroyNamespace_ok:
  assumes inv: "state_inv L" and a: "accounts L acc = Some a"
  shows "\<exists>L' a'. destroyNamespace L acc ns = Some (Ok (tesSUCCESS, L')) \<and> state_inv L' \<and>
    states L' = without acc ns UNIV (states L) \<and> accounts L' = (accounts L)(acc \<mapsto> a') \<and>
    sfOwnerCount a' = sfOwnerCount a \<and> sfBalance a' = sfBalance a"
proof -
  note old = state_invD [OF inv]
  have ac: "account_consistent L acc a"
    using old(6) a .
  define a1 where "a1 = (case sfHookNamespaces a of None \<Rightarrow> a | Some _ \<Rightarrow> snd (removeHookNamespaceEntry a ns))"
  have dist: "distinct (namespaces_of a)"
    using ac by (simp add: account_consistent_def)
  have a1: "set (namespaces_of a1) = set (namespaces_of a) - {ns}" "distinct (namespaces_of a1)"
    "sfHookStateCount a1 = sfHookStateCount a" "sfOwnerCount a1 = sfOwnerCount a" "sfBalance a1 = sfBalance a"
  proof -
    have "namespaces_of a = []" if "sfHookNamespaces a = None"
      using that by (simp add: namespaces_of_def)
    then show "set (namespaces_of a1) = set (namespaces_of a) - {ns}" "distinct (namespaces_of a1)"
        "sfHookStateCount a1 = sfHookStateCount a" "sfOwnerCount a1 = sfOwnerCount a" "sfBalance a1 = sfBalance a"
      using removeHookNamespaceEntry_spec [OF dist, of ns] dist by (simp_all add: a1_def split: option.split)
  qed
  define L1 where "L1 = L\<lparr>accounts := (accounts L)(acc \<mapsto> a1)\<rparr>"
  define dir where "dir = state_dirs L (acc, ns)"
  show ?thesis
  proof (cases "dir 0 = None")
    case True
    then have empty: "\<not> in_dir dir p k" for p k
      using root_iff_entries [OF old(2), of acc ns] by (simp add: dir_def)
    have none: "states L (acc, ns, k) = None" for k
    proof (rule ccontr)
      assume "states L (acc, ns, k) \<noteq> None"
      then have "\<exists>p. in_dir dir p k"
        using old(3) [of acc ns _ k] by (auto simp: dir_def)
      with empty show False
        by blast
    qed
    have st: "states L1 = without acc ns UNIV (states L)"
      using none by (auto simp: L1_def fun_eq_iff)
    have same: "states_of L1 acc = states_of L acc"
      by (simp add: states_of_def L1_def)
    have "state_inv L1"
      using a1 ac same empty
      by (intro state_inv_without [OF inv a st, where d' = dir and a' = a1]) (auto simp: L1_def dir_def account_consistent_def intro: old(2))
    then show ?thesis
      using True a a1 st
      by (auto simp: destroyNamespace_def Let_def a1_def [symmetric] L1_def [symmetric] dir_def [symmetric])
         (auto simp: L1_def dir_def)
  next
    case root: False
    obtain ks where ks: "cdir_walk (\<lambda>k. states L (acc, ns, k) \<noteq> None) dir 0 = Some (Some ks)" "distinct ks"
        "set ks = {k. \<exists>p. in_dir dir p k}" "ks \<noteq> []"
      using cdir_walk_entries [of dir "\<lambda>k. states L (acc, ns, k) \<noteq> None"] old(2,3) root unfolding dir_def by blast
    have keys: "set ks = {k. states L (acc, ns, k) \<noteq> None}"
      unfolding ks(3) dir_def using old(3) by auto
    obtain d' where d': "delete_states acc ns ks (states L) dir (sfHookStateCount a) =
        Ok (True, without acc ns (set ks) (states L), d', sfHookStateCount a - of_nat (length ks))" "dir_inv d'"
        "\<And>p k. in_dir d' p k \<longleftrightarrow> in_dir dir p k \<and> k \<notin> set ks"
      using delete_states_ok [of dir "states L" acc ns ks "sfHookStateCount a"] old(2,3) ks(2) keys unfolding dir_def by blast
    have st: "without acc ns (set ks) (states L) = without acc ns UNIV (states L)"
      using keys by (auto simp: without_def fun_eq_iff)
    define n where "n = sfHookStateCount a - of_nat (length ks)"
    define L' where "L' = L\<lparr>states := without acc ns UNIV (states L), state_dirs := (state_dirs L)((acc, ns) := d'),
        accounts := (accounts L)(acc \<mapsto> a1\<lparr>sfHookStateCount := n\<rparr>)\<rparr>"
    have "states_of L' acc = {(m, k) \<in> states_of L acc. m \<noteq> ns}"
      by (auto simp: states_of_def L'_def)
    then have card: "card (states_of L acc) = card (states_of L' acc) + length ks"
      using card_namespace [OF finite_states_of [OF old(1)] ks(2) keys] by blast
    then have n: "unat n = card (states_of L' acc)" "n \<le> sfHookStateCount a"
      using ac unat_minus_of_nat [of "length ks" "sfHookStateCount a"] by (simp_all add: n_def account_consistent_def word_le_nat_alt)
    have "\<not> dirIsEmpty dir"
    proof
      assume "dirIsEmpty dir"
      then have "ks = []"
        using ks(1) root by (subst (asm) cdir_walk.simps) (auto simp: dirIsEmpty_def split: if_splits)
      with ks(4) show False ..
    qed
    then have "destroyNamespace L acc ns = Some (Ok (tesSUCCESS, L'))"
      using a root ks(1,4) d'(1) [unfolded st] n(2)
      by (auto simp: destroyNamespace_def Let_def a1_def [symmetric] dir_def [symmetric] n_def [symmetric] a1(3) L'_def not_less)
    moreover have "state_inv L'"
      using a1 ac n d' ks(3) card
      by (intro state_inv_without [OF inv a, where d' = d' and a' = "a1\<lparr>sfHookStateCount := n\<rparr>"]) (auto simp: L'_def account_consistent_def)
    ultimately show ?thesis
      using a1 by (auto simp: L'_def)
  qed
qed

text \<open>
  C9: deleting a namespace deletes all of it. On a consistent ledger \<^verbatim>\<open>destroyNamespace\<close> returns with
  success, although its walk over the pages of the directory has no bound; afterwards the namespace
  has no entries, every other entry is as it was, and the ledger is consistent. The owner count of
  the account does not change, so the reserves of the deleted entries are not given back.
\<close>

theorem destroyNamespace_destroys:
  assumes "state_inv L" and "accounts L acc = Some a"
  shows "\<exists>L' a'. destroyNamespace L acc ns = Some (Ok (tesSUCCESS, L')) \<and> state_inv L' \<and>
    (\<forall>x n k. state_data L' (x, n, k) = (if x = acc \<and> n = ns then None else state_data L (x, n, k))) \<and>
    accounts L' acc = Some a' \<and> sfOwnerCount a' = sfOwnerCount a"
  using destroyNamespace_ok [OF assms, of ns] by (fastforce simp: state_data_def)

definition one_entry :: ledger where
  "one_entry =
     \<lparr>accounts = [7 \<mapsto> \<lparr>sfBalance = 1000, sfOwnerCount = 1, sfHookStateCount = 1, sfHookNamespaces = Some [2]\<rparr>],
      hooks = Map.empty, definitions = Map.empty,
      states = [(7, 2, 5) \<mapsto> \<lparr>sfHookStateData = [1], sfHookStateKey = 5, stateOwnerNode = 0\<rparr>],
      state_dirs = (\<lambda>_. Map.empty)((7, 2) := [0 \<mapsto> \<lparr>sfIndexes = [5], sfIndexNext = 0, sfIndexPrevious = 0\<rparr>]),
      owner_dirs = (\<lambda>_. Map.empty)\<rparr>"

lemma state_inv_one_entry: "state_inv one_entry"
proof -
  have "states_of one_entry 7 = {(2, 5)}"
    by (auto simp: states_of_def one_entry_def split: if_splits)
  then have "account_consistent one_entry 7 a" if "accounts one_entry 7 = Some a" for a
    using that by (auto simp: account_consistent_def one_entry_def namespaces_of_def)
  moreover have "dirs_consistent one_entry"
    using dir_ok_single [of "5 :: uint256"]
    by (auto simp: dirs_consistent_def one_entry_def dir_inv_def in_dir_def split: if_splits)
  ultimately show ?thesis
    by (auto simp: state_inv_def one_entry_def entry_ok_def maxHookStateDataSize_def split: if_splits)
qed

theorem destroyNamespace_destroys_witness:
  "\<exists>L'. destroyNamespace one_entry 7 2 = Some (Ok (tesSUCCESS, L')) \<and> state_inv L' \<and> state_data L' (7, 2, 5) = None"
proof -
  have "accounts one_entry 7 = Some \<lparr>sfBalance = 1000, sfOwnerCount = 1, sfHookStateCount = 1, sfHookNamespaces = Some [2]\<rparr>"
    by (simp add: one_entry_def)
  from destroyNamespace_destroys [OF state_inv_one_entry this, of 2] show ?thesis
    by auto
qed

end
