(* ===== verification/Set_Hook_Apply.thy ===== *)
theory Set_Hook_Apply
  imports Set_Hook
begin

unbundle bit_operations_syntax

text \<open>
  \<^verbatim>\<open>SetHook::setHook\<close> of \<^verbatim>\<open>src/ripple/app/tx/impl/SetHook.cpp\<close>: the loop over the hook slots, which
  builds the new hook array and collects the changes of definitions and namespaces, and the part
  that enacts them.
\<close>

section \<open>The state of the loop\<close>

text \<open>
  \<open>viewed\<close> is the view's definitions: \<^verbatim>\<open>peek\<close> hands out one object for one keylet, so a reference count
  that was changed in one slot is seen in the next, before it is written back. The three sets are
  kept in ascending order.
\<close>

record set_state =
  newHooks :: "hook_object list"
  viewed :: "uint256 \<rightharpoonup> hook_definition"
  slesToInsert :: "(uint256, hook_definition) omap"
  slesToUpdate :: "uint256 list"
  keyletsToDestroy :: "uint256 list"
  namespacesToDestroy :: "uint256 list"

definition reduceReferenceCount :: "hook_definition \<Rightarrow> bool \<times> hook_definition" where
  "reduceReferenceCount sle =
     (let refCount = (if 0 < sfReferenceCount sle then sfReferenceCount sle - 1 else sfReferenceCount sle) in
      (refCount \<le> 0, sle\<lparr>sfReferenceCount := refCount\<rparr>))"

definition incrementReferenceCount :: "hook_definition \<Rightarrow> hook_definition" where
  "incrementReferenceCount sle = sle\<lparr>sfReferenceCount := sfReferenceCount sle + 1\<rparr>"

text \<open>The old definition loses a reference and is marked for deletion or for update.\<close>

definition release_definition :: "uint256 option \<Rightarrow> set_state \<Rightarrow> set_state" where
  "release_definition oldHash st =
     (case oldHash of
        None \<Rightarrow> st
      | Some h \<Rightarrow>
          (case viewed st h of
             None \<Rightarrow> st
           | Some oldDef \<Rightarrow>
               let (destroy, d) = reduceReferenceCount oldDef; st = st\<lparr>viewed := (viewed st)(h \<mapsto> d)\<rparr> in
               if destroy then st\<lparr>keyletsToDestroy := insort_insert h (keyletsToDestroy st)\<rparr>
               else st\<lparr>slesToUpdate := insort_insert h (slesToUpdate st)\<rparr>))"

definition push_hook :: "hook_object \<Rightarrow> set_state \<Rightarrow> set_state" where
  "push_hook h st = st\<lparr>newHooks := newHooks st @ [h]\<rparr>"

section \<open>One slot\<close>

text \<open>What the slot holds before the transaction.\<close>

record slot_view =
  oldHook :: "hook_object option"
  oldHash :: "uint256 option"
  oldDef :: "hook_definition option"
  oldNamespace :: "uint256 option"

definition slot_of :: "set_state \<Rightarrow> hook_object option \<Rightarrow> slot_view" where
  "slot_of st old =
     (let hash = Option.bind old sfHookHash;
          d = Option.bind hash (viewed st);
          defNamespace = map_option defHookNamespace d
      in \<lparr>oldHook = old, oldHash = hash, oldDef = d,
          oldNamespace = (if hash = None then None
            else case Option.bind old sfHookNamespace of Some n \<Rightarrow> Some n | None \<Rightarrow> defNamespace)\<rparr>)"

definition strip_flags :: "u32 \<Rightarrow> u32" where
  "strip_flags flags =
     (let newFlags = flags;
          newFlags = (if has_flag newFlags hsfOVERRIDE then newFlags - hsfOVERRIDE else newFlags)
      in if has_flag newFlags hsfNSDELETE then newFlags - hsfNSDELETE else newFlags)"

text \<open>Users may destroy a namespace in any operation except NOOP and INVALID.\<close>

definition mark_namespace :: "slot_view \<Rightarrow> HookSetOperation \<Rightarrow> hook_object \<Rightarrow> set_state \<Rightarrow> set_state" where
  "mark_namespace slot op hookSetObj st =
     (let destroy = (\<lambda>ns. st\<lparr>namespacesToDestroy := insort_insert ns (namespacesToDestroy st)\<rparr>) in
      case sfFlags hookSetObj of
        None \<Rightarrow> st
      | Some flags \<Rightarrow>
          if \<not> has_flag flags hsfNSDELETE then st
          else if op = hsoNOOP \<or> op = hsoINVALID then st
          else if op = hsoNSDELETE \<and> sfHookNamespace hookSetObj \<noteq> None then destroy (the (sfHookNamespace hookSetObj))
          else (case oldNamespace slot of None \<Rightarrow> st | Some ns \<Rightarrow> destroy ns))"

definition lacks_override :: "hook_object \<Rightarrow> bool" where
  "lacks_override hookSetObj = (case sfFlags hookSetObj of None \<Rightarrow> True | Some f \<Rightarrow> \<not> has_flag f hsfOVERRIDE)"

definition delete_hook :: "slot_view \<Rightarrow> hook_object \<Rightarrow> set_state \<Rightarrow> TER + set_state" where
  "delete_hook slot hookSetObj st =
     (if lacks_override hookSetObj then Inl tecREQUIRES_FLAG
      else
        let st = push_hook blank_hook st in
        if oldHook slot = None then Inr st else Inr (release_definition (oldHash slot) st))"

definition set_grants :: "hook_object \<Rightarrow> hook_object \<Rightarrow> hook_object" where
  "set_grants hookSetObj newHook =
     (case sfHookGrants hookSetObj of
        None \<Rightarrow> newHook
      | Some grants \<Rightarrow> if grants = [] then newHook else newHook\<lparr>sfHookGrants := Some grants\<rparr>)"

text \<open>The object of an update: the old one with the fields that the transaction gives.\<close>

definition updated_hook :: "hook_definition \<Rightarrow> hook_object \<Rightarrow> hook_object \<Rightarrow> TER + hook_object" where
  "updated_hook d old hookSetObj =
     (let newHook = blank_hook\<lparr>sfHookHash := sfHookHash old, sfHookOn := sfHookOn old, sfHookNamespace := sfHookNamespace old\<rparr>;
          newHook = (case sfHookNamespace hookSetObj of
              None \<Rightarrow> newHook
            | Some n \<Rightarrow> newHook\<lparr>sfHookNamespace := if defHookNamespace d = n then None else Some n\<rparr>);
          newHook = (case sfHookOn hookSetObj of
              None \<Rightarrow> newHook
            | Some n \<Rightarrow> newHook\<lparr>sfHookOn := if defHookOn d = n then None else Some n\<rparr>);
          merged = (if sfHookParameters hookSetObj = Some [] then Inr newHook
            else updateHookParameters hookSetObj (Some d) (case sfHookParameters old of None \<Rightarrow> [] | Some ps \<Rightarrow> ps) newHook)
      in case merged of
           Inl ter \<Rightarrow> Inl ter
         | Inr newHook \<Rightarrow>
             let newHook = (case sfHookGrants hookSetObj of
                     Some grants \<Rightarrow> set_grants hookSetObj newHook
                   | None \<Rightarrow> newHook\<lparr>sfHookGrants := sfHookGrants old\<rparr>)
             in Inr (case sfFlags hookSetObj of None \<Rightarrow> newHook | Some f \<Rightarrow> newHook\<lparr>sfFlags := Some f\<rparr>))"

definition update_hook :: "slot_view \<Rightarrow> hook_object \<Rightarrow> set_state \<Rightarrow> TER + set_state" where
  "update_hook slot hookSetObj st =
     (case (oldDef slot, oldHook slot) of
        (Some d, Some old) \<Rightarrow>
          (case updated_hook d old hookSetObj of
             Inl ter \<Rightarrow> Inl ter
           | Inr newHook \<Rightarrow> Inr (push_hook newHook st))
      | _ \<Rightarrow> Inl tecNO_ENTRY)"

text \<open>The object of an installation: the fields that differ from the definition.\<close>

definition installed_hook :: "uint256 \<Rightarrow> hook_definition \<Rightarrow> hook_object \<Rightarrow> TER + hook_object" where
  "installed_hook newHash newDef hookSetObj =
     (let newHook = blank_hook\<lparr>sfHookHash := Some newHash\<rparr>;
          newHook = (case sfHookNamespace hookSetObj of
              None \<Rightarrow> newHook
            | Some n \<Rightarrow> if defHookNamespace newDef \<noteq> n then newHook\<lparr>sfHookNamespace := Some n\<rparr> else newHook);
          newHook = (case sfHookOn hookSetObj of
              None \<Rightarrow> newHook
            | Some n \<Rightarrow> if defHookOn newDef \<noteq> n then newHook\<lparr>sfHookOn := Some n\<rparr> else newHook)
      in case updateHookParameters hookSetObj (Some newDef) [] newHook of
           Inl ter \<Rightarrow> Inl ter
         | Inr newHook \<Rightarrow>
             let newHook = set_grants hookSetObj newHook in
             Inr (case sfFlags hookSetObj of None \<Rightarrow> newHook | Some f \<Rightarrow> newHook\<lparr>sfFlags := Some (strip_flags f)\<rparr>))"

text \<open>
  The definition to install is in the ledger or, after \<^verbatim>\<open>hsoCREATE\<close>, among those the loop is going to
  insert.
\<close>

definition install_hook :: "slot_view \<Rightarrow> hook_object \<Rightarrow> uint256 \<Rightarrow> bool \<Rightarrow> set_state \<Rightarrow> TER + set_state" where
  "install_hook slot hookSetObj newHash pending st =
     (if oldHash slot \<noteq> None \<and> lacks_override hookSetObj then Inl tecREQUIRES_FLAG
      else if (if pending then map_of (slesToInsert st) newHash = None else viewed st newHash = None) then Inl tecNO_ENTRY
      else
        let st = release_definition (oldHash slot) st;
            newDef = incrementReferenceCount (the (if pending then map_of (slesToInsert st) newHash else viewed st newHash));
            st = (if pending then st\<lparr>slesToInsert := omap_put newHash newDef (slesToInsert st)\<rparr>
                  else st\<lparr>viewed := (viewed st)(newHash \<mapsto> newDef)\<rparr>)
        in (case installed_hook newHash newDef hookSetObj of
              Inl ter \<Rightarrow> Inl ter
            | Inr newHook \<Rightarrow>
                let st = push_hook newHook st in
                Inr (st\<lparr>slesToUpdate := insort_insert newHash (slesToUpdate st)\<rparr>)))"

definition create_definition :: "set_tx \<Rightarrow> hook_object \<Rightarrow> bytes \<Rightarrow> uint256 \<Rightarrow> u64 \<Rightarrow> counts \<Rightarrow> hook_definition" where
  "create_definition tx hookSetObj wasmBytes newNamespace newHookOn c =
     \<lparr>defHookOn = newHookOn, defHookNamespace = newNamespace,
      defHookParameters = (case sfHookParameters hookSetObj of None \<Rightarrow> [] | Some ps \<Rightarrow> ps),
      defHookApiVersion = (case sfHookApiVersion hookSetObj of None \<Rightarrow> 0 | Some v \<Rightarrow> v),
      defCreateCode = wasmBytes, sfHookSetTxnID = tx_id tx, sfReferenceCount = 1,
      sfFee = computeExecutionFee (fst c),
      sfHookCallbackFee = (if 0 < snd c then Some (computeExecutionFee (snd c)) else None),
      defFlags = (case sfFlags hookSetObj of None \<Rightarrow> 0 | Some f \<Rightarrow> strip_flags f)\<rparr>"

text \<open>A \<^verbatim>\<open>true\<close> from the validation of a new hook fails an assertion.\<close>

definition create_hook :: "set_env \<Rightarrow> set_tx \<Rightarrow> slot_view \<Rightarrow> hook_object \<Rightarrow> set_state \<Rightarrow> (TER + set_state) outcome option" where
  "create_hook env tx slot hookSetObj st =
     (if oldHash slot \<noteq> None \<and> lacks_override hookSetObj then Some (Ok (Inl tecREQUIRES_FLAG))
      else
        let wasmBytes = vl (sfCreateCode hookSetObj) in
        if maxHookWasmSize < length wasmBytes then Some (Ok (Inl tecINTERNAL))
        else
          let createHookHash = sha512Half env wasmBytes in
          if viewed st createHookHash \<noteq> None then Some (Ok (install_hook slot hookSetObj createHookHash False st))
          else if map_of (slesToInsert st) createHookHash \<noteq> None then Some (Ok (install_hook slot hookSetObj createHookHash True st))
          else (case validateHookSetEntry env (tx_account tx) hookSetObj of
              None \<Rightarrow> None
            | Some (Ok (Valid False)) \<Rightarrow> Some (Ok (Inl tecINTERNAL))
            | Some (Throw _) \<Rightarrow> Some (Ok (Inl tecINTERNAL))
            | Some (Ok (Valid_Counts c)) \<Rightarrow>
                (case (sfHookNamespace hookSetObj, sfHookOn hookSetObj) of
                   (Some newNamespace, Some newHookOn) \<Rightarrow>
                     let st = release_definition (oldHash slot) st;
                         newHookDef = create_definition tx hookSetObj wasmBytes newNamespace newHookOn c;
                         newHook = set_grants hookSetObj (blank_hook\<lparr>sfHookHash := Some createHookHash\<rparr>)
                     in Some (Ok (Inr (push_hook newHook
                          (st\<lparr>slesToInsert := omap_put createHookHash newHookDef (slesToInsert st)\<rparr>))))
                 | _ \<Rightarrow> Some Undef)
            | Some _ \<Rightarrow> Some Undef))"

definition set_op :: "set_env \<Rightarrow> set_tx \<Rightarrow> slot_view \<Rightarrow> HookSetOperation \<Rightarrow> hook_object \<Rightarrow> set_state \<Rightarrow> (TER + set_state) outcome option" where
  "set_op env tx slot op hookSetObj st =
     (case op of
        hsoNSDELETE \<Rightarrow> Some (Ok (Inr (push_hook (case oldHook slot of None \<Rightarrow> blank_hook | Some h \<Rightarrow> h) st)))
      | hsoNOOP \<Rightarrow> Some (Ok (Inr (push_hook (case oldHook slot of None \<Rightarrow> blank_hook | Some h \<Rightarrow> h) st)))
      | hsoDELETE \<Rightarrow> Some (Ok (delete_hook slot hookSetObj st))
      | hsoUPDATE \<Rightarrow> Some (Ok (update_hook slot hookSetObj st))
      | hsoCREATE \<Rightarrow> create_hook env tx slot hookSetObj st
      | hsoINSTALL \<Rightarrow> Some (Ok (install_hook slot hookSetObj (the (sfHookHash hookSetObj)) False st))
      | hsoINVALID \<Rightarrow> Some (Ok (Inl tecCLAIM)))"

text \<open>A slot with a hook whose namespace is nowhere to be found reads an empty optional.\<close>

definition set_slot :: "set_env \<Rightarrow> set_tx \<Rightarrow> hook_object option \<Rightarrow> hook_object option \<Rightarrow> set_state \<Rightarrow> (TER + set_state) outcome option" where
  "set_slot env tx old hookSet st =
     (let slot = slot_of st old;
          hookSetObj = (case hookSet of None \<Rightarrow> blank_hook | Some s \<Rightarrow> s);
          op = (case hookSet of None \<Rightarrow> hsoNOOP | Some s \<Rightarrow> inferOperation s)
      in if oldHash slot \<noteq> None \<and> oldNamespace slot = None then Some Undef
         else set_op env tx slot op hookSetObj (mark_namespace slot op hookSetObj st))"

definition slot_at :: "'a list \<Rightarrow> nat \<Rightarrow> 'a option" where
  "slot_at xs i = (if i < length xs then Some (xs ! i) else None)"

fun set_loop :: "set_env \<Rightarrow> set_tx \<Rightarrow> hook_object list \<Rightarrow> hook_object list \<Rightarrow> nat list \<Rightarrow> set_state \<Rightarrow> (TER + set_state) outcome option" where
  "set_loop env tx oldHooks hookSets [] st = Some (Ok (Inr st))"
| "set_loop env tx oldHooks hookSets (i # is) st =
     (case set_slot env tx (slot_at oldHooks i) (slot_at hookSets i) st of
        None \<Rightarrow> None
      | Some (Ok (Inl ter)) \<Rightarrow> Some (Ok (Inl ter))
      | Some (Ok (Inr st)) \<Rightarrow> set_loop env tx oldHooks hookSets is st
      | Some (Reject e) \<Rightarrow> Some (Reject e)
      | Some (Throw x) \<Rightarrow> Some (Throw x)
      | Some Undef \<Rightarrow> Some Undef)"

section \<open>The reserve\<close>

definition computeHookReserve :: "hook_object \<Rightarrow> int" where
  "computeHookReserve hookObj =
     (if sfHookHash hookObj = None then 0
      else 1 + (case sfHookParameters hookObj of None \<Rightarrow> 0 | Some ps \<Rightarrow> int (length ps))
        + (case sfHookGrants hookObj of None \<Rightarrow> 0 | Some gs \<Rightarrow> int (length gs)))"

text \<open>The reserve of the first four slots.\<close>

definition hooks_reserve :: "hook_object list \<Rightarrow> int" where
  "hooks_reserve hs = sum_list (map computeHookReserve (take 4 hs))"

section \<open>Enacting the changes\<close>

definition insert_definitions :: "set_state \<Rightarrow> ledger \<Rightarrow> ledger" where
  "insert_definitions st L = L\<lparr>definitions := (definitions L) ++ map_of (slesToInsert st)\<rparr>"

text \<open>An object that was inserted and is also to be updated is the same object.\<close>

definition update_definitions :: "set_state \<Rightarrow> ledger \<Rightarrow> ledger" where
  "update_definitions st L =
     L\<lparr>definitions := (\<lambda>h. if h \<in> set (slesToUpdate st) \<and> map_of (slesToInsert st) h = None then viewed st h else definitions L h)\<rparr>"

text \<open>A definition is erased if the view's object for it has no references.\<close>

definition destroy_definitions :: "set_state \<Rightarrow> ledger \<Rightarrow> ledger" where
  "destroy_definitions st L =
     L\<lparr>definitions := (\<lambda>h. if h \<in> set (keyletsToDestroy st) \<and>
         (case viewed st h of None \<Rightarrow> False | Some d \<Rightarrow> sfReferenceCount d \<le> 0) then None else definitions L h)\<rparr>"

text \<open>The results of the deletions are ignored.\<close>

fun destroy_namespaces :: "account_id \<Rightarrow> uint256 list \<Rightarrow> ledger \<Rightarrow> ledger outcome option" where
  "destroy_namespaces account [] L = Some (Ok L)"
| "destroy_namespaces account (ns # nss) L =
     (case destroyNamespace L account ns of
        None \<Rightarrow> None
      | Some (Ok (_, L)) \<Rightarrow> destroy_namespaces account nss L
      | Some (Reject e) \<Rightarrow> Some (Reject e)
      | Some (Throw x) \<Rightarrow> Some (Throw x)
      | Some Undef \<Rightarrow> Some Undef)"

text \<open>
  The hook array of the account is deleted, replaced or created. The array that replaces the old one
  is a new object, whose owner node is 0 until it is set.
\<close>

definition write_hook_array :: "set_env \<Rightarrow> account_id \<Rightarrow> hook_object list \<Rightarrow> ledger \<Rightarrow> (TER \<times> ledger) outcome" where
  "write_hook_array env account hs L =
     (let newHooksEmpty = (\<not> list_ex (\<lambda>h. sfHookHash h \<noteq> None) hs) in
      case hooks L account of
        Some oldHookSLE \<Rightarrow>
          if newHooksEmpty then
            obind (dirRemove (owner_dirs L account) (hookOwnerNode oldHookSLE) (hook_index env account) False) (\<lambda>(removed, dir).
            if \<not> removed then Ok (tefBAD_LEDGER, L)
            else Ok (tesSUCCESS, L\<lparr>owner_dirs := (owner_dirs L)(account := dir), hooks := (hooks L)(account := None)\<rparr>))
          else Ok (tesSUCCESS, L\<lparr>hooks := (hooks L)(account \<mapsto> \<lparr>sfHooks = hs, hookOwnerNode = 0\<rparr>)\<rparr>)
      | None \<Rightarrow>
          if newHooksEmpty then Ok (tesSUCCESS, L)
          else
            obind (dirInsert (owner_dirs L account) (hook_index env account)) (\<lambda>(page, dir). case page of
              None \<Rightarrow> Ok (tecDIR_FULL, L)
            | Some p \<Rightarrow> Ok (tesSUCCESS, L\<lparr>owner_dirs := (owner_dirs L)(account := dir),
                hooks := (hooks L)(account \<mapsto> \<lparr>sfHooks = hs, hookOwnerNode = p\<rparr>)\<rparr>)))"

definition enact :: "set_env \<Rightarrow> account_id \<Rightarrow> int \<Rightarrow> set_state \<Rightarrow> ledger \<Rightarrow> (TER \<times> ledger) outcome option" where
  "enact env account reserveDelta st L =
     (let L = update_definitions st (insert_definitions st L) in
      case destroy_namespaces account (namespacesToDestroy st) L of
        None \<Rightarrow> None
      | Some r \<Rightarrow>
          Some (obind r (\<lambda>L.
            obind (write_hook_array env account (newHooks st) (destroy_definitions st L)) (\<lambda>(ter, L).
            if ter \<noteq> tesSUCCESS then Ok (ter, L)
            else if reserveDelta \<noteq> 0 then
              (case accounts L account of
                 None \<Rightarrow> Undef
               | Some accountSLE \<Rightarrow>
                   Ok (tesSUCCESS, L\<lparr>accounts := (accounts L)(account \<mapsto> adjustOwnerCount accountSLE reserveDelta)\<rparr>))
            else Ok (tesSUCCESS, L)))))"

text \<open>
  Nothing is written before the reserve is known to suffice. \<open>mSourceBalance\<close> is the balance of the
  account after the fee.
\<close>

definition setHook :: "set_env \<Rightarrow> fees \<Rightarrow> int \<Rightarrow> set_tx \<Rightarrow> ledger \<Rightarrow> (TER \<times> ledger) outcome option" where
  "setHook env f mSourceBalance tx L =
     (let account = tx_account tx;
          oldHooks = (case hooks L account of None \<Rightarrow> [] | Some sle \<Rightarrow> sfHooks sle);
          hookSets = (case tx_hooks tx of None \<Rightarrow> [] | Some hs \<Rightarrow> hs);
          init = \<lparr>newHooks = [], viewed = definitions L, slesToInsert = [], slesToUpdate = [], keyletsToDestroy = [],
            namespacesToDestroy = []\<rparr>
      in case set_loop env tx oldHooks hookSets [0..<max (length oldHooks) (length hookSets)] init of
           None \<Rightarrow> None
         | Some (Reject e) \<Rightarrow> Some (Reject e)
         | Some (Throw x) \<Rightarrow> Some (Throw x)
         | Some Undef \<Rightarrow> Some Undef
         | Some (Ok (Inl ter)) \<Rightarrow> Some (Ok (ter, L))
         | Some (Ok (Inr st)) \<Rightarrow>
             (case accounts L account of
                None \<Rightarrow> Some Undef
              | Some accountSLE \<Rightarrow>
                  let reserveDelta = hooks_reserve (newHooks st) - hooks_reserve oldHooks;
                      newOwnerCount = uint (sfOwnerCount accountSLE) + reserveDelta
                  in if newOwnerCount < 0 \<or> 0xFFFFFFFF < newOwnerCount then Some (Ok (tefINTERNAL, L))
                     else if mSourceBalance < accountReserve f (word_of_int newOwnerCount) then Some (Ok (tecINSUFFICIENT_RESERVE, L))
                     else enact env account reserveDelta st L))"

end
