(* ===== verification/Set_Hook_Refs.thy ===== *)
theory Set_Hook_Refs
  imports Set_Hook_Apply
begin

text \<open>
  The reference counts of hook definitions: a definition counts the slots of all accounts that refer
  to it, it disappears with the last of them, and no slot refers to a definition that is not there.
\<close>

section \<open>The invariant of the ledger\<close>

definition hash_count :: "hook_object list \<Rightarrow> uint256 \<Rightarrow> nat" where
  "hash_count hs h = count_list (map sfHookHash hs) (Some h)"

definition hooks_of :: "ledger \<Rightarrow> account_id \<Rightarrow> hook_object list" where
  "hooks_of L acc = (case hooks L acc of None \<Rightarrow> [] | Some sle \<Rightarrow> sfHooks sle)"

definition refs :: "ledger \<Rightarrow> uint256 \<Rightarrow> nat" where
  "refs L h = (\<Sum>acc \<in> dom (hooks L). hash_count (hooks_of L acc) h)"

definition references_ok :: "ledger \<Rightarrow> bool" where
  "references_ok L \<longleftrightarrow>
     finite (dom (hooks L)) \<and>
     (\<forall>h. case definitions L h of None \<Rightarrow> refs L h = 0 | Some d \<Rightarrow> sfReferenceCount d = refs L h \<and> 0 < refs L h)"

lemma hash_count_simps [simp]:
  "hash_count [] h = 0" "hash_count (xs @ ys) h = hash_count xs h + hash_count ys h"
  "hash_count [x] h = of_bool (sfHookHash x = Some h)"
  by (simp_all add: hash_count_def)

lemma refs_split:
  assumes "finite (dom (hooks L))"
  shows "refs L h = hash_count (hooks_of L acc) h + (\<Sum>a \<in> dom (hooks L) - {acc}. hash_count (hooks_of L a) h)"
proof (cases "acc \<in> dom (hooks L)")
  case True
  then show ?thesis
    using assms by (simp add: refs_def sum.remove)
next
  case False
  then have "hooks_of L acc = []"
    by (simp add: hooks_of_def domIff)
  with False show ?thesis
    by (simp add: refs_def)
qed

text \<open>Replacing the array of one account moves the counts by the difference.\<close>

lemma refs_replace:
  assumes fin: "finite (dom (hooks L))" and same: "\<And>a. a \<noteq> acc \<Longrightarrow> hooks L' a = hooks L a"
  shows "refs L' h + hash_count (hooks_of L acc) h = refs L h + hash_count (hooks_of L' acc) h" "finite (dom (hooks L'))"
proof -
  have "dom (hooks L') \<subseteq> insert acc (dom (hooks L))"
    using same by force
  then show fin': "finite (dom (hooks L'))"
    using fin finite_subset by blast
  have "dom (hooks L') - {acc} = dom (hooks L) - {acc}"
    using same by force
  moreover have "hooks_of L' a = hooks_of L a" if "a \<noteq> acc" for a
    using same [OF that] by (simp add: hooks_of_def)
  ultimately have "(\<Sum>a \<in> dom (hooks L') - {acc}. hash_count (hooks_of L' a) h) = (\<Sum>a \<in> dom (hooks L) - {acc}. hash_count (hooks_of L a) h)"
    by (intro sum.cong) auto
  then show "refs L' h + hash_count (hooks_of L acc) h = refs L h + hash_count (hooks_of L' acc) h"
    using refs_split [OF fin, of h acc] refs_split [OF fin', of h acc] by simp
qed

section \<open>The invariant of the loop\<close>

text \<open>The count of a definition as the loop sees it.\<close>

definition counted :: "set_state \<Rightarrow> uint256 \<Rightarrow> nat" where
  "counted st h =
     (case viewed st h of
        Some d \<Rightarrow> sfReferenceCount d
      | None \<Rightarrow> (case map_of (slesToInsert st) h of Some d \<Rightarrow> sfReferenceCount d | None \<Rightarrow> 0))"

text \<open>Every change is noted for the time the changes are enacted.\<close>

definition noted :: "ledger \<Rightarrow> set_state \<Rightarrow> bool" where
  "noted L st \<longleftrightarrow>
     dom (viewed st) = dom (definitions L) \<and>
     (\<forall>h d. map_of (slesToInsert st) h = Some d \<longrightarrow> definitions L h = None \<and> 0 < sfReferenceCount d) \<and>
     (\<forall>h. viewed st h \<noteq> definitions L h \<longrightarrow> h \<in> set (slesToUpdate st) \<or> (h \<in> set (keyletsToDestroy st) \<and> counted st h = 0)) \<and>
     (\<forall>h. definitions L h \<noteq> None \<longrightarrow> counted st h = 0 \<longrightarrow> h \<in> set (keyletsToDestroy st)) \<and>
     set (keyletsToDestroy st) \<subseteq> dom (definitions L)"

lemma notedD:
  assumes "noted L st"
  shows "dom (viewed st) = dom (definitions L)" "map_of (slesToInsert st) h = Some d \<Longrightarrow> definitions L h = None"
    "map_of (slesToInsert st) h = Some d \<Longrightarrow> 0 < sfReferenceCount d"
    "viewed st h \<noteq> definitions L h \<Longrightarrow> h \<in> set (slesToUpdate st) \<or> (h \<in> set (keyletsToDestroy st) \<and> counted st h = 0)"
    "definitions L h \<noteq> None \<Longrightarrow> counted st h = 0 \<Longrightarrow> h \<in> set (keyletsToDestroy st)"
    "h \<in> set (keyletsToDestroy st) \<Longrightarrow> definitions L h \<noteq> None"
  using assms unfolding noted_def by auto

lemma noted_pending: "noted L st \<Longrightarrow> map_of (slesToInsert st) h = Some d \<Longrightarrow> viewed st h = None \<and> definitions L h = None"
  unfolding noted_def by (metis domIff)

lemma release_definition_none [simp]: "release_definition None st = st"
  by (simp add: release_definition_def)

lemma release_noted:
  assumes n: "noted L st" and pos: "0 < counted st h" and v: "viewed st h \<noteq> None"
  shows "noted L (release_definition (Some h) st)" "counted (release_definition (Some h) st) = (counted st)(h := counted st h - 1)"
    "newHooks (release_definition (Some h) st) = newHooks st" "slesToInsert (release_definition (Some h) st) = slesToInsert st"
    "dom (viewed (release_definition (Some h) st)) = dom (viewed st)"
proof -
  obtain d where d: "viewed st h = Some d" "0 < sfReferenceCount d"
    using v pos by (auto simp: counted_def)
  define d' where "d' = d\<lparr>sfReferenceCount := sfReferenceCount d - 1\<rparr>"
  have eq: "release_definition (Some h) st =
      (if sfReferenceCount d' = 0
       then st\<lparr>viewed := (viewed st)(h \<mapsto> d'), keyletsToDestroy := insort_insert h (keyletsToDestroy st)\<rparr>
       else st\<lparr>viewed := (viewed st)(h \<mapsto> d'), slesToUpdate := insort_insert h (slesToUpdate st)\<rparr>)"
    using d by (simp add: release_definition_def reduceReferenceCount_def Let_def d'_def)
  show "newHooks (release_definition (Some h) st) = newHooks st" "slesToInsert (release_definition (Some h) st) = slesToInsert st"
    by (simp_all add: eq)
  show "dom (viewed (release_definition (Some h) st)) = dom (viewed st)"
    using d by (auto simp: eq)
  show c: "counted (release_definition (Some h) st) = (counted st)(h := counted st h - 1)"
    using d by (auto simp: eq counted_def d'_def fun_eq_iff split: option.split)
  have "definitions L h \<noteq> None"
    using n d(1) by (auto simp: noted_def)
  moreover have "viewed (release_definition (Some h) st) = (viewed st)(h \<mapsto> d')"
    by (simp add: eq)
  moreover have "set (slesToUpdate (release_definition (Some h) st)) = (if sfReferenceCount d' = 0 then set (slesToUpdate st) else insert h (set (slesToUpdate st)))"
    "set (keyletsToDestroy (release_definition (Some h) st)) = (if sfReferenceCount d' = 0 then insert h (set (keyletsToDestroy st)) else set (keyletsToDestroy st))"
    by (simp_all add: eq set_insort_insert)
  moreover have "counted st h - 1 = sfReferenceCount d'"
    using d by (simp add: counted_def d'_def)
  ultimately show "noted L (release_definition (Some h) st)"
    using n d(1) unfolding noted_def c \<open>slesToInsert (release_definition (Some h) st) = slesToInsert st\<close> by auto
qed

text \<open>A slot gives up the reference of its old hook and takes that of its new one.\<close>

definition slot_step :: "ledger \<Rightarrow> uint256 option \<Rightarrow> set_state \<Rightarrow> set_state \<Rightarrow> bool" where
  "slot_step L old st st' \<longleftrightarrow>
     noted L st' \<and> (\<exists>nh. newHooks st' = newHooks st @ [nh] \<and>
       (\<forall>h. counted st' h + of_bool (old = Some h) = counted st h + of_bool (sfHookHash nh = Some h)))"

text \<open>What a slot may rely on.\<close>

definition slot_ready :: "ledger \<Rightarrow> uint256 option \<Rightarrow> set_state \<Rightarrow> bool" where
  "slot_ready L old st \<longleftrightarrow> noted L st \<and> (\<forall>h. old = Some h \<longrightarrow> 0 < counted st h \<and> viewed st h \<noteq> None)"

lemma counted_cong: "viewed st' = viewed st \<Longrightarrow> slesToInsert st' = slesToInsert st \<Longrightarrow> counted st' = counted st"
  by (rule ext) (simp add: counted_def split: option.split)

lemma noted_cong:
  assumes "viewed st' = viewed st" and "slesToInsert st' = slesToInsert st" and "slesToUpdate st' = slesToUpdate st"
    and "keyletsToDestroy st' = keyletsToDestroy st"
  shows "noted L st' = noted L st"
  using counted_cong [OF assms(1,2)] by (simp add: noted_def assms)

lemma push_hook_simps [simp]:
  "viewed (push_hook x st) = viewed st" "slesToInsert (push_hook x st) = slesToInsert st"
  "slesToUpdate (push_hook x st) = slesToUpdate st" "keyletsToDestroy (push_hook x st) = keyletsToDestroy st"
  "newHooks (push_hook x st) = newHooks st @ [x]"
  by (simp_all add: push_hook_def)

lemma push_hook_counts [simp]:
  "counted (push_hook x st) = counted st" "noted L (push_hook x st) = noted L st"
  by (rule counted_cong noted_cong; simp)+

lemma mark_namespace_fields:
  "viewed (mark_namespace slot op s st) = viewed st" "slesToInsert (mark_namespace slot op s st) = slesToInsert st"
  "slesToUpdate (mark_namespace slot op s st) = slesToUpdate st" "keyletsToDestroy (mark_namespace slot op s st) = keyletsToDestroy st"
  "newHooks (mark_namespace slot op s st) = newHooks st"
  by (auto simp: mark_namespace_def Let_def split: option.split)

lemma mark_namespace_counts [simp]:
  "counted (mark_namespace slot op s st) = counted st" "noted L (mark_namespace slot op s st) = noted L st"
  by (rule counted_cong noted_cong; simp add: mark_namespace_fields)+

lemma mark_namespace_steps [simp]:
  "slot_ready L old (mark_namespace slot op s st) = slot_ready L old st"
  "slot_step L old (mark_namespace slot op s st) st' = slot_step L old st st'"
  by (simp_all add: slot_ready_def slot_step_def mark_namespace_fields)

lemma updateHookParameters_keeps:
  "updateHookParameters s d ps h = Inr h' \<Longrightarrow> sfHookHash h' = sfHookHash h"
  by (auto simp: updateHookParameters_def Let_def split: prod.splits if_splits)

lemma set_grants_hash [simp]: "sfHookHash (set_grants s h) = sfHookHash h"
  by (simp add: set_grants_def split: option.split)

lemma hash_case [simp]:
  "sfHookHash (case x of None \<Rightarrow> a | Some n \<Rightarrow> b n) = (case x of None \<Rightarrow> sfHookHash a | Some n \<Rightarrow> sfHookHash (b n))"
  "sfHookHash (if c then a else a') = (if c then sfHookHash a else sfHookHash a')"
  by (simp_all split: option.split)

lemma case_same [simp]: "(case x of None \<Rightarrow> a | Some n \<Rightarrow> a) = a"
  by (simp split: option.split)

lemma updated_hook_hash: "updated_hook d old s = Inr h \<Longrightarrow> sfHookHash h = sfHookHash old"
  unfolding updated_hook_def Let_def by (auto dest!: updateHookParameters_keeps cong: option.case_cong split: sum.splits if_splits)

lemma installed_hook_hash: "installed_hook k d s = Inr h \<Longrightarrow> sfHookHash h = Some k"
  unfolding installed_hook_def Let_def by (auto dest!: updateHookParameters_keeps cong: option.case_cong if_cong split: sum.splits)

lemma release_ready:
  assumes "slot_ready L old st"
  shows "noted L (release_definition old st)"
    "counted (release_definition old st) h + of_bool (old = Some h) = counted st h"
    "newHooks (release_definition old st) = newHooks st" "slesToInsert (release_definition old st) = slesToInsert st"
    "dom (viewed (release_definition old st)) = dom (viewed st)"
proof -
  have "noted L (release_definition old st) \<and> counted (release_definition old st) h + of_bool (old = Some h) = counted st h \<and>
    newHooks (release_definition old st) = newHooks st \<and> slesToInsert (release_definition old st) = slesToInsert st \<and>
    dom (viewed (release_definition old st)) = dom (viewed st)"
  proof (cases old)
    case None
    then show ?thesis
      using assms by (simp add: slot_ready_def)
  next
    case (Some k)
    then have "noted L st" "0 < counted st k" "viewed st k \<noteq> None"
      using assms by (simp_all add: slot_ready_def)
    then show ?thesis
      using release_noted [of L st k] Some by auto
  qed
  then show "noted L (release_definition old st)" "counted (release_definition old st) h + of_bool (old = Some h) = counted st h"
    "newHooks (release_definition old st) = newHooks st" "slesToInsert (release_definition old st) = slesToInsert st"
    "dom (viewed (release_definition old st)) = dom (viewed st)"
    by blast+
qed

text \<open>Taking a reference to a definition in the ledger, and to one that is to be inserted.\<close>

lemma take_on_ledger:
  assumes n: "noted L st" and d: "viewed st h = Some d"
  defines "st' \<equiv> st\<lparr>viewed := (viewed st)(h \<mapsto> incrementReferenceCount d), slesToUpdate := insort_insert h (slesToUpdate st)\<rparr>"
  shows "noted L st'" "counted st' k = counted st k + of_bool (k = h)"
proof -
  show c: "counted st' k = counted st k + of_bool (k = h)" for k
    using d by (simp add: counted_def st'_def incrementReferenceCount_def split: option.split)
  have *: "viewed st' = (viewed st)(h \<mapsto> incrementReferenceCount d)" "slesToInsert st' = slesToInsert st"
    "set (slesToUpdate st') = insert h (set (slesToUpdate st))" "keyletsToDestroy st' = keyletsToDestroy st"
    by (simp_all add: st'_def set_insort_insert)
  show "noted L st'"
    using n d unfolding noted_def * c by auto
qed

lemma take_pending:
  assumes n: "noted L st" and d: "map_of (slesToInsert st) h = None \<Longrightarrow> definitions L h = None"
    and r: "sfReferenceCount d = counted st h + 1"
    and st': "viewed st' = viewed st" "slesToInsert st' = omap_put h d (slesToInsert st)" "set (slesToUpdate st) \<subseteq> set (slesToUpdate st')"
      "keyletsToDestroy st' = keyletsToDestroy st"
  shows "noted L st'" "counted st' k = counted st k + of_bool (k = h)"
proof -
  have none: "definitions L h = None" "viewed st h = None"
    using n d unfolding noted_def by (auto simp: domIff) (metis domIff option.exhaust)+
  show c: "counted st' k = counted st k + of_bool (k = h)" for k
    using r none by (simp add: counted_def st' omap_lookup_put split: option.split)
  show "noted L st'"
    using n none r st'(3) unfolding noted_def st'(1,2,4) c by (auto simp: omap_lookup_put)
qed

lemma slot_ready_push [simp]: "slot_ready L old (push_hook x st) = slot_ready L old st"
  by (simp add: slot_ready_def)

lemma keep_step: "noted L st \<Longrightarrow> sfHookHash x = old \<Longrightarrow> slot_step L old st (push_hook x st)"
  by (auto simp: slot_step_def)

lemma delete_step:
  assumes "slot_ready L (oldHash slot) st" and "delete_hook slot s st = Inr st'"
    and "oldHash slot = Option.bind (oldHook slot) sfHookHash"
  shows "slot_step L (oldHash slot) st st'"
proof -
  have "st' = release_definition (oldHash slot) (push_hook blank_hook st)"
    using assms(2,3) by (auto simp: delete_hook_def Let_def split: if_splits)
  then show ?thesis
    using release_ready [of L "oldHash slot" "push_hook blank_hook st"] assms(1)
    by (simp add: slot_step_def blank_hook_def)
qed

lemma update_step:
  assumes "slot_ready L (oldHash slot) st" and "update_hook slot s st = Inr st'"
    and "oldHash slot = Option.bind (oldHook slot) sfHookHash"
  shows "slot_step L (oldHash slot) st st'"
proof -
  obtain x where "st' = push_hook x st" "sfHookHash x = oldHash slot"
    using assms(2,3) by (auto simp: update_hook_def dest: updated_hook_hash split: option.splits sum.splits)
  then show ?thesis
    using assms(1) keep_step by (simp add: slot_ready_def)
qed

lemma install_step:
  assumes ready: "slot_ready L (oldHash slot) st" and run: "install_hook slot s h pending st = Inr st'"
  shows "slot_step L (oldHash slot) st st'"
proof -
  define st1 where "st1 = release_definition (oldHash slot) st"
  note rel = release_ready [OF ready, folded st1_def]
  obtain x d where d: "(if pending then map_of (slesToInsert st1) h else viewed st1 h) = Some d" and x: "sfHookHash x = Some h"
    and st': "st' = (push_hook x (if pending then st1\<lparr>slesToInsert := omap_put h (incrementReferenceCount d) (slesToInsert st1)\<rparr>
        else st1\<lparr>viewed := (viewed st1)(h \<mapsto> incrementReferenceCount d)\<rparr>))\<lparr>slesToUpdate := insort_insert h (slesToUpdate st1)\<rparr>"
  proof -
    have found: "\<exists>d. (if pending then map_of (slesToInsert st1) h else viewed st1 h) = Some d"
      using run rel(4,5) by (auto simp: install_hook_def domIff split: if_splits)
    then obtain d where d: "(if pending then map_of (slesToInsert st1) h else viewed st1 h) = Some d"
      by blast
    define st2 where "st2 = (if pending then st1\<lparr>slesToInsert := omap_put h (incrementReferenceCount d) (slesToInsert st1)\<rparr>
        else st1\<lparr>viewed := (viewed st1)(h \<mapsto> incrementReferenceCount d)\<rparr>)"
    have "\<exists>x. sfHookHash x = Some h \<and> st' = (push_hook x st2)\<lparr>slesToUpdate := insort_insert h (slesToUpdate (push_hook x st2))\<rparr>"
      using run unfolding install_hook_def Let_def st1_def [symmetric] d option.sel st2_def [symmetric]
      by (auto dest: installed_hook_hash split: if_splits sum.splits)
    moreover have "slesToUpdate (push_hook x st2) = slesToUpdate st1" for x
      by (simp add: st2_def)
    ultimately show ?thesis
      using d that unfolding st2_def by metis
  qed
  have eff: "noted L st' \<and> (\<forall>k. counted st' k = counted st1 k + of_bool (k = h))"
  proof (cases pending)
    case True
    have "viewed st1 h = None"
      using noted_pending [OF rel(1)] d True by simp
    with d True have "sfReferenceCount (incrementReferenceCount d) = counted st1 h + 1"
      by (simp add: counted_def incrementReferenceCount_def)
    then show ?thesis
      using take_pending [OF rel(1), of h "incrementReferenceCount d" st'] d True by (simp add: st' set_insort_insert push_hook_def subset_insertI)
  next
    case False
    let ?st = "st1\<lparr>viewed := (viewed st1)(h \<mapsto> incrementReferenceCount d), slesToUpdate := insort_insert h (slesToUpdate st1)\<rparr>"
    have "noted L st' = noted L ?st" "counted st' = counted ?st"
      by (rule noted_cong counted_cong; simp add: st' False push_hook_def)+
    then show ?thesis
      using take_on_ledger [OF rel(1)] d False by simp
  qed
  moreover have "newHooks st' = newHooks st @ [x]"
    by (simp add: st' push_hook_def rel(3))
  ultimately show ?thesis
    using rel(2) x unfolding slot_step_def by (intro conjI exI [of _ x]) (auto simp: eq_commute [of h])
qed

lemma create_step:
  assumes ready: "slot_ready L (oldHash slot) st" and run: "create_hook env tx slot s st = Some (Ok (Inr st'))"
  shows "slot_step L (oldHash slot) st st'"
proof -
  define h where "h = sha512Half env (vl (sfCreateCode s))"
  show ?thesis
  proof (cases "viewed st h \<noteq> None \<or> map_of (slesToInsert st) h \<noteq> None")
    case True
    then obtain pending where "install_hook slot s h pending st = Inr st'"
      using run by (auto simp: create_hook_def Let_def h_def [symmetric] split: if_splits)
    then show ?thesis
      by (rule install_step [OF ready])
  next
    case False
    define st1 where "st1 = release_definition (oldHash slot) st"
    note rel = release_ready [OF ready, folded st1_def]
    obtain ns on c where new: "sfHookNamespace s = Some ns" "sfHookOn s = Some on"
      and st': "st' = push_hook (set_grants s (blank_hook\<lparr>sfHookHash := Some h\<rparr>))
          (st1\<lparr>slesToInsert := omap_put h (create_definition tx s (vl (sfCreateCode s)) ns on c) (slesToInsert st1)\<rparr>)"
      using run False unfolding create_hook_def Let_def h_def [symmetric] st1_def [symmetric]
      by (auto split: if_splits option.splits outcome.splits HookSetValidation.splits bool.splits)
    have none: "viewed st1 h = None" "map_of (slesToInsert st1) h = None"
      using False rel(4,5) by auto
    have "definitions L h = None"
      using rel(1) none(1) unfolding noted_def by (metis domIff)
    moreover have "sfReferenceCount (create_definition tx s (vl (sfCreateCode s)) ns on c) = counted st1 h + 1"
      using none by (simp add: create_definition_def counted_def)
    ultimately have "noted L st'" "\<And>k. counted st' k = counted st1 k + of_bool (k = h)"
      using take_pending [OF rel(1), of h "create_definition tx s (vl (sfCreateCode s)) ns on c" st'] by (simp_all add: st')
    moreover have "newHooks st' = newHooks st @ [set_grants s (blank_hook\<lparr>sfHookHash := Some h\<rparr>)]"
      by (simp add: st' rel(3))
    ultimately show ?thesis
      using rel(2) unfolding slot_step_def by (auto simp: eq_commute [of h])
  qed
qed

lemma set_op_step:
  assumes ready: "slot_ready L (oldHash slot) st" and "set_op env tx slot op s st = Some (Ok (Inr st'))"
    and slot: "oldHash slot = Option.bind (oldHook slot) sfHookHash"
  shows "slot_step L (oldHash slot) st st'"
proof -
  have n: "noted L st"
    using ready by (simp add: slot_ready_def)
  have keep: "slot_step L (oldHash slot) st (push_hook (case oldHook slot of None \<Rightarrow> blank_hook | Some h \<Rightarrow> h) st)"
    using slot by (intro keep_step [OF n]) (simp add: blank_hook_def split: option.split)
  show ?thesis
    using assms(2) keep by (cases op) (auto simp: set_op_def intro: delete_step [OF ready _ slot] update_step [OF ready _ slot]
        install_step [OF ready] create_step [OF ready])
qed

lemma set_slot_step:
  assumes "slot_ready L (Option.bind old sfHookHash) st" and "set_slot env tx old hs st = Some (Ok (Inr st'))"
  shows "slot_step L (Option.bind old sfHookHash) st st'"
proof -
  define slot where "slot = slot_of st old"
  have slot: "oldHash slot = Option.bind old sfHookHash" "oldHook slot = old"
    by (simp_all add: slot_def slot_of_def Let_def)
  obtain op s where "set_op env tx slot op s (mark_namespace slot op s st) = Some (Ok (Inr st'))"
    using assms(2) unfolding set_slot_def Let_def slot_def [symmetric] by (auto split: if_splits)
  then show ?thesis
    using set_op_step [of L slot "mark_namespace slot op s st"] assms(1) by (simp add: slot)
qed

text \<open>After the first \<open>i\<close> slots.\<close>

definition loop_inv :: "ledger \<Rightarrow> hook_object list \<Rightarrow> nat \<Rightarrow> set_state \<Rightarrow> bool" where
  "loop_inv L old i st \<longleftrightarrow>
     noted L st \<and> (\<forall>h. counted st h + hash_count (take i old) h = refs L h + hash_count (newHooks st) h)"

lemma slot_at_count: "hash_count (take (Suc i) old) h = hash_count (take i old) h + of_bool (Option.bind (slot_at old i) sfHookHash = Some h)"
  by (simp add: slot_at_def take_Suc_conv_app_nth)

lemma set_loop_inv:
  assumes "set_loop env tx old hs [i..<n] st = Some (Ok (Inr st'))" and "loop_inv L old i st" and "i \<le> n"
    and refs: "\<And>h. hash_count old h \<le> refs L h" and defs: "\<And>h. 0 < refs L h \<Longrightarrow> definitions L h \<noteq> None"
  shows "loop_inv L old n st'"
  using assms(1-3)
proof (induction "n - i" arbitrary: i st)
  case (Suc m)
  have more: "[i..<n] = i # [Suc i..<n]"
    using Suc by (simp add: upt_conv_Cons)
  let ?old = "Option.bind (slot_at old i) sfHookHash"
  note inv = Suc.prems(2) [unfolded loop_inv_def]
  have "0 < counted st h \<and> viewed st h \<noteq> None" if "?old = Some h" for h
  proof -
    have "old = take (Suc i) old @ drop (Suc i) old"
      by simp
    then have "hash_count (take (Suc i) old) h \<le> hash_count old h"
      by (metis hash_count_simps(2) le_add1)
    then have le: "hash_count (take i old) h < refs L h"
      using refs [of h] that by (simp add: slot_at_count)
    then have "0 < counted st h"
      using conjunct2 [OF inv, rule_format, of h] by linarith
    moreover have "viewed st h \<noteq> None"
      using inv defs [of h] le unfolding noted_def by (metis domIff gr0I not_less0)
    ultimately show ?thesis
      by blast
  qed
  then have ready: "slot_ready L ?old st"
    using inv by (simp add: slot_ready_def)
  obtain st1 where st1: "set_slot env tx (slot_at old i) (slot_at hs i) st = Some (Ok (Inr st1))"
    and rest: "set_loop env tx old hs [Suc i..<n] st1 = Some (Ok (Inr st'))"
    using Suc.prems(1) by (auto simp: more split: option.splits outcome.splits sum.splits)
  obtain nh where nh: "noted L st1" "newHooks st1 = newHooks st @ [nh]"
      "\<And>h. counted st1 h + of_bool (?old = Some h) = counted st h + of_bool (sfHookHash nh = Some h)"
    using set_slot_step [OF ready st1] by (auto simp: slot_step_def)
  have "counted st1 h + hash_count (take (Suc i) old) h = refs L h + hash_count (newHooks st1) h" for h
    using nh(3) [of h] conjunct2 [OF inv, rule_format, of h] unfolding slot_at_count nh(2) hash_count_simps by linarith
  then have "loop_inv L old (Suc i) st1"
    using nh(1) by (simp add: loop_inv_def)
  then show ?case
    using Suc.hyps(1) [of "Suc i" st1] Suc.hyps(2) rest by simp
qed simp

section \<open>Enacting\<close>

lemma loop_start:
  assumes "references_ok L"
  shows "loop_inv L old 0 \<lparr>newHooks = [], viewed = definitions L, slesToInsert = [], slesToUpdate = [], keyletsToDestroy = [],
    namespacesToDestroy = []\<rparr>" (is "loop_inv L old 0 ?st")
proof -
  have *: "case definitions L h of None \<Rightarrow> refs L h = 0 | Some d \<Rightarrow> sfReferenceCount d = refs L h \<and> 0 < refs L h" for h
    using assms by (simp add: references_ok_def)
  have c: "counted ?st h = refs L h" for h
    using * [of h] by (simp add: counted_def split: option.splits)
  have "0 < refs L h" if "definitions L h = Some d" for h d
    using * [of h] that by simp
  then show ?thesis
    unfolding loop_inv_def noted_def c by auto
qed

lemma destroyNamespace_frame:
  assumes "destroyNamespace L acc ns = Some (Ok (ter, L'))"
  shows "hooks L' = hooks L" "definitions L' = definitions L" "owner_dirs L' = owner_dirs L"
  using assms unfolding destroyNamespace_def Let_def
  by (auto simp: obind_eq_Ok split: option.splits if_splits)

lemma destroy_namespaces_frame:
  assumes "destroy_namespaces acc nss L = Some (Ok L')"
  shows "hooks L' = hooks L" "definitions L' = definitions L" "owner_dirs L' = owner_dirs L"
proof -
  have "hooks L' = hooks L \<and> definitions L' = definitions L \<and> owner_dirs L' = owner_dirs L"
    using assms
  proof (induction nss arbitrary: L)
    case (Cons ns nss)
    obtain ter L1 where "destroyNamespace L acc ns = Some (Ok (ter, L1))" "destroy_namespaces acc nss L1 = Some (Ok L')"
      using Cons.prems by (auto split: option.splits outcome.splits prod.splits)
    then show ?case
      using Cons.IH [of L1] destroyNamespace_frame [of L acc ns ter L1] by simp
  qed simp
  then show "hooks L' = hooks L" "definitions L' = definitions L" "owner_dirs L' = owner_dirs L"
    by blast+
qed

lemma write_hook_array_hooks:
  assumes "write_hook_array env acc hs L = Ok (tesSUCCESS, L')"
  shows "\<And>a. a \<noteq> acc \<Longrightarrow> hooks L' a = hooks L a" "definitions L' = definitions L" "hash_count (hooks_of L' acc) h = hash_count hs h"
proof -
  have empty: "hash_count hs h = 0" if "\<not> list_ex (\<lambda>h. sfHookHash h \<noteq> None) hs"
    using that by (induction hs) (auto simp: hash_count_def)
  show "hooks L' a = hooks L a" if "a \<noteq> acc" for a
    using assms that by (auto simp: write_hook_array_def Let_def obind_eq_Ok split: option.splits if_splits)
  show "definitions L' = definitions L"
    using assms by (auto simp: write_hook_array_def Let_def obind_eq_Ok split: option.splits if_splits)
  show "hash_count (hooks_of L' acc) h = hash_count hs h"
    using assms empty by (auto simp: write_hook_array_def Let_def obind_eq_Ok hooks_of_def split: option.splits if_splits)
qed

text \<open>The definitions after the changes are those the loop saw, without those that lost all references.\<close>

lemma enacted_definitions:
  assumes "noted L st"
  shows "definitions (destroy_definitions st (update_definitions st (insert_definitions st L))) h =
    (if counted st h = 0 then None else case viewed st h of Some d \<Rightarrow> Some d | None \<Rightarrow> map_of (slesToInsert st) h)"
proof (cases "definitions L h")
  case None
  then have v: "viewed st h = None" "h \<notin> set (keyletsToDestroy st)"
    using notedD(1,6) [OF assms] by blast+
  show ?thesis
  proof (cases "map_of (slesToInsert st) h")
    case None
    then show ?thesis
      using v \<open>definitions L h = None\<close>
      by (simp add: destroy_definitions_def update_definitions_def insert_definitions_def map_add_def)
  next
    case (Some d)
    then have "0 < sfReferenceCount d"
      using notedD(3) [OF assms] by blast
    then show ?thesis
      using v Some by (simp add: destroy_definitions_def update_definitions_def insert_definitions_def map_add_def counted_def)
  qed
next
  case (Some d0)
  then have p: "map_of (slesToInsert st) h = None"
    using notedD(2) [OF assms] by fastforce
  obtain d where d: "viewed st h = Some d"
    using notedD(1) [OF assms] Some by blast
  have "viewed st h = definitions L h \<or> h \<in> set (slesToUpdate st) \<or> counted st h = 0"
    using notedD(4) [OF assms, of h] by auto
  moreover have "counted st h = 0 \<Longrightarrow> h \<in> set (keyletsToDestroy st)"
    using notedD(5) [OF assms, of h] Some by simp
  ultimately show ?thesis
    using p d Some by (auto simp: destroy_definitions_def update_definitions_def insert_definitions_def map_add_def counted_def)
qed

lemma enact_references:
  assumes ok: "references_ok L" and n: "noted L st"
    and counts: "\<And>h. counted st h + hash_count (hooks_of L acc) h = refs L h + hash_count (newHooks st) h"
    and run: "enact env acc delta st L = Some (Ok (tesSUCCESS, L'))"
  shows "references_ok L'"
proof -
  define L1 where "L1 = update_definitions st (insert_definitions st L)"
  obtain L2 L3 where L2: "destroy_namespaces acc (namespacesToDestroy st) L1 = Some (Ok L2)"
    and L3: "write_hook_array env acc (newHooks st) (destroy_definitions st L2) = Ok (tesSUCCESS, L3)"
    and L': "hooks L' = hooks L3" "definitions L' = definitions L3"
    using run unfolding enact_def L1_def [symmetric] Let_def by (auto simp: obind_eq_Ok split: option.splits if_splits)
  note frame = destroy_namespaces_frame [OF L2] and array = write_hook_array_hooks [OF L3]
  have L1: "hooks L1 = hooks L"
    by (simp add: L1_def update_definitions_def insert_definitions_def)
  have hooks: "hooks L' a = hooks L a" if "a \<noteq> acc" for a
    using array(1) [OF that] frame(1) by (simp add: L' L1 destroy_definitions_def)
  have fin: "finite (dom (hooks L))"
    using ok by (simp add: references_ok_def)
  have acc: "hash_count (hooks_of L' acc) h = hash_count (newHooks st) h" for h
    using array(3) [of h] by (simp add: hooks_of_def L')
  have refs: "refs L' h = counted st h" for h
    using refs_replace(1) [OF fin, of acc L' h] hooks counts [of h] unfolding acc by simp
  have "definitions L' h = definitions (destroy_definitions st L1) h" for h
    using array(2) frame(2) by (simp add: L' destroy_definitions_def)
  then have "definitions L' h = (if counted st h = 0 then None else case viewed st h of Some d \<Rightarrow> Some d | None \<Rightarrow> map_of (slesToInsert st) h)" for h
    using enacted_definitions [OF n] by (simp add: L1_def)
  then have "case definitions L' h of None \<Rightarrow> refs L' h = 0 | Some d \<Rightarrow> sfReferenceCount d = refs L' h \<and> 0 < refs L' h" for h
    by (simp add: refs counted_def split: option.split)
  then show ?thesis
    using refs_replace(2) [OF fin, of acc L'] hooks by (simp add: references_ok_def)
qed

text \<open>
  C8: reference counts stay exact. If the count of every hook definition is the number of slots, over
  all accounts, that hold its hash, with no definition unreferenced and no hash without definition,
  then this is so after every successful \<^verbatim>\<open>setHook\<close>, whatever operations its slots ask for: several
  slots with the same hook, a hook overridden by itself, a definition that loses its last reference
  in one slot and is installed again in another.
\<close>

theorem setHook_references:
  assumes "references_ok L" and "setHook env f bal tx L = Some (Ok (tesSUCCESS, L'))"
  shows "references_ok L'"
proof (cases "L' = L")
  case changed: False
  let ?acc = "tx_account tx" and ?hs = "case tx_hooks tx of None \<Rightarrow> [] | Some hs \<Rightarrow> hs"
  let ?n = "max (length (hooks_of L ?acc)) (length ?hs)"
  let ?init = "\<lparr>newHooks = [], viewed = definitions L, slesToInsert = [], slesToUpdate = [], keyletsToDestroy = [],
    namespacesToDestroy = []\<rparr>"
  obtain st delta where loop: "set_loop env tx (hooks_of L ?acc) ?hs [0..<?n] ?init = Some (Ok (Inr st))"
    and run: "enact env ?acc delta st L = Some (Ok (tesSUCCESS, L'))"
    using assms(2) changed unfolding setHook_def Let_def hooks_of_def [symmetric]
    by (auto split: option.splits outcome.splits sum.splits if_splits)
  have fin: "finite (dom (hooks L))"
    using assms(1) by (simp add: references_ok_def)
  have "hash_count (hooks_of L ?acc) h \<le> refs L h" for h
    using refs_split [OF fin, of h ?acc] by simp
  moreover have "definitions L h \<noteq> None" if "0 < refs L h" for h
  proof -
    have "case definitions L h of None \<Rightarrow> refs L h = 0 | Some d \<Rightarrow> sfReferenceCount d = refs L h \<and> 0 < refs L h"
      using assms(1) by (simp add: references_ok_def)
    then show ?thesis
      using that by (cases "definitions L h") simp_all
  qed
  ultimately have "loop_inv L (hooks_of L ?acc) ?n st"
    by (intro set_loop_inv [OF loop loop_start [OF assms(1)]]) simp_all
  then show ?thesis
    using enact_references [OF assms(1) _ _ run] by (simp add: loop_inv_def)
qed (use assms(1) in simp)

text \<open>Account 8 has a hook that account 7 installs too.\<close>

definition shared_def :: hook_definition where
  "shared_def = \<lparr>defHookOn = 0, defHookNamespace = 2, defHookParameters = [], defHookApiVersion = 0, defCreateCode = [1],
     sfHookSetTxnID = 0, sfReferenceCount = 1, sfFee = 0, sfHookCallbackFee = None, defFlags = 0\<rparr>"

definition one_hook :: ledger where
  "one_hook =
     \<lparr>accounts = [7 \<mapsto> \<lparr>sfBalance = 1000, sfOwnerCount = 0, sfHookStateCount = 0, sfHookNamespaces = None\<rparr>],
      hooks = [8 \<mapsto> \<lparr>sfHooks = [blank_hook\<lparr>sfHookHash := Some 9\<rparr>], hookOwnerNode = 0\<rparr>],
      definitions = [9 \<mapsto> shared_def], states = Map.empty,
      state_dirs = (\<lambda>_. Map.empty), owner_dirs = (\<lambda>_. Map.empty)\<rparr>"

definition plain_env :: set_env where
  "plain_env = \<lparr>sha512Half = (\<lambda>b. of_nat (length b)), validateWasm = (\<lambda>_. True), hook_index = (\<lambda>a. ucast a)\<rparr>"

definition install_9 :: set_tx where
  "install_9 = \<lparr>tx_account = 7, tx_id = 100, tx_hooks = Some [blank_hook\<lparr>sfHookHash := Some 9\<rparr>]\<rparr>"

lemma references_one_hook: "references_ok one_hook"
  by (simp add: references_ok_def one_hook_def refs_def hooks_of_def hash_count_def blank_hook_def shared_def_def)

theorem setHook_references_witness:
  "\<exists>L'. setHook plain_env \<lparr>fee_base_drops = 10, reserve = 200, increment = 50\<rparr> 1000 install_9 one_hook = Some (Ok (tesSUCCESS, L')) \<and>
     references_ok L'"
proof -
  have "case setHook plain_env \<lparr>fee_base_drops = 10, reserve = 200, increment = 50\<rparr> 1000 install_9 one_hook of
      Some (Ok (ter, L')) \<Rightarrow> ter = tesSUCCESS | _ \<Rightarrow> False"
    by code_simp
  then obtain L' where "setHook plain_env \<lparr>fee_base_drops = 10, reserve = 200, increment = 50\<rparr> 1000 install_9 one_hook = Some (Ok (tesSUCCESS, L'))"
    by (auto split: option.splits outcome.splits)
  then show ?thesis
    using setHook_references [OF references_one_hook] by blast
qed

end
