(* ===== verification/Set_Hook_Params.thy ===== *)
theory Set_Hook_Params
  imports Set_Hook
begin

text \<open>
  Parameters of hooks. The checks on the arrays of a transaction decide what the limits say, and the
  merge of a transaction's parameters with those of the hook and its definition gives the hook
  exactly the values the transaction asks for.
\<close>

section \<open>Validation\<close>

lemma params_loop_iff:
  "params_loop ps already \<longleftrightarrow>
     (\<forall>p \<in> set ps. sfHookParameterName p \<noteq> None \<and> length (vl (sfHookParameterName p)) \<le> maxHookParameterKeySize \<and>
        length (vl (sfHookParameterValue p)) \<le> maxHookParameterValueSize) \<and>
     distinct (map (\<lambda>p. vl (sfHookParameterName p)) ps) \<and> (\<lambda>p. vl (sfHookParameterName p)) ` set ps \<inter> set already = {}"
proof (induction ps arbitrary: already)
  case (Cons p ps)
  then show ?case
    by (auto simp: vl_def not_less split: option.split)
qed simp

lemma grants_loop_iff:
  "grants_loop acc gs already \<longleftrightarrow>
     (\<forall>g \<in> set gs. sfAuthorize g \<noteq> Some acc) \<and>
     distinct (map (\<lambda>g. (grantHookHash g, sfAuthorize g)) gs) \<and> (\<lambda>g. (grantHookHash g, sfAuthorize g)) ` set gs \<inter> set already = {}"
  by (induction gs arbitrary: already) (auto simp: Let_def)

lemma validateHookParams_iff:
  "validateHookParams ps \<longleftrightarrow>
     length ps \<le> 16 \<and>
     (\<forall>p \<in> set ps. sfHookParameterName p \<noteq> None \<and> length (vl (sfHookParameterName p)) \<le> maxHookParameterKeySize \<and>
        length (vl (sfHookParameterValue p)) \<le> maxHookParameterValueSize) \<and>
     distinct (map (\<lambda>p. vl (sfHookParameterName p)) ps)"
  by (auto simp: validateHookParams_def params_loop_iff)

lemma validateHookGrants_iff:
  "validateHookGrants acc gs \<longleftrightarrow>
     length gs \<le> 8 \<and> (\<forall>g \<in> set gs. sfAuthorize g \<noteq> Some acc) \<and> distinct (map (\<lambda>g. (grantHookHash g, sfAuthorize g)) gs)"
  by (auto simp: validateHookGrants_def grants_loop_iff)

section \<open>The merge\<close>

text \<open>The value an array gives to a name: nothing, an absent value, or a value.\<close>

definition param_of :: "hook_parameter list \<Rightarrow> bytes \<Rightarrow> bytes option option" where
  "param_of ps n = map_of (rev (map (\<lambda>p. (vl (sfHookParameterName p), sfHookParameterValue p)) ps)) n"

text \<open>The value a hook sees; an empty value counts as no parameter.\<close>

definition some_value :: "bytes \<Rightarrow> bytes option" where
  "some_value v = (if v = [] then None else Some v)"

definition default_param :: "hook_definition \<Rightarrow> bytes \<Rightarrow> bytes option" where
  "default_param d n = (case param_of (defHookParameters d) n of None \<Rightarrow> None | Some v \<Rightarrow> some_value (vl v))"

definition effective_param :: "hook_definition \<Rightarrow> hook_parameter list \<Rightarrow> bytes \<Rightarrow> bytes option" where
  "effective_param d ps n =
     (case map_of (gatherHookParameters d (blank_hook\<lparr>sfHookParameters := Some ps\<rparr>) []) n of None \<Rightarrow> None | Some v \<Rightarrow> some_value v)"

definition params_of :: "hook_object \<Rightarrow> hook_parameter list" where
  "params_of h = (case sfHookParameters h of None \<Rightarrow> [] | Some ps \<Rightarrow> ps)"

lemma param_of_vl: "map_of (rev (map (\<lambda>p. (vl (sfHookParameterName p), vl (sfHookParameterValue p))) ps)) n = map_option vl (param_of ps n)"
proof -
  have "rev (map (\<lambda>p. (vl (sfHookParameterName p), vl (sfHookParameterValue p))) ps)
      = map (\<lambda>(k, v). (k, vl v)) (rev (map (\<lambda>p. (vl (sfHookParameterName p), sfHookParameterValue p)) ps))"
    by (simp add: rev_map comp_def)
  then show ?thesis
    by (simp add: param_of_def map_of_map)
qed

lemma effective_param_eq:
  "effective_param d ps n = (case param_of ps n of None \<Rightarrow> default_param d n | Some v \<Rightarrow> some_value (vl v))"
  by (simp add: effective_param_def gatherHookParameters_def omap_lookup_puts param_of_vl default_param_def Let_def
      split: option.split)

lemma param_of_Cons:
  "distinct (map (\<lambda>p. vl (sfHookParameterName p)) (p # ps)) \<Longrightarrow>
     param_of (p # ps) n = (if n = vl (sfHookParameterName p) then Some (sfHookParameterValue p) else param_of ps n)"
proof -
  assume "distinct (map (\<lambda>p. vl (sfHookParameterName p)) (p # ps))"
  then have "map_of (rev (map (\<lambda>p. (vl (sfHookParameterName p), sfHookParameterValue p)) ps)) (vl (sfHookParameterName p)) = None"
    by (auto simp: map_of_eq_None_iff)
  then show ?thesis
    by (auto simp: param_of_def map_add_def split: option.split)
qed

lemma erase_defaults_lookup:
  assumes "erase_defaults ds m bs = (m', bs')" and "omap_ok m" and "distinct (map (\<lambda>p. vl (sfHookParameterName p)) ds)"
  shows "omap_ok m' \<and>
    map_of m' n = (case map_of m n of None \<Rightarrow> None | Some pv \<Rightarrow>
      if \<exists>v. param_of ds n = Some v \<and> (pv = None \<or> pv = Some (vl v)) then None else Some pv) \<and>
    (n \<in> set bs' \<longleftrightarrow> n \<in> set bs \<or> (map_of m n = Some (Some []) \<and> (\<exists>v. param_of ds n = Some v \<and> vl v \<noteq> [])))"
  using assms
proof (induction ds arbitrary: m bs)
  case Nil
  then show ?case
    by (auto simp: param_of_def split: option.split)
next
  case (Cons p ds)
  let ?n = "vl (sfHookParameterName p)"
  have other: "param_of ds ?n = None"
    using Cons.prems(3) by (auto simp: param_of_def map_of_eq_None_iff)
  note step = param_of_Cons [OF Cons.prems(3)]
  have d: "distinct (map (\<lambda>p. vl (sfHookParameterName p)) ds)"
    using Cons.prems(3) by simp
  show ?case
  proof (cases "map_of m ?n")
    case None
    then show ?thesis
      using Cons.IH [of m bs] Cons.prems d other by (auto simp: step split: option.splits)
  next
    case (Some pv)
    consider (reset) "pv = None \<or> pv = Some (vl (sfHookParameterValue p))"
      | (blank) "\<not> (pv = None \<or> pv = Some (vl (sfHookParameterValue p)))" "pv = Some []"
      | (keep) "\<not> (pv = None \<or> pv = Some (vl (sfHookParameterValue p)))" "pv \<noteq> Some []"
      by blast
    then show ?thesis
    proof cases
      case reset
      then show ?thesis
        using Cons.IH [of "omap_del ?n m" bs] Cons.prems d other Some
        by (auto simp: step omap_ok_del omap_lookup_del split: option.splits)
    next
      case blank
      then show ?thesis
        using Cons.IH [of m "?n # bs"] Cons.prems d other Some by (auto simp: step split: option.splits)
    next
      case keep
      then show ?thesis
        using Cons.IH [of m bs] Cons.prems d other Some by (auto simp: step split: option.splits)
    qed
  qed
qed

text \<open>The parameters that remain after the merge, as a map from names.\<close>

lemma updateHookParameters_result:
  assumes "updateHookParameters s (Some d) old h = Inr h'" and "sfHookParameters h = None"
    and "distinct (map (\<lambda>p. vl (sfHookParameterName p)) (defHookParameters d))"
  obtains m where "params_of h' = map (\<lambda>(pn, pv). \<lparr>sfHookParameterName = Some pn, sfHookParameterValue = pv\<rparr>) m"
    "omap_ok m" "length m \<le> 16"
    "\<And>n pv. (n, pv) \<in> set m \<Longrightarrow> pv \<noteq> None \<and> length n \<le> maxHookParameterKeySize \<and> length (the pv) \<le> maxHookParameterValueSize"
    "\<And>n. map_of m n =
      (case (case param_of (params_of s) n of None \<Rightarrow> param_of old n | Some pv \<Rightarrow> Some pv) of
         None \<Rightarrow> None
       | Some None \<Rightarrow> None
       | Some (Some v) \<Rightarrow>
           (case param_of (defHookParameters d) n of
              None \<Rightarrow> if v = [] then None else Some (Some v)
            | Some w \<Rightarrow> if v = vl w then None else Some (Some v)))"
proof -
  define m0 where "m0 = override_parameters (params_of s) (override_parameters old [])"
  have ok0: "omap_ok m0"
    unfolding m0_def override_parameters_def by (intro omap_ok_puts) (simp add: omap_ok_def)
  have look0: "map_of m0 n = (case param_of (params_of s) n of None \<Rightarrow> param_of old n | Some pv \<Rightarrow> Some pv)" for n
    by (simp add: m0_def override_parameters_def omap_lookup_puts param_of_def split: option.split)
  obtain m1 bs where m1: "erase_defaults (defHookParameters d) m0 [] = (m1, bs)"
    by fastforce
  note erased = erase_defaults_lookup [OF m1 ok0 assms(3)]
  have same: "(if m0 \<noteq> [] then erase_defaults (defHookParameters d) m0 [] else (m0, [])) = (m1, bs)"
  proof (cases m0)
    case Nil
    have "erase_defaults ds [] [] = ([], [])" for ds
      by (induction ds) (simp_all add: Let_def)
    then show ?thesis
      using m1 Nil by simp
  qed (use m1 in simp)
  define m where "m = filter (\<lambda>(pn, pv). \<not> (pv = None \<or> (pv = Some [] \<and> pn \<notin> set bs))) m1"
  have vals: "pv \<noteq> None" if "(n, pv) \<in> set m" for n pv
    using that by (auto simp: m_def)
  then have all: "filter (\<lambda>(pn, pv). pv \<noteq> None) m = m"
    by (auto simp: filter_id_conv)
  have run: "updateHookParameters s (Some d) old h =
     (if 16 < length m then Inl tecINTERNAL
      else if list_ex (\<lambda>(pn, pv). pv \<noteq> None \<and>
          (maxHookParameterKeySize < length pn \<or> maxHookParameterValueSize < length (the pv))) m then Inl tecINTERNAL
      else Inr (if map (\<lambda>(pn, pv). \<lparr>sfHookParameterName = Some pn, sfHookParameterValue = pv\<rparr>) m \<noteq> []
        then h\<lparr>sfHookParameters := Some (map (\<lambda>(pn, pv). \<lparr>sfHookParameterName = Some pn, sfHookParameterValue = pv\<rparr>) m)\<rparr> else h))"
    unfolding updateHookParameters_def Let_def option.case params_of_def [symmetric] m0_def [symmetric] same prod.case m_def [symmetric] all
    by (rule refl)
  show ?thesis
  proof (rule that)
    show "params_of h' = map (\<lambda>(pn, pv). \<lparr>sfHookParameterName = Some pn, sfHookParameterValue = pv\<rparr>) m"
      using assms(1,2) by (auto simp: run params_of_def split: if_splits)
    show "omap_ok m"
      using erased by (simp add: m_def omap_ok_filter)
    show "length m \<le> 16"
      using assms(1) by (simp add: run split: if_splits)
    show "pv \<noteq> None \<and> length n \<le> maxHookParameterKeySize \<and> length (the pv) \<le> maxHookParameterValueSize" if "(n, pv) \<in> set m" for n pv
      using assms(1) that vals [OF that] by (force simp: run list_ex_iff split: if_splits)
    fix n
    have "distinct (map fst m1)"
      using erased omap_ok_distinct by blast
    from map_of_filter_distinct [OF this, of "\<lambda>(pn, pv). \<not> (pv = None \<or> (pv = Some [] \<and> pn \<notin> set bs))" n, folded m_def]
    show "map_of m n =
      (case (case param_of (params_of s) n of None \<Rightarrow> param_of old n | Some pv \<Rightarrow> Some pv) of
         None \<Rightarrow> None
       | Some None \<Rightarrow> None
       | Some (Some v) \<Rightarrow>
           (case param_of (defHookParameters d) n of
              None \<Rightarrow> if v = [] then None else Some (Some v)
            | Some w \<Rightarrow> if v = vl w then None else Some (Some v)))"
      using erased [of n] unfolding look0 [symmetric] by (auto split: option.splits if_splits)
  qed
qed

lemma param_of_omap:
  assumes "omap_ok m"
  shows "param_of (map (\<lambda>(pn, pv). \<lparr>sfHookParameterName = Some pn, sfHookParameterValue = pv\<rparr>) m) n = map_of m n"
proof -
  have "map (\<lambda>p. (vl (sfHookParameterName p), sfHookParameterValue p))
      (map (\<lambda>(pn, pv). \<lparr>sfHookParameterName = Some pn, sfHookParameterValue = pv\<rparr>) m) = m"
    by (induction m) (auto simp: vl_def)
  then show ?thesis
    using map_of_rev_distinct [OF omap_ok_distinct [OF assms]] by (simp only: param_of_def)
qed

lemma result_valid:
  assumes "omap_ok m" and "length m \<le> 16"
    and "\<And>n pv. (n, pv) \<in> set m \<Longrightarrow> pv \<noteq> None \<and> length n \<le> maxHookParameterKeySize \<and> length (the pv) \<le> maxHookParameterValueSize"
  shows "validateHookParams (map (\<lambda>(pn, pv). \<lparr>sfHookParameterName = Some pn, sfHookParameterValue = pv\<rparr>) m)"
proof -
  let ?ps = "map (\<lambda>(pn, pv). \<lparr>sfHookParameterName = Some pn, sfHookParameterValue = pv\<rparr>) m"
  have "map (\<lambda>p. vl (sfHookParameterName p)) ?ps = map fst m"
    by (induction m) (auto simp: vl_def)
  then have "distinct (map (\<lambda>p. vl (sfHookParameterName p)) ?ps)"
    using omap_ok_distinct [OF assms(1)] by (simp only:)
  moreover have "sfHookParameterName p \<noteq> None \<and> length (vl (sfHookParameterName p)) \<le> maxHookParameterKeySize \<and>
        length (vl (sfHookParameterValue p)) \<le> maxHookParameterValueSize" if p: "p \<in> set ?ps" for p
  proof -
    obtain n pv where "(n, pv) \<in> set m" "p = \<lparr>sfHookParameterName = Some n, sfHookParameterValue = pv\<rparr>"
      using p by auto
    then show ?thesis
      using assms(3) [of n pv] by (auto simp: vl_def)
  qed
  ultimately show ?thesis
    unfolding validateHookParams_iff using assms(2) by auto
qed

text \<open>
  C10: the merge of parameters does what its description says. When \<^verbatim>\<open>updateHookParameters\<close> succeeds,
  a name that the transaction gives a value has that value for the running hook (no parameter if the
  value is empty), a name it gives without a value is back at the default of the definition, and
  every other name has the value it had; and the array it stores passes \<^verbatim>\<open>validateHookParams\<close>, so it has
  at most sixteen entries. What the running hook sees is what \<^verbatim>\<open>gatherHookParameters\<close> collects.
\<close>

theorem updateHookParameters_merges:
  assumes "updateHookParameters s (Some d) old h = Inr h'" and "sfHookParameters h = None"
    and "validateHookParams (defHookParameters d)" and "\<forall>p \<in> set old. sfHookParameterValue p \<noteq> None"
  shows "validateHookParams (params_of h') \<and>
    effective_param d (params_of h') n =
      (case param_of (params_of s) n of
         None \<Rightarrow> effective_param d old n
       | Some None \<Rightarrow> default_param d n
       | Some (Some v) \<Rightarrow> some_value v)"
proof -
  have names: "distinct (map (\<lambda>p. vl (sfHookParameterName p)) (defHookParameters d))"
    using assms(3) by (simp add: validateHookParams_iff)
  have "param_of old n \<noteq> Some None"
    using assms(4) by (fastforce simp: param_of_def dest!: map_of_SomeD)
  with assms(1,2) names show ?thesis
  proof (cases rule: updateHookParameters_result)
    case (1 m)
    then have "param_of (params_of h') n = map_of m n"
      by (simp add: param_of_omap)
    then show ?thesis
      using 1 \<open>param_of old n \<noteq> Some None\<close> result_valid [OF 1(2-4)]
      by (auto simp: effective_param_eq default_param_def some_value_def vl_def split: option.splits if_splits)
  qed
qed

definition two_defaults :: hook_definition where
  "two_defaults = \<lparr>defHookOn = 0, defHookNamespace = 2,
     defHookParameters = [\<lparr>sfHookParameterName = Some [1], sfHookParameterValue = Some [10]\<rparr>,
       \<lparr>sfHookParameterName = Some [2], sfHookParameterValue = Some [20]\<rparr>],
     defHookApiVersion = 0, defCreateCode = [], sfHookSetTxnID = 0, sfReferenceCount = 1, sfFee = 0,
     sfHookCallbackFee = None, defFlags = 0\<rparr>"

text \<open>The first default is blanked, the second keeps the hook's own value.\<close>

theorem updateHookParameters_merges_witness:
  "\<exists>h'. updateHookParameters (blank_hook\<lparr>sfHookParameters := Some [\<lparr>sfHookParameterName = Some [1], sfHookParameterValue = Some []\<rparr>]\<rparr>)
       (Some two_defaults) [\<lparr>sfHookParameterName = Some [2], sfHookParameterValue = Some [21]\<rparr>] blank_hook = Inr h' \<and>
     effective_param two_defaults (params_of h') [1] = None \<and> effective_param two_defaults (params_of h') [2] = Some [21]"
proof -
  let ?s = "blank_hook\<lparr>sfHookParameters := Some [\<lparr>sfHookParameterName = Some [1], sfHookParameterValue = Some []\<rparr>]\<rparr>"
  let ?old = "[\<lparr>sfHookParameterName = Some [2], sfHookParameterValue = Some [21 :: u8]\<rparr>]"
  obtain h' where run: "updateHookParameters ?s (Some two_defaults) ?old blank_hook = Inr h'"
    by (simp add: updateHookParameters_def two_defaults_def override_parameters_def vl_def blank_hook_def Let_def
        maxHookParameterKeySize_def maxHookParameterValueSize_def)
  have "validateHookParams (defHookParameters two_defaults)" "sfHookParameters blank_hook = None"
    by (simp_all add: validateHookParams_iff two_defaults_def vl_def maxHookParameterKeySize_def maxHookParameterValueSize_def blank_hook_def)
  from updateHookParameters_merges [OF run this(2,1), of "[1]"] updateHookParameters_merges [OF run this(2,1), of "[2]"]
  show ?thesis
    by (intro exI [of _ h']) (simp add: run params_of_def param_of_def vl_def some_value_def effective_param_eq)
qed

end
