(* ===== verification/Set_Hook_Wf.thy ===== *)
theory Set_Hook_Wf
  imports Set_Hook_Refs Set_Hook_Params Guard_Validate_Props Directory_Props
begin

text \<open>
  The types that \<^verbatim>\<open>setHook\<close> keeps: what the hook arrays and the hook definitions of a ledger look like
  after any number of transactions that passed \<^verbatim>\<open>preflight\<close>. The code of every definition was accepted
  by the guard checker and is charged what the checker counted.
\<close>

section \<open>Well-formed hooks\<close>

definition def_wf :: "set_env \<Rightarrow> uint256 \<Rightarrow> hook_definition \<Rightarrow> bool" where
  "def_wf env h d \<longleftrightarrow>
     h = sha512Half env (defCreateCode d) \<and> 0 < length (defCreateCode d) \<and> length (defCreateCode d) \<le> maxHookWasmSize \<and>
     validateWasm env (defCreateCode d) \<and> defHookApiVersion d = 0 \<and> validateHookParams (defHookParameters d) \<and>
     (\<exists>max_hook max_cbak. validateGuards (defCreateCode d) = Some (Ok (max_hook, max_cbak)) \<and>
        sfFee d = uint max_hook \<and> sfFee d < 65535 \<and> uint max_cbak < 65535 \<and>
        sfHookCallbackFee d = (if 0 < max_cbak then Some (uint max_cbak) else None))"

definition array_wf :: "account_id \<Rightarrow> hook_object list \<Rightarrow> bool" where
  "array_wf acc hs \<longleftrightarrow>
     length hs \<le> maxHookChainLength \<and> list_ex (\<lambda>x. sfHookHash x \<noteq> None) hs \<and> list_all (params_and_grants acc) hs"

definition hooks_wf :: "set_env \<Rightarrow> ledger \<Rightarrow> bool" where
  "hooks_wf env L \<longleftrightarrow>
     (\<forall>acc sle. hooks L acc = Some sle \<longrightarrow> array_wf acc (sfHooks sle)) \<and>
     (\<forall>h d. definitions L h = Some d \<longrightarrow> def_wf env h d)"

lemma computeExecutionFee_counts:
  assumes "validateGuards code = Some (Ok (a, b))"
  shows "computeExecutionFee a = uint a" "uint a < 65535" "computeExecutionFee b = uint b" "uint b < 65535"
proof -
  obtain p t where "pass2_loop code p t 8 (0, 0) = Some (Ok (a, b))"
    using validateGuards_accepts [OF assms] by blast
  then have small: "unat a < 65535" "unat b < 65535"
    using pass2_loop_counts by (simp_all add: counts_ok_def)
  then show "uint a < 65535" "uint b < 65535"
    by (simp_all flip: nat_uint_eq)
  have "sint x = uint x" if "unat x < 65535" for x :: u64
  proof -
    have "uint x < 65535"
      using that by (simp flip: nat_uint_eq)
    moreover have "- (2 ^ 63) \<le> uint x"
      by (rule order_trans [OF _ uint_ge_0]) simp
    ultimately have "signed_take_bit 63 (uint x) = uint x"
      by (intro signed_take_bit_int_eq_self) simp_all
    then show ?thesis
      by (simp add: sint_uint)
  qed
  with small show "computeExecutionFee a = uint a" "computeExecutionFee b = uint b"
    by (simp_all add: computeExecutionFee_def Let_def)
qed

section \<open>What preflight promises\<close>

lemma blank_params [simp]: "params_and_grants acc blank_hook"
  by (simp add: params_and_grants_def blank_hook_def)

lemma validateHookSetEntry_params:
  "validateHookSetEntry env acc s = Some (Ok v) \<Longrightarrow> v \<noteq> Valid False \<Longrightarrow> params_and_grants acc s"
  by (auto simp: validateHookSetEntry_def validate_create_def params_and_grants_def inferOperation_def Let_def
      split: HookSetOperation.splits if_splits option.splits outcome.splits)

lemma preflight_loop_params:
  "preflight_loop env acc hs b = Some (Ok (Inr b')) \<Longrightarrow> list_all (params_and_grants acc) hs"
proof (induction hs arbitrary: b)
  case (Cons s hs)
  then show ?case
    using validateHookSetEntry_params
    by (auto split: if_splits option.splits outcome.splits HookSetValidation.splits bool.splits)
qed simp

lemma preflight_loop_refuses: "preflight_loop env acc hs b = Some (Ok (Inl ter)) \<Longrightarrow> ter = temMALFORMED"
  by (induction hs arbitrary: b)
    (auto split: if_splits option.splits outcome.splits HookSetValidation.splits bool.splits)

lemma preflight_params:
  assumes "preflight env hooksEnabled p1 p2 tx = Some (Ok tesSUCCESS)"
  obtains hs where "tx_hooks tx = Some hs" "length hs \<le> maxHookChainLength" "list_all (params_and_grants (tx_account tx)) hs"
proof -
  obtain hs where hs: "tx_hooks tx = Some hs" "length hs \<le> maxHookChainLength"
    and run: "preflight_loop env (tx_account tx) hs True = Some (Ok (Inl tesSUCCESS)) \<or>
      (\<exists>b. preflight_loop env (tx_account tx) hs True = Some (Ok (Inr b)))"
    using assms unfolding preflight_def by (auto split: if_splits option.splits outcome.splits sum.splits)
  from run have "list_all (params_and_grants (tx_account tx)) hs"
    by (auto dest: preflight_loop_params preflight_loop_refuses)
  with hs show thesis
    by (rule that)
qed

lemma created_counts:
  assumes "validateHookSetEntry env acc s = Some (Ok (Valid_Counts c))"
  shows "\<exists>code. sfCreateCode s = Some code \<and> 0 < length code \<and> validateGuards code = Some (Ok c) \<and> validateWasm env code \<and>
    sfHookApiVersion s = Some 0"
  using assms
  by (auto simp: validateHookSetEntry_def validate_create_def inferOperation_def Let_def
      split: HookSetOperation.splits if_splits option.splits outcome.splits)

section \<open>The loop\<close>

definition state_wf :: "set_env \<Rightarrow> account_id \<Rightarrow> set_state \<Rightarrow> bool" where
  "state_wf env acc st \<longleftrightarrow>
     (\<forall>h d. viewed st h = Some d \<longrightarrow> def_wf env h d) \<and> (\<forall>h d. map_of (slesToInsert st) h = Some d \<longrightarrow> def_wf env h d) \<and>
     list_all (params_and_grants acc) (newHooks st)"

lemma def_wf_count [simp]: "def_wf env h (d\<lparr>sfReferenceCount := n\<rparr>) = def_wf env h d"
  by (simp add: def_wf_def)

lemma state_wf_push: "state_wf env acc st \<Longrightarrow> params_and_grants acc x \<Longrightarrow> state_wf env acc (push_hook x st)"
  by (simp add: state_wf_def push_hook_def)

lemma state_wf_mark [simp]: "state_wf env acc (mark_namespace slot op s st) = state_wf env acc st"
  by (simp add: state_wf_def mark_namespace_fields)

lemma state_wf_update [simp]:
  "state_wf env acc (st\<lparr>slesToUpdate := u\<rparr>) = state_wf env acc st" "state_wf env acc (st\<lparr>keyletsToDestroy := u\<rparr>) = state_wf env acc st"
  by (simp_all add: state_wf_def)

lemma release_wf: "state_wf env acc st \<Longrightarrow> state_wf env acc (release_definition old st)"
  by (auto simp: state_wf_def release_definition_def reduceReferenceCount_def Let_def split: option.splits)

lemma params_and_grants_iff:
  "params_and_grants acc x \<longleftrightarrow> validateHookParams (params_of x) \<and> (\<forall>gs. sfHookGrants x = Some gs \<longrightarrow> validateHookGrants acc gs)"
  by (simp add: params_and_grants_def params_of_def validateHookParams_def split: option.split)

lemma updateHookParameters_wf:
  assumes "updateHookParameters s (Some d) old h = Inr h'" and "sfHookParameters h = None" and "validateHookParams (defHookParameters d)"
  shows "validateHookParams (params_of h') \<and> sfHookGrants h' = sfHookGrants h"
proof -
  have "distinct (map (\<lambda>p. vl (sfHookParameterName p)) (defHookParameters d))"
    using assms(3) by (simp add: validateHookParams_iff)
  from updateHookParameters_result [OF assms(1,2) this]
  obtain m where "params_of h' = map (\<lambda>(pn, pv). \<lparr>sfHookParameterName = Some pn, sfHookParameterValue = pv\<rparr>) m"
    "omap_ok m" "length m \<le> 16"
    "\<And>n pv. (n, pv) \<in> set m \<Longrightarrow> pv \<noteq> None \<and> length n \<le> maxHookParameterKeySize \<and> length (the pv) \<le> maxHookParameterValueSize"
    by (metis (no_types, lifting))
  then have "validateHookParams (params_of h')"
    using result_valid by metis
  moreover have "sfHookGrants h' = sfHookGrants h"
    using assms(1) by (auto simp: updateHookParameters_def Let_def split: prod.splits if_splits)
  ultimately show ?thesis
    by blast
qed

lemma set_grants_wf:
  "validateHookParams (params_of h) \<Longrightarrow> sfHookGrants h = None \<Longrightarrow> params_and_grants acc s \<Longrightarrow> params_and_grants acc (set_grants s h)"
  by (auto simp: params_and_grants_iff set_grants_def params_of_def split: option.splits)

lemma params_flags [simp]: "params_and_grants acc (x\<lparr>sfFlags := f\<rparr>) = params_and_grants acc x"
  by (simp add: params_and_grants_def)

lemma updated_hook_wf:
  assumes "updated_hook d old s = Inr x" and "validateHookParams (defHookParameters d)"
    and "params_and_grants acc s" and "params_and_grants acc old"
  shows "params_and_grants acc x"
proof -
  obtain new merged where new: "sfHookParameters new = None" "sfHookGrants new = None"
    and merged: "merged = new \<or> (\<exists>ps. updateHookParameters s (Some d) ps new = Inr merged)"
    and x: "x = (case sfFlags s of None \<Rightarrow> id | Some f \<Rightarrow> sfFlags_update (\<lambda>_. Some f))
        (if sfHookGrants s = None then merged\<lparr>sfHookGrants := sfHookGrants old\<rparr> else set_grants s merged)"
  proof -
    define n0 where "n0 = blank_hook\<lparr>sfHookHash := sfHookHash old, sfHookOn := sfHookOn old, sfHookNamespace := sfHookNamespace old\<rparr>"
    define n1 where "n1 = (case sfHookNamespace s of None \<Rightarrow> n0 | Some n \<Rightarrow> n0\<lparr>sfHookNamespace := if defHookNamespace d = n then None else Some n\<rparr>)"
    define n2 where "n2 = (case sfHookOn s of None \<Rightarrow> n1 | Some n \<Rightarrow> n1\<lparr>sfHookOn := if defHookOn d = n then None else Some n\<rparr>)"
    have n2: "sfHookParameters n2 = None" "sfHookGrants n2 = None"
      by (simp_all add: n2_def n1_def n0_def blank_hook_def split: option.split)
    from assms(1) show ?thesis
      unfolding updated_hook_def Let_def n0_def [symmetric] n1_def [symmetric] n2_def [symmetric]
      by (cases "sfHookGrants s"; cases "sfFlags s") (auto intro: that [OF n2] split: if_splits sum.splits)
  qed
  have m: "validateHookParams (params_of merged) \<and> sfHookGrants merged = None"
    using merged
  proof
    assume "merged = new"
    then show ?thesis
      using new by (simp add: params_of_def validateHookParams_def)
  next
    assume "\<exists>ps. updateHookParameters s (Some d) ps new = Inr merged"
    then show ?thesis
      using updateHookParameters_wf [OF _ new(1) assms(2)] new(2) by auto
  qed
  then have "params_and_grants acc (if sfHookGrants s = None then merged\<lparr>sfHookGrants := sfHookGrants old\<rparr> else set_grants s merged)"
    using assms(3,4) set_grants_wf [of merged acc s] by (auto simp: params_and_grants_iff params_of_def)
  then show ?thesis
    unfolding x by (cases "sfFlags s") simp_all
qed

lemma installed_hook_wf:
  assumes "installed_hook h d s = Inr x" and "validateHookParams (defHookParameters d)" and "params_and_grants acc s"
  shows "params_and_grants acc x"
proof -
  obtain new merged where new: "sfHookParameters new = None" "sfHookGrants new = None"
    and merged: "updateHookParameters s (Some d) [] new = Inr merged"
    and x: "x = (case sfFlags s of None \<Rightarrow> id | Some f \<Rightarrow> sfFlags_update (\<lambda>_. Some (strip_flags f))) (set_grants s merged)"
  proof -
    define n0 where "n0 = blank_hook\<lparr>sfHookHash := Some h\<rparr>"
    define n1 where "n1 = (case sfHookNamespace s of None \<Rightarrow> n0 | Some n \<Rightarrow> if defHookNamespace d \<noteq> n then n0\<lparr>sfHookNamespace := Some n\<rparr> else n0)"
    define n2 where "n2 = (case sfHookOn s of None \<Rightarrow> n1 | Some n \<Rightarrow> if defHookOn d \<noteq> n then n1\<lparr>sfHookOn := Some n\<rparr> else n1)"
    have n2: "sfHookParameters n2 = None" "sfHookGrants n2 = None"
      by (simp_all add: n2_def n1_def n0_def blank_hook_def split: option.split)
    from assms(1) show ?thesis
      unfolding installed_hook_def Let_def n0_def [symmetric] n1_def [symmetric] n2_def [symmetric]
      by (cases "sfFlags s") (auto intro: that [OF n2] split: sum.splits)
  qed
  have "validateHookParams (params_of merged) \<and> sfHookGrants merged = None"
    using updateHookParameters_wf [OF merged new(1) assms(2)] new(2) by simp
  then have "params_and_grants acc (set_grants s merged)"
    using assms(3) set_grants_wf by blast
  then show ?thesis
    unfolding x by (cases "sfFlags s") simp_all
qed

definition slot_wf :: "account_id \<Rightarrow> slot_view \<Rightarrow> bool" where
  "slot_wf acc slot \<longleftrightarrow> (\<forall>x. oldHook slot = Some x \<longrightarrow> params_and_grants acc x)"

lemma install_wf:
  assumes st: "state_wf env acc st" and s: "params_and_grants acc s" and run: "install_hook slot s h pending st = Inr st'"
  shows "state_wf env acc st'"
proof -
  define st1 where "st1 = release_definition (oldHash slot) st"
  have st1: "state_wf env acc st1"
    using st by (simp add: st1_def release_wf)
  have dom: "dom (viewed st1) = dom (viewed st)" "slesToInsert st1 = slesToInsert st"
    by (auto simp: st1_def release_definition_def reduceReferenceCount_def Let_def split: option.splits if_splits)
  then obtain d where d: "(if pending then map_of (slesToInsert st1) h else viewed st1 h) = Some d"
    using run by (cases pending) (auto simp: install_hook_def domIff split: if_splits)
  define st2 where "st2 = (if pending then st1\<lparr>slesToInsert := omap_put h (incrementReferenceCount d) (slesToInsert st1)\<rparr>
      else st1\<lparr>viewed := (viewed st1)(h \<mapsto> incrementReferenceCount d)\<rparr>)"
  obtain x where x: "installed_hook h (incrementReferenceCount d) s = Inr x"
    and st': "st' = (push_hook x st2)\<lparr>slesToUpdate := insort_insert h (slesToUpdate (push_hook x st2))\<rparr>"
    using run unfolding install_hook_def Let_def st1_def [symmetric] d option.sel st2_def [symmetric]
    by (auto split: if_splits sum.splits)
  have wf: "def_wf env h d"
    using st1 d by (simp add: state_wf_def split: if_splits)
  then have "state_wf env acc st2"
    using st1 by (auto simp: st2_def state_wf_def omap_lookup_put incrementReferenceCount_def)
  moreover have "params_and_grants acc x"
    using installed_hook_wf [OF x _ s] wf by (simp add: incrementReferenceCount_def def_wf_def)
  ultimately show ?thesis
    by (simp add: st' state_wf_push)
qed

lemma create_wf:
  assumes st: "state_wf env acc st" and s: "params_and_grants acc s" and acc: "acc = tx_account tx"
    and run: "create_hook env tx slot s st = Some (Ok (Inr st'))"
  shows "state_wf env acc st'"
proof -
  define h where "h = sha512Half env (vl (sfCreateCode s))"
  show ?thesis
  proof (cases "viewed st h \<noteq> None \<or> map_of (slesToInsert st) h \<noteq> None")
    case True
    then obtain pending where "install_hook slot s h pending st = Inr st'"
      using run by (auto simp: create_hook_def Let_def h_def [symmetric] split: if_splits)
    then show ?thesis
      by (rule install_wf [OF st s])
  next
    case False
    define st1 where "st1 = release_definition (oldHash slot) st"
    obtain ns on c where counts: "validateHookSetEntry env acc s = Some (Ok (Valid_Counts c))"
      and size: "\<not> maxHookWasmSize < length (vl (sfCreateCode s))"
      and st': "st' = push_hook (set_grants s (blank_hook\<lparr>sfHookHash := Some h\<rparr>))
          (st1\<lparr>slesToInsert := omap_put h (create_definition tx s (vl (sfCreateCode s)) ns on c) (slesToInsert st1)\<rparr>)"
      using run False unfolding create_hook_def Let_def h_def [symmetric] st1_def [symmetric] acc
      by (auto split: if_splits option.splits outcome.splits HookSetValidation.splits bool.splits)
    obtain code where code: "sfCreateCode s = Some code" "0 < length code" "validateGuards code = Some (Ok c)" "validateWasm env code"
        "sfHookApiVersion s = Some 0"
      using created_counts [OF counts] by blast
    obtain a b where c: "c = (a, b)"
      by (cases c)
    have "validateHookParams (case sfHookParameters s of None \<Rightarrow> [] | Some ps \<Rightarrow> ps)"
      using s by (simp add: params_and_grants_iff params_of_def)
    then have "def_wf env h (create_definition tx s (vl (sfCreateCode s)) ns on c)"
      using code size computeExecutionFee_counts [OF code(3) [unfolded c]]
      by (simp add: def_wf_def create_definition_def h_def vl_def c)
    moreover have "state_wf env acc st1"
      using st by (simp add: st1_def release_wf)
    ultimately have "state_wf env acc (st1\<lparr>slesToInsert := omap_put h (create_definition tx s (vl (sfCreateCode s)) ns on c) (slesToInsert st1)\<rparr>)"
      by (auto simp: state_wf_def omap_lookup_put)
    moreover have "params_and_grants acc (set_grants s (blank_hook\<lparr>sfHookHash := Some h\<rparr>))"
      by (rule set_grants_wf [OF _ _ s]) (simp_all add: blank_hook_def params_of_def validateHookParams_def)
    ultimately show ?thesis
      by (simp add: st' state_wf_push)
  qed
qed

lemma set_op_wf:
  assumes st: "state_wf env acc st" and s: "params_and_grants acc s" and acc: "acc = tx_account tx"
    and slot: "slot_wf acc slot" "\<And>d. oldDef slot = Some d \<Longrightarrow> validateHookParams (defHookParameters d)"
    and run: "set_op env tx slot op s st = Some (Ok (Inr st'))"
  shows "state_wf env acc st'"
proof -
  have keep: "state_wf env acc (push_hook (case oldHook slot of None \<Rightarrow> blank_hook | Some x \<Rightarrow> x) st)"
    using slot(1) by (intro state_wf_push [OF st]) (simp add: slot_wf_def split: option.split)
  have delete: "state_wf env acc st'" if "delete_hook slot s st = Inr st'"
    using that st by (auto simp: delete_hook_def Let_def intro!: release_wf state_wf_push split: if_splits)
  have update: "state_wf env acc st'" if "update_hook slot s st = Inr st'"
    using that slot s updated_hook_wf
    by (fastforce simp: update_hook_def slot_wf_def intro: state_wf_push [OF st] split: option.splits sum.splits)
  show ?thesis
    using run keep delete update install_wf [OF st s] create_wf [OF st s acc]
    by (cases op) (auto simp: set_op_def)
qed

text \<open>Every slot adds one hook to the new array.\<close>

lemma release_newHooks [simp]: "newHooks (release_definition old st) = newHooks st"
  by (auto simp: release_definition_def reduceReferenceCount_def Let_def split: option.splits)

lemma install_length: "install_hook slot s h pending st = Inr st' \<Longrightarrow> length (newHooks st') = Suc (length (newHooks st))"
  by (auto simp: install_hook_def Let_def split: if_splits sum.splits)

lemma create_length:
  "create_hook env tx slot s st = Some (Ok (Inr st')) \<Longrightarrow> length (newHooks st') = Suc (length (newHooks st))"
  unfolding create_hook_def Let_def
  by (auto dest: install_length split: if_splits option.splits outcome.splits HookSetValidation.splits bool.splits)

lemma set_op_length:
  "set_op env tx slot op s st = Some (Ok (Inr st')) \<Longrightarrow> length (newHooks st') = Suc (length (newHooks st))"
  by (cases op)
    (auto simp: set_op_def delete_hook_def update_hook_def Let_def dest: install_length create_length
      split: if_splits option.splits sum.splits)

lemma set_slot_wf:
  assumes st: "state_wf env acc st" and acc: "acc = tx_account tx" and old: "\<And>x. old = Some x \<Longrightarrow> params_and_grants acc x"
    and new: "\<And>s. hs = Some s \<Longrightarrow> params_and_grants acc s" and run: "set_slot env tx old hs st = Some (Ok (Inr st'))"
  shows "state_wf env acc st' \<and> length (newHooks st') = Suc (length (newHooks st))"
proof -
  define slot where "slot = slot_of st old"
  define s where "s = (case hs of None \<Rightarrow> blank_hook | Some s \<Rightarrow> s)"
  obtain op where op: "set_op env tx slot op s (mark_namespace slot op s st) = Some (Ok (Inr st'))"
    using run unfolding set_slot_def Let_def slot_def [symmetric] s_def [symmetric] by (auto split: if_splits)
  have "slot_wf acc slot"
    using old by (simp add: slot_def slot_of_def slot_wf_def Let_def)
  moreover have "validateHookParams (defHookParameters d)" if "oldDef slot = Some d" for d
    using that st by (auto simp: slot_def slot_of_def Let_def state_wf_def def_wf_def bind_eq_Some_conv)
  moreover have "params_and_grants acc s"
    using new by (simp add: s_def split: option.split)
  ultimately show ?thesis
    using set_op_wf [of env acc "mark_namespace slot op s st" s tx slot op st'] st acc op set_op_length [OF op]
    by (simp add: mark_namespace_fields)
qed

lemma set_loop_wf:
  assumes "set_loop env tx old hs is st = Some (Ok (Inr st'))" and "state_wf env (tx_account tx) st"
    and "list_all (params_and_grants (tx_account tx)) old" and "list_all (params_and_grants (tx_account tx)) hs"
  shows "state_wf env (tx_account tx) st' \<and> length (newHooks st') = length (newHooks st) + length is"
  using assms(1,2)
proof (induction "is" arbitrary: st)
  case (Cons i "is")
  obtain st1 where st1: "set_slot env tx (slot_at old i) (slot_at hs i) st = Some (Ok (Inr st1))"
    and rest: "set_loop env tx old hs is st1 = Some (Ok (Inr st'))"
    using Cons.prems(1) by (auto split: option.splits outcome.splits sum.splits)
  have "params_and_grants (tx_account tx) x" if "slot_at old i = Some x \<or> slot_at hs i = Some x" for x
    using that assms(3,4) by (auto simp: slot_at_def list_all_length split: if_splits)
  then have "state_wf env (tx_account tx) st1 \<and> length (newHooks st1) = Suc (length (newHooks st))"
    using set_slot_wf [OF Cons.prems(2) refl _ _ st1] by blast
  then show ?case
    using Cons.IH [OF rest] by simp
qed simp

section \<open>Enacting\<close>

lemma write_hook_array_wf:
  assumes "write_hook_array env acc hs L = Ok (tesSUCCESS, L')" and "hooks_wf e L"
    and "length hs \<le> maxHookChainLength" and "list_all (params_and_grants acc) hs"
  shows "hooks_wf e L'"
  using assms by (auto simp: write_hook_array_def hooks_wf_def array_wf_def Let_def obind_eq_Ok split: option.splits if_splits)

lemma enact_wf:
  assumes L: "hooks_wf env L" and st: "state_wf env acc st" and len: "length (newHooks st) \<le> maxHookChainLength"
    and run: "enact env acc delta st L = Some (Ok (tesSUCCESS, L'))"
  shows "hooks_wf env L'"
proof -
  define L1 where "L1 = update_definitions st (insert_definitions st L)"
  obtain L2 L3 where L2: "destroy_namespaces acc (namespacesToDestroy st) L1 = Some (Ok L2)"
    and L3: "write_hook_array env acc (newHooks st) (destroy_definitions st L2) = Ok (tesSUCCESS, L3)"
    and L': "hooks L' = hooks L3" "definitions L' = definitions L3"
    using run unfolding enact_def L1_def [symmetric] Let_def by (auto simp: obind_eq_Ok split: option.splits if_splits)
  have "hooks_wf env L1"
    using L st by (auto simp: L1_def update_definitions_def insert_definitions_def hooks_wf_def state_wf_def map_add_Some_iff)
  then have "hooks_wf env (destroy_definitions st L2)"
    using destroy_namespaces_frame [OF L2] by (simp add: hooks_wf_def destroy_definitions_def)
  then have "hooks_wf env L3"
    using write_hook_array_wf [OF L3 _ len] st by (simp add: state_wf_def)
  then show ?thesis
    by (simp add: hooks_wf_def L')
qed

text \<open>
  C12: what hooks are made of. If the hook arrays of the ledger have at most four slots, not all blank,
  with valid parameters and grants, and every hook definition is stored under the hash of its code,
  of at most 65535 bytes, which the virtual machine and the guard checker accept, with valid default
  parameters and with the counts of the guard checker, below 65535, as the fees for hook and
  callback, then the same holds after every \<^verbatim>\<open>SetHook\<close> transaction that passed \<^verbatim>\<open>preflight\<close>.
\<close>

theorem setHook_keeps_types:
  assumes "hooks_wf env L" and "preflight env hooksEnabled p1 p2 tx = Some (Ok tesSUCCESS)"
    and "setHook env f bal tx L = Some (Ok (tesSUCCESS, L'))"
  shows "hooks_wf env L'"
proof (cases "L' = L")
  case changed: False
  let ?acc = "tx_account tx"
  obtain hs where hs: "tx_hooks tx = Some hs" "length hs \<le> maxHookChainLength" "list_all (params_and_grants ?acc) hs"
    by (rule preflight_params [OF assms(2)])
  let ?n = "max (length (hooks_of L ?acc)) (length hs)"
  let ?init = "\<lparr>newHooks = [], viewed = definitions L, slesToInsert = [], slesToUpdate = [], keyletsToDestroy = [],
    namespacesToDestroy = []\<rparr>"
  obtain st delta where loop: "set_loop env tx (hooks_of L ?acc) hs [0..<?n] ?init = Some (Ok (Inr st))"
    and run: "enact env ?acc delta st L = Some (Ok (tesSUCCESS, L'))"
    using assms(3) changed hs(1) unfolding setHook_def Let_def hooks_of_def [symmetric]
    by (auto split: option.splits outcome.splits sum.splits if_splits)
  have old: "length (hooks_of L ?acc) \<le> maxHookChainLength" "list_all (params_and_grants ?acc) (hooks_of L ?acc)"
    using assms(1) by (auto simp: hooks_wf_def array_wf_def hooks_of_def split: option.split)
  have "state_wf env ?acc ?init"
    using assms(1) by (simp add: state_wf_def hooks_wf_def)
  from set_loop_wf [OF loop this old(2) hs(3)] have "state_wf env ?acc st" "length (newHooks st) \<le> maxHookChainLength"
    using old(1) hs(2) by simp_all
  then show ?thesis
    by (rule enact_wf [OF assms(1) _ _ run])
qed (use assms(1) in simp)

text \<open>Account 7 creates a hook on a ledger without hooks.\<close>

definition bare_ledger :: ledger where
  "bare_ledger =
     \<lparr>accounts = [7 \<mapsto> \<lparr>sfBalance = 1000, sfOwnerCount = 0, sfHookStateCount = 0, sfHookNamespaces = None\<rparr>],
      hooks = Map.empty, definitions = Map.empty, states = Map.empty, state_dirs = (\<lambda>_. Map.empty), owner_dirs = (\<lambda>_. Map.empty)\<rparr>"

definition sample_entry :: hook_object where
  "sample_entry = blank_hook\<lparr>sfCreateCode := Some sample_hook, sfHookNamespace := Some 2, sfHookOn := Some 0, sfHookApiVersion := Some 0\<rparr>"

definition create_sample :: set_tx where
  "create_sample = \<lparr>tx_account = 7, tx_id = 100, tx_hooks = Some [sample_entry]\<rparr>"

lemma sample_fields [simp]:
  "sfCreateCode sample_entry = Some sample_hook" "sfHookNamespace sample_entry = Some 2" "sfHookOn sample_entry = Some 0"
  "sfHookApiVersion sample_entry = Some 0" "sfHookHash sample_entry = None" "sfHookParameters sample_entry = None"
  "sfHookGrants sample_entry = None" "sfFlags sample_entry = None" "sample_entry \<noteq> blank_hook"
  by (simp_all add: sample_entry_def blank_hook_def)

lemma sample_size: "length sample_hook = 91"
  by (simp add: sample_hook_def)

lemma sample_operation: "inferOperation sample_entry = hsoCREATE"
  by (simp add: inferOperation_def sample_size)

lemma sample_valid: "validateHookSetEntry plain_env acc sample_entry = Some (Ok (Valid_Counts (16, 0)))"
  by (simp add: validateHookSetEntry_def validate_create_def sample_operation params_and_grants_def
      sample_hook_accepted plain_env_def Let_def)

lemma sample_preflight: "preflight plain_env True tesSUCCESS tesSUCCESS create_sample = Some (Ok tesSUCCESS)"
  by (simp add: preflight_def create_sample_def maxHookChainLength_def maxHookWasmSize_def sample_valid sample_size)

definition sample_state :: set_state where
  "sample_state =
     \<lparr>newHooks = [blank_hook\<lparr>sfHookHash := Some 91\<rparr>], viewed = Map.empty,
      slesToInsert = [(91, create_definition create_sample sample_entry sample_hook 2 0 (16, 0))],
      slesToUpdate = [], keyletsToDestroy = [], namespacesToDestroy = []\<rparr>"

lemma sample_slot:
  "set_slot plain_env create_sample None (Some sample_entry)
     \<lparr>newHooks = [], viewed = Map.empty, slesToInsert = [], slesToUpdate = [], keyletsToDestroy = [], namespacesToDestroy = []\<rparr> =
     Some (Ok (Inr sample_state))"
proof -
  have "sha512Half plain_env b = of_nat (length b)" for b
    by (simp add: plain_env_def)
  then show ?thesis
    by (simp add: set_slot_def slot_of_def sample_operation mark_namespace_def set_op_def create_hook_def sample_valid vl_def
        sample_size maxHookWasmSize_def set_grants_def push_hook_def sample_state_def Let_def)
qed

lemma sample_enact:
  "case enact plain_env 7 1 sample_state bare_ledger of Some (Ok (ter, L')) \<Rightarrow> ter = tesSUCCESS | _ \<Rightarrow> False"
  by code_simp

lemma sample_set:
  "\<exists>L'. setHook plain_env \<lparr>fee_base_drops = 10, reserve = 200, increment = 50\<rparr> 1000 create_sample bare_ledger = Some (Ok (tesSUCCESS, L'))"
proof -
  have "hooks_reserve (newHooks sample_state) = 1" "hooks_reserve [] = 0"
    by (simp_all add: hooks_reserve_def sample_state_def computeHookReserve_def blank_hook_def)
  moreover have "tx_account create_sample = 7" "tx_hooks create_sample = Some [sample_entry]"
    by (simp_all add: create_sample_def)
  ultimately show ?thesis
    using sample_enact
    by (auto simp: setHook_def slot_at_def sample_slot accountReserve_def bare_ledger_def Let_def split: option.splits outcome.splits)
qed

theorem setHook_keeps_types_witness:
  "\<exists>L'. setHook plain_env \<lparr>fee_base_drops = 10, reserve = 200, increment = 50\<rparr> 1000 create_sample bare_ledger = Some (Ok (tesSUCCESS, L')) \<and>
     hooks_wf plain_env L'"
proof -
  have "hooks_wf plain_env bare_ledger"
    by (simp add: hooks_wf_def bare_ledger_def)
  then show ?thesis
    using setHook_keeps_types [OF _ sample_preflight] sample_set by blast
qed

section \<open>The owner node\<close>

text \<open>
  The array that replaces another forgets on which page of the owner directory its entry is. Unless
  that is the root page, the last hook of the account cannot be deleted any more.
\<close>

lemma owner_node_lost:
  assumes "hooks L acc = Some sle" and "\<not> in_dir (owner_dirs L acc) 0 (hook_index env acc)"
    and "list_ex (\<lambda>x. sfHookHash x \<noteq> None) hs" and "\<not> list_ex (\<lambda>x. sfHookHash x \<noteq> None) blanks"
  shows "\<exists>L'. write_hook_array env acc hs L = Ok (tesSUCCESS, L') \<and> write_hook_array env acc blanks L' = Ok (tefBAD_LEDGER, L')"
  using assms by (auto simp: write_hook_array_def dirRemove_def in_dir_def split: option.splits)

end
