(* ===== verification/Hook_Tx.thy ===== *)
theory Hook_Tx
  imports Hook_Ledger
begin

text \<open>
  Transactions as the hook machinery reads them, which hooks a transaction type triggers, and
  \<^verbatim>\<open>getTransactionalStakeHolders\<close> of \<^verbatim>\<open>src/ripple/app/hook/impl/applyHook.cpp\<close>: the accounts other
  than the originator whose hooks run for a transaction, with the right to roll it back or without.

  A field of a transaction is an option; \<open>None\<close> is an absent field. The objects of the ledger that
  name a stake holder are maps from what their keylets are computed from. The search for a token in
  the pages of its owner is a parameter of the view.
\<close>

section \<open>Transactions\<close>

record emit_details =
  sfEmitGeneration :: "u32 option"
  sfEmitBurden :: "u64 option"
  sfEmitParentTxnID :: "uint256 option"
  sfEmitNonce :: "uint256 option"
  sfEmitCallback :: "account_id option"
  sfEmitHookHash :: "uint256 option"

text \<open>The fee is an amount of XRP, in drops, or of another currency.\<close>

datatype fee_amount = Drops int | Issued

record sttx =
  txID :: uint256
  txType :: u16
  txAccount :: "account_id option"
  txDestination :: "account_id option"
  txIssuer :: "account_id option"
  txOwner :: "account_id option"
  txRegularKey :: "account_id option"
  txAuthorize :: "account_id option"
  txLimitIssuer :: "account_id option"
  txNFTokenID :: "uint256 option"
  txNFTokenBuyOffer :: "uint256 option"
  txNFTokenSellOffer :: "uint256 option"
  txNFTokenOffers :: "uint256 list option"
  txOfferSequence :: "u32 option"
  txChannel :: "uint256 option"
  txCheckID :: "uint256 option"
  txSignerEntries :: "account_id option list"
  txSigners :: nat
  txSequence :: "u32 option"
  txSigningPubKey :: "bytes option"
  txSignature :: bool
  txFirstLedgerSequence :: "u32 option"
  txLastLedgerSequence :: "u32 option"
  txFee :: "fee_amount option"
  txEmitDetails :: "emit_details option"

definition isEmittedTxn :: "sttx \<Rightarrow> bool" where
  "isEmittedTxn tx \<longleftrightarrow> txEmitDetails tx \<noteq> None"

abbreviation (input) ttPAYMENT :: u16 where "ttPAYMENT \<equiv> 0"
abbreviation (input) ttESCROW_CREATE :: u16 where "ttESCROW_CREATE \<equiv> 1"
abbreviation (input) ttESCROW_FINISH :: u16 where "ttESCROW_FINISH \<equiv> 2"
abbreviation (input) ttACCOUNT_SET :: u16 where "ttACCOUNT_SET \<equiv> 3"
abbreviation (input) ttESCROW_CANCEL :: u16 where "ttESCROW_CANCEL \<equiv> 4"
abbreviation (input) ttREGULAR_KEY_SET :: u16 where "ttREGULAR_KEY_SET \<equiv> 5"
abbreviation (input) ttOFFER_CREATE :: u16 where "ttOFFER_CREATE \<equiv> 7"
abbreviation (input) ttOFFER_CANCEL :: u16 where "ttOFFER_CANCEL \<equiv> 8"
abbreviation (input) ttTICKET_CREATE :: u16 where "ttTICKET_CREATE \<equiv> 10"
abbreviation (input) ttSIGNER_LIST_SET :: u16 where "ttSIGNER_LIST_SET \<equiv> 12"
abbreviation (input) ttPAYCHAN_CREATE :: u16 where "ttPAYCHAN_CREATE \<equiv> 13"
abbreviation (input) ttPAYCHAN_FUND :: u16 where "ttPAYCHAN_FUND \<equiv> 14"
abbreviation (input) ttPAYCHAN_CLAIM :: u16 where "ttPAYCHAN_CLAIM \<equiv> 15"
abbreviation (input) ttCHECK_CREATE :: u16 where "ttCHECK_CREATE \<equiv> 16"
abbreviation (input) ttCHECK_CASH :: u16 where "ttCHECK_CASH \<equiv> 17"
abbreviation (input) ttCHECK_CANCEL :: u16 where "ttCHECK_CANCEL \<equiv> 18"
abbreviation (input) ttDEPOSIT_PREAUTH :: u16 where "ttDEPOSIT_PREAUTH \<equiv> 19"
abbreviation (input) ttTRUST_SET :: u16 where "ttTRUST_SET \<equiv> 20"
abbreviation (input) ttACCOUNT_DELETE :: u16 where "ttACCOUNT_DELETE \<equiv> 21"
abbreviation (input) ttHOOK_SET :: u16 where "ttHOOK_SET \<equiv> 22"
abbreviation (input) ttNFTOKEN_MINT :: u16 where "ttNFTOKEN_MINT \<equiv> 25"
abbreviation (input) ttNFTOKEN_BURN :: u16 where "ttNFTOKEN_BURN \<equiv> 26"
abbreviation (input) ttNFTOKEN_CREATE_OFFER :: u16 where "ttNFTOKEN_CREATE_OFFER \<equiv> 27"
abbreviation (input) ttNFTOKEN_CANCEL_OFFER :: u16 where "ttNFTOKEN_CANCEL_OFFER \<equiv> 28"
abbreviation (input) ttNFTOKEN_ACCEPT_OFFER :: u16 where "ttNFTOKEN_ACCEPT_OFFER \<equiv> 29"
abbreviation (input) ttINVOKE :: u16 where "ttINVOKE \<equiv> 99"
abbreviation (input) ttAMENDMENT :: u16 where "ttAMENDMENT \<equiv> 100"
abbreviation (input) ttFEE :: u16 where "ttFEE \<equiv> 101"
abbreviation (input) ttUNL_MODIFY :: u16 where "ttUNL_MODIFY \<equiv> 102"
abbreviation (input) ttEMIT_FAILURE :: u16 where "ttEMIT_FAILURE \<equiv> 103"

definition isPseudoTx :: "sttx \<Rightarrow> bool" where
  "isPseudoTx tx \<longleftrightarrow> txType tx \<in> {ttAMENDMENT, ttFEE, ttUNL_MODIFY, ttEMIT_FAILURE}"

section \<open>Which hooks fire\<close>

text \<open>
  A bit of \<open>hookOn\<close> stands for a transaction type and is active low, except that of
  \<^verbatim>\<open>ttHOOK_SET\<close>. A shift by the width of the word or more is undefined.
\<close>

definition canHook :: "u16 \<Rightarrow> u64 \<Rightarrow> bool outcome" where
  "canHook tt hookOn =
     (let hookOn = hookOn XOR push_bit (unat ttHOOK_SET) 1;
          hookOn = hookOn XOR 0xFFFFFFFFFFFFFFFF
      in if 64 \<le> unat tt then Undef
         else Ok (drop_bit (unat tt) hookOn AND 1 \<noteq> 0))"

section \<open>Stake holders\<close>

abbreviation (input) tshNONE :: u8 where "tshNONE \<equiv> 0"
abbreviation (input) tshROLLBACK :: u8 where "tshROLLBACK \<equiv> 1"
abbreviation (input) tshCOLLECT :: u8 where "tshCOLLECT \<equiv> 2"

definition TSHAllowances :: "(u16 \<times> u8) list" where
  "TSHAllowances =
     [(ttPAYMENT, tshROLLBACK), (ttESCROW_CREATE, tshROLLBACK), (ttESCROW_FINISH, tshROLLBACK),
      (ttACCOUNT_SET, tshNONE), (ttESCROW_CANCEL, tshCOLLECT), (ttREGULAR_KEY_SET, tshROLLBACK),
      (ttOFFER_CREATE, tshCOLLECT), (ttOFFER_CANCEL, tshNONE), (ttTICKET_CREATE, tshNONE),
      (ttSIGNER_LIST_SET, tshROLLBACK), (ttPAYCHAN_CREATE, tshROLLBACK), (ttPAYCHAN_FUND, tshCOLLECT),
      (ttPAYCHAN_CLAIM, tshCOLLECT), (ttCHECK_CREATE, tshROLLBACK), (ttCHECK_CASH, tshROLLBACK),
      (ttCHECK_CANCEL, tshCOLLECT), (ttDEPOSIT_PREAUTH, tshROLLBACK), (ttTRUST_SET, tshCOLLECT),
      (ttACCOUNT_DELETE, tshROLLBACK), (ttHOOK_SET, tshNONE), (ttNFTOKEN_MINT, tshROLLBACK),
      (ttNFTOKEN_BURN, tshCOLLECT), (ttNFTOKEN_CREATE_OFFER, tshROLLBACK),
      (ttNFTOKEN_CANCEL_OFFER, tshCOLLECT), (ttNFTOKEN_ACCEPT_OFFER, tshROLLBACK), (ttINVOKE, tshROLLBACK)]"

text \<open>An escrow, a payment channel or a check, and an offer for a token.\<close>

record two_party =
  ptyAccount :: account_id
  ptyDestination :: account_id

record nft_offer =
  offerOwner :: account_id
  offerDestination :: "account_id option"
  offerNFTokenID :: uint256

record tsh_view =
  featureHooks :: bool
  escrows :: "account_id \<times> u32 \<rightharpoonup> two_party"
  paychans :: "uint256 \<rightharpoonup> two_party"
  checks :: "uint256 \<rightharpoonup> two_party"
  nftoffers :: "uint256 \<rightharpoonup> nft_offer"
  findToken :: "account_id \<Rightarrow> uint256 \<Rightarrow> bool"

text \<open>The flags are the first two bytes of a token identifier, the issuer is the twenty from the fifth on.\<close>

definition nft_getFlags :: "uint256 \<Rightarrow> u16" where
  "nft_getFlags nid = ucast (drop_bit 240 nid)"

definition nft_getIssuer :: "uint256 \<Rightarrow> account_id" where
  "nft_getIssuer nid = ucast (drop_bit 64 nid)"

definition tfStrongTSH :: u32 where
  "tfStrongTSH = 0x8000"

definition issuerCanRollback :: "uint256 \<Rightarrow> bool" where
  "issuerCanRollback nid \<longleftrightarrow> ucast (nft_getFlags nid) AND tfStrongTSH \<noteq> 0"

type_synonym nomination = "account_id \<times> bool"

definition opt_nominate :: "account_id option \<Rightarrow> bool \<Rightarrow> nomination list" where
  "opt_nominate acc rb = (case acc of None \<Rightarrow> [] | Some a \<Rightarrow> [(a, rb)])"

definition offer_parties :: "nft_offer option \<Rightarrow> bool \<Rightarrow> nomination list" where
  "offer_parties off rb =
     (case off of None \<Rightarrow> [] | Some off \<Rightarrow> (offerOwner off, rb) # opt_nominate (offerDestination off) rb)"

definition two_parties :: "two_party option \<Rightarrow> bool \<Rightarrow> nomination list option" where
  "two_parties p rb = map_option (\<lambda>p. [(ptyAccount p, True), (ptyDestination p, rb)]) p"

text \<open>
  The calls of \<^verbatim>\<open>ADD_TSH\<close> in the order of the \<^verbatim>\<open>switch\<close>; \<open>None\<close> is \<^verbatim>\<open>return {}\<close>. Every such return
  comes before the first call.
\<close>

definition nft_nominations :: "tsh_view \<Rightarrow> sttx \<Rightarrow> account_id \<Rightarrow> bool \<Rightarrow> nomination list option" where
  "nft_nominations rv tx otxnAcc canRollback =
     (let tt = txType tx; getNFTOffer = (\<lambda>id. Option.bind id (nftoffers rv)) in
      if tt = ttNFTOKEN_MINT then Some (opt_nominate (txIssuer tx) canRollback)
      else if tt = ttNFTOKEN_BURN \<or> tt = ttNFTOKEN_CREATE_OFFER then
        (case txNFTokenID tx of
           None \<Rightarrow> None
         | Some nid \<Rightarrow>
             let owner = (case txOwner tx of Some a \<Rightarrow> a | None \<Rightarrow> otxnAcc) in
             if \<not> findToken rv owner nid then None
             else Some ((nft_getIssuer nid, issuerCanRollback nid) # opt_nominate (txOwner tx) canRollback))
      else if tt = ttNFTOKEN_ACCEPT_OFFER then
        let bo = getNFTOffer (txNFTokenBuyOffer tx); so = getNFTOffer (txNFTokenSellOffer tx) in
        (case (if bo \<noteq> None then bo else so) of
           None \<Rightarrow> None
         | Some off \<Rightarrow>
             let nid = offerNFTokenID off in
             Some ((nft_getIssuer nid, issuerCanRollback nid) #
               offer_parties bo canRollback @ offer_parties so canRollback))
      else
        map_option (\<lambda>ids. concat (map (\<lambda>id. case nftoffers rv id of
             None \<Rightarrow> []
           | Some off \<Rightarrow> offer_parties (Some off) canRollback @ [(nft_getIssuer (offerNFTokenID off), False)]) ids))
          (txNFTokenOffers tx))"

definition nominations :: "tsh_view \<Rightarrow> sttx \<Rightarrow> account_id \<Rightarrow> bool \<Rightarrow> nomination list option" where
  "nominations rv tx otxnAcc canRollback =
     (let tt = txType tx in
      if tt \<in> {ttNFTOKEN_MINT, ttNFTOKEN_BURN, ttNFTOKEN_CREATE_OFFER, ttNFTOKEN_ACCEPT_OFFER, ttNFTOKEN_CANCEL_OFFER}
      then nft_nominations rv tx otxnAcc canRollback
      else if tt \<in> {ttACCOUNT_SET, ttOFFER_CANCEL, ttTICKET_CREATE, ttHOOK_SET, ttOFFER_CREATE} then Some []
      else if tt = ttREGULAR_KEY_SET then map_option (\<lambda>a. [(a, canRollback)]) (txRegularKey tx)
      else if tt = ttDEPOSIT_PREAUTH then map_option (\<lambda>a. [(a, canRollback)]) (txAuthorize tx)
      else if tt \<in> {ttPAYMENT, ttESCROW_CREATE, ttCHECK_CREATE, ttACCOUNT_DELETE, ttPAYCHAN_CREATE, ttINVOKE}
      then Some (opt_nominate (txDestination tx) canRollback)
      else if tt = ttTRUST_SET then map_option (\<lambda>a. [(a, canRollback)]) (txLimitIssuer tx)
      else if tt \<in> {ttESCROW_CANCEL, ttESCROW_FINISH} then
        (case (txOwner tx, txOfferSequence tx) of
           (Some owner, Some seq) \<Rightarrow> two_parties (escrows rv (owner, seq)) canRollback
         | _ \<Rightarrow> None)
      else if tt \<in> {ttPAYCHAN_FUND, ttPAYCHAN_CLAIM} then
        two_parties (Option.bind (txChannel tx) (paychans rv)) canRollback
      else if tt \<in> {ttCHECK_CASH, ttCHECK_CANCEL} then
        two_parties (Option.bind (txCheckID tx) (checks rv)) canRollback
      else if tt = ttSIGNER_LIST_SET then
        Some (concat (map (\<lambda>e. opt_nominate e canRollback) (txSignerEntries tx)))
      else None)"

text \<open>\<^verbatim>\<open>ADD_TSH\<close>: the first nomination of an account gives its place, a later one may make it strong.\<close>

type_synonym tsh_entries = "(account_id, nat \<times> bool) omap"

definition add_tsh :: "account_id \<Rightarrow> nomination \<Rightarrow> tsh_entries \<times> nat \<Rightarrow> tsh_entries \<times> nat" where
  "add_tsh otxnAcc nom st =
     (let (acc, rb) = nom; (tshEntries, upto_no) = st in
      if acc = otxnAcc then st
      else case map_of tshEntries acc of
        Some (i, strong) \<Rightarrow> (if \<not> strong \<and> rb then omap_put acc (i, True) tshEntries else tshEntries, upto_no)
      | None \<Rightarrow> (omap_put acc (upto_no, rb) tshEntries, upto_no + 1))"

definition tsh_vector :: "tsh_entries \<Rightarrow> nomination list" where
  "tsh_vector tshEntries =
     fold (\<lambda>(a, e) ret. ret[fst e := (a, snd e)]) tshEntries (replicate (length tshEntries) (0, False))"

definition getTransactionalStakeHolders :: "tsh_view \<Rightarrow> sttx \<Rightarrow> nomination list" where
  "getTransactionalStakeHolders rv tx =
     (if \<not> featureHooks rv then []
      else case txAccount tx of
        None \<Rightarrow> []
      | Some otxnAcc \<Rightarrow>
          case map_of TSHAllowances (txType tx) of
            None \<Rightarrow> []
          | Some tsh \<Rightarrow>
              case nominations rv tx otxnAcc (tsh AND tshROLLBACK \<noteq> 0) of
                None \<Rightarrow> []
              | Some noms \<Rightarrow> tsh_vector (fst (fold (add_tsh otxnAcc) noms ([], 0))))"

end
