(* ===== verification/Hook_Tx_Props.thy ===== *)
theory Hook_Tx_Props
  imports Hook_Tx
begin

text \<open>
  The list of stake holders: every account that is nominated appears once, at the place of its
  first nomination, and may roll the transaction back exactly when one of its nominations says so.
\<close>

section \<open>The order of first nominations\<close>

definition nub :: "'a list \<Rightarrow> 'a list" where
  "nub xs = rev (remdups (rev xs))"

lemma nub_Nil [simp]: "nub [] = []"
  by (simp add: nub_def)

lemma nub_snoc [simp]: "nub (xs @ [x]) = (if x \<in> set xs then nub xs else nub xs @ [x])"
  by (simp add: nub_def)

lemma set_nub [simp]: "set (nub xs) = set xs"
  by (simp add: nub_def)

lemma distinct_nub [simp]: "distinct (nub xs)"
  by (simp add: nub_def)

text \<open>The stake holders that a list of nominations stands for.\<close>

definition stake_holders :: "account_id \<Rightarrow> nomination list \<Rightarrow> nomination list" where
  "stake_holders otxnAcc noms =
     map (\<lambda>a. (a, (a, True) \<in> set noms)) (nub (filter (\<lambda>a. a \<noteq> otxnAcc) (map fst noms)))"

section \<open>The entries collected\<close>

definition entries_inv :: "account_id \<Rightarrow> nomination list \<Rightarrow> tsh_entries \<times> nat \<Rightarrow> bool" where
  "entries_inv otxnAcc noms st \<longleftrightarrow>
     omap_ok (fst st) \<and> snd st = length (stake_holders otxnAcc noms) \<and>
     (\<forall>a i s. map_of (fst st) a = Some (i, s) \<longleftrightarrow>
        i < length (stake_holders otxnAcc noms) \<and> stake_holders otxnAcc noms ! i = (a, s))"

lemma stake_holders_snoc:
  "stake_holders o' (noms @ [(a, rb)]) =
     (if a = o' then stake_holders o' noms
      else if a \<in> fst ` set noms then map (\<lambda>(b, s). (b, s \<or> b = a \<and> rb)) (stake_holders o' noms)
      else stake_holders o' noms @ [(a, rb)])"
  by (auto simp: stake_holders_def image_iff)

lemma stake_holders_named: "a \<in> fst ` set (stake_holders o' noms) \<longleftrightarrow> a \<noteq> o' \<and> a \<in> fst ` set noms"
  by (force simp: stake_holders_def)

lemma distinct_stake_holders: "distinct (map fst (stake_holders o' noms))"
  by (simp add: stake_holders_def comp_def)

lemma entries_inv_step:
  assumes "entries_inv o' noms st"
  shows "entries_inv o' (noms @ [nom]) (add_tsh o' nom st)"
proof -
  obtain a rb m n where nom: "nom = (a, rb)" and st: "st = (m, n)"
    by (metis surj_pair)
  let ?ss = "stake_holders o' noms"
  have ok: "omap_ok m" and n: "n = length ?ss"
    and find: "\<And>a i s. map_of m a = Some (i, s) \<longleftrightarrow> i < length ?ss \<and> ?ss ! i = (a, s)"
    using assms by (simp_all add: entries_inv_def st)
  have once: "i = j" if "i < length ?ss" "j < length ?ss" "fst (?ss ! i) = fst (?ss ! j)" for i j
    using that distinct_stake_holders [of o' noms] by (simp add: distinct_conv_nth) metis
  show ?thesis
  proof (cases "a = o'")
    case True
    then show ?thesis
      using assms by (simp add: entries_inv_def stake_holders_snoc nom st add_tsh_def)
  next
    case other: False
    show ?thesis
    proof (cases "map_of m a")
      case None
      then have fresh: "?ss ! i \<noteq> (a, s)" if "i < length ?ss" for i s
        using find [of a i s] that by simp
      then have "a \<notin> fst ` set ?ss"
        by (metis (no_types, lifting) image_iff in_set_conv_nth prod.collapse)
      with other have "a \<notin> fst ` set noms"
        by (simp add: stake_holders_named)
      with other have snoc: "stake_holders o' (noms @ [nom]) = ?ss @ [(a, rb)]"
        by (simp add: stake_holders_snoc nom)
      have added: "add_tsh o' nom st = (omap_put a (n, rb) m, n + 1)"
        using other None by (simp add: nom st add_tsh_def)
      have "map_of (fst (add_tsh o' nom st)) b = Some (j, t) \<longleftrightarrow> j < Suc n \<and> (?ss @ [(a, rb)]) ! j = (b, t)" for b j t
        using find [of b j t] fresh [of j t] n unfolding added by (auto simp: omap_lookup_put nth_append less_Suc_eq)
      then show ?thesis
        using ok n unfolding entries_inv_def snoc by (simp add: added omap_ok_put)
    next
      case (Some e)
      obtain i s where e: "e = (i, s)"
        by (cases e)
      with Some find have i: "i < length ?ss" "?ss ! i = (a, s)"
        by simp_all
      then have "a \<in> fst ` set ?ss"
        by (metis fst_conv image_eqI nth_mem)
      with other have "a \<in> fst ` set noms"
        by (simp add: stake_holders_named)
      with other have snoc: "stake_holders o' (noms @ [nom]) = map (\<lambda>(b, s). (b, s \<or> b = a \<and> rb)) ?ss"
        by (simp add: stake_holders_snoc nom)
      have at: "fst (?ss ! j) = a \<longleftrightarrow> j = i" if "j < length ?ss" for j
        using once [OF that i(1)] i by auto
      have added: "add_tsh o' nom st = (if \<not> s \<and> rb then omap_put a (i, True) m else m, n)"
        using other Some by (simp add: nom st e add_tsh_def)
      have "map_of (fst (add_tsh o' nom st)) b = Some (j, t) \<longleftrightarrow>
          j < length ?ss \<and> (case ?ss ! j of (c, u) \<Rightarrow> (c, u \<or> c = a \<and> rb)) = (b, t)" for b j t
      proof (cases "b = a")
        case True
        have "map_of (fst (add_tsh o' nom st)) a = Some (j, t) \<longleftrightarrow> j = i \<and> t = (s \<or> rb)"
          using Some unfolding added by (auto simp: e omap_lookup_put)
        moreover have "j < length ?ss \<and> (case ?ss ! j of (c, u) \<Rightarrow> (c, u \<or> c = a \<and> rb)) = (a, t) \<longleftrightarrow> j = i \<and> t = (s \<or> rb)"
          using at [of j] i by (cases "?ss ! j") auto
        ultimately show ?thesis
          using True by simp
      next
        case False
        then have "map_of (fst (add_tsh o' nom st)) b = map_of m b"
          unfolding added by (simp add: omap_lookup_put)
        with False find [of b j t] show ?thesis
          by (cases "?ss ! j") auto
      qed
      then have "map_of (fst (add_tsh o' nom st)) b = Some (j, t) \<longleftrightarrow>
          j < length ?ss \<and> map (\<lambda>(b, s). (b, s \<or> b = a \<and> rb)) ?ss ! j = (b, t)" for b j t
        by (metis (no_types, lifting) nth_map)
      moreover have "omap_ok (fst (add_tsh o' nom st))" "snd (add_tsh o' nom st) = length ?ss"
        unfolding added using ok n by (simp_all add: omap_ok_put)
      ultimately show ?thesis
        unfolding entries_inv_def snoc length_map by blast
    qed
  qed
qed

lemma entries_inv_fold: "entries_inv o' noms (fold (add_tsh o') noms ([], 0))"
proof (induction noms rule: rev_induct)
  case Nil
  then show ?case
    by (simp add: entries_inv_def stake_holders_def omap_ok_def)
next
  case (snoc nom noms)
  then show ?case
    by (simp add: entries_inv_step)
qed

section \<open>The vector\<close>

lemma length_place [simp]:
  "length (fold (\<lambda>(a, e) ret. ret[fst e := (a, snd e)]) m ret) = length ret"
  by (induction m arbitrary: ret) (auto split: prod.splits)

lemma place_other:
  "i \<notin> (fst \<circ> snd) ` set m \<Longrightarrow> fold (\<lambda>(a, e) ret. ret[fst e := (a, snd e)]) m ret ! i = ret ! i"
  by (induction m arbitrary: ret) (auto split: prod.splits)

lemma place_nth:
  assumes "distinct (map (fst \<circ> snd) m)" and "(a, i, s) \<in> set m" and "i < length ret"
  shows "fold (\<lambda>(a, e) ret. ret[fst e := (a, snd e)]) m ret ! i = (a, s)"
  using assms
proof (induction m arbitrary: ret)
  case (Cons x m)
  obtain b j t where x: "x = (b, j, t)"
    by (metis surj_pair)
  show ?case
  proof (cases "x = (a, i, s)")
    case True
    with Cons.prems show ?thesis
      by (simp add: place_other comp_def)
  next
    case False
    then show ?thesis
      using Cons.IH [of "ret[j := (b, t)]"] Cons.prems by (auto simp: x)
  qed
qed simp

lemma tsh_vector_eq:
  assumes "entries_inv o' noms (m, n)"
  shows "tsh_vector m = stake_holders o' noms"
proof -
  let ?ss = "stake_holders o' noms"
  have ok: "distinct (map fst m)" and find: "\<And>a i s. map_of m a = Some (i, s) \<longleftrightarrow> i < length ?ss \<and> ?ss ! i = (a, s)"
    using assms by (simp_all add: entries_inv_def omap_ok_distinct)
  have member: "(a, i, s) \<in> set m \<longleftrightarrow> i < length ?ss \<and> ?ss ! i = (a, s)" for a i s
    using map_of_eq_Some_iff [OF ok, of a "(i, s)"] find [of a i s] by simp
  have inj: "inj_on (fst \<circ> snd) (set m)"
    by (force simp: inj_on_def member)
  have places: "(fst \<circ> snd) ` set m = {..<length ?ss}"
  proof (intro equalityI subsetI)
    fix i assume "i \<in> {..<length ?ss}"
    then have "(fst (?ss ! i), i, snd (?ss ! i)) \<in> set m"
      by (simp add: member)
    then show "i \<in> (fst \<circ> snd) ` set m"
      by (metis comp_apply fst_conv image_eqI snd_conv)
  qed (auto simp: member)
  have "length m = card (set m)"
    using ok by (metis distinct_card distinct_map)
  also have "\<dots> = length ?ss"
    using card_image [OF inj] places by simp
  finally have len: "length m = length ?ss" .
  moreover have "distinct (map (fst \<circ> snd) m)"
    using ok inj by (simp add: distinct_map)
  ultimately have "tsh_vector m ! i = ?ss ! i" if "i < length ?ss" for i
    using that place_nth [of m "fst (?ss ! i)" i "snd (?ss ! i)"] by (simp add: tsh_vector_def member)
  then show ?thesis
    by (intro nth_equalityI) (simp_all add: tsh_vector_def len)
qed

lemma tsh_vector_nominated: "tsh_vector (fst (fold (add_tsh o') noms ([], 0))) = stake_holders o' noms"
  using tsh_vector_eq [of o' noms] entries_inv_fold [of o' noms] by (metis prod.collapse)

lemma stake_holders_distinct: "distinct (map fst (getTransactionalStakeHolders rv tx))"
  by (simp add: getTransactionalStakeHolders_def tsh_vector_nominated distinct_stake_holders split: option.split)

text \<open>
  C16: the stake holders of a transaction are exactly the accounts nominated for its type, other than
  the originator, each once and in the order of the first nominations, with the right to roll back
  if any nomination of the account gives it; there are none when hooks are not enabled, the type has
  no entry in the table of allowances, or the objects named by the transaction are missing.
\<close>

theorem stake_holders_exact:
  "getTransactionalStakeHolders rv tx =
     (case (if featureHooks rv then txAccount tx else None, map_of TSHAllowances (txType tx)) of
        (Some otxnAcc, Some tsh) \<Rightarrow>
          (case nominations rv tx otxnAcc (tsh AND tshROLLBACK \<noteq> 0) of
             None \<Rightarrow> []
           | Some noms \<Rightarrow> map (\<lambda>a. (a, (a, True) \<in> set noms)) (nub (filter (\<lambda>a. a \<noteq> otxnAcc) (map fst noms))))
      | _ \<Rightarrow> [])"
  by (simp add: getTransactionalStakeHolders_def tsh_vector_nominated stake_holders_def split: option.split)

end
