(* ===== verification/Hook_Chain.thy ===== *)
theory Hook_Chain
  imports Hook_Tx Hook_State Set_Hook
begin

text \<open>
  The chains of hooks a transaction runs and what they cost: \<^verbatim>\<open>calculateHookChainFee\<close>,
  \<^verbatim>\<open>calculateBaseFee\<close>, \<^verbatim>\<open>executeHookChain\<close>, \<^verbatim>\<open>doTSH\<close> and \<^verbatim>\<open>doAgainAsWeak\<close> of
  \<^verbatim>\<open>src/ripple/app/tx/impl/Transactor.cpp\<close>, and the part of \<^verbatim>\<open>Transactor::operator()\<close> that runs the
  strong hooks.

  The execution of one hook, \<^verbatim>\<open>hook::apply\<close>, runs a web assembly machine; it is the parameter
  \<open>run_hook\<close>, which yields what the transactor reads of a \<^verbatim>\<open>HookResult\<close> and the cache of hook state
  that the executions share. It does not write to the ledger, as \<^verbatim>\<open>hook::apply\<close> does not. An exception
  it throws inside \<^verbatim>\<open>executeHookChain\<close> is an outcome; the metadata handed to weak hooks is part of the
  parameter. The counter \<^verbatim>\<open>executedHookCount_\<close>, which nothing reads, is left out.
\<close>

section \<open>Executions\<close>

type_synonym override_map = "(uint256, (bytes, bytes) omap) omap"

text \<open>The arguments of \<^verbatim>\<open>hook::apply\<close>.\<close>

record hook_call =
  callSetTxnID :: uint256
  callHash :: uint256
  callNamespace :: uint256
  callWasm :: bytes
  callParams :: "(bytes, bytes) omap"
  callOverrides :: override_map
  callAccount :: account_id
  callHasCallback :: bool
  callIsCallback :: bool
  callIsStrong :: bool
  callWasmParam :: u32
  callPosition :: u8

record hook_result =
  exitType :: ExitType
  hookSkips :: "uint256 list"
  hookParamOverrides :: override_map
  executeAgainAsWeak :: bool

type_synonym 's run_hook = "ledger \<Rightarrow> hook_call \<Rightarrow> 's \<Rightarrow> (hook_result \<times> 's) outcome"

text \<open>A result keeps the account and the hash it was made for, so it goes with its call.\<close>

type_synonym execution = "hook_call \<times> hook_result"

section \<open>Fees\<close>

definition hook_on :: "hook_object \<Rightarrow> hook_definition \<Rightarrow> u64" where
  "hook_on hookObj hookDef = (case sfHookOn hookObj of Some on \<Rightarrow> on | None \<Rightarrow> defHookOn hookDef)"

definition hook_flags :: "hook_object \<Rightarrow> hook_definition \<Rightarrow> u32" where
  "hook_flags hookObj hookDef = (case sfFlags hookObj of Some f \<Rightarrow> f | None \<Rightarrow> defFlags hookDef)"

definition fee_units :: "int \<Rightarrow> u64" where
  "fee_units drops = ucast (word_of_int drops :: u32)"

fun chain_fee_loop :: "ledger \<Rightarrow> u16 \<Rightarrow> bool \<Rightarrow> hook_object list \<Rightarrow> u64 \<Rightarrow> u64 outcome" where
  "chain_fee_loop L tt collectCallsOnly [] fee = Ok fee"
| "chain_fee_loop L tt collectCallsOnly (hookObj # hs) fee =
     (case sfHookHash hookObj of
        None \<Rightarrow> chain_fee_loop L tt collectCallsOnly hs fee
      | Some hash \<Rightarrow>
          (case definitions L hash of
             None \<Rightarrow> chain_fee_loop L tt collectCallsOnly hs fee
           | Some hookDef \<Rightarrow>
               obind (canHook tt (hook_on hookObj hookDef)) (\<lambda>can.
               chain_fee_loop L tt collectCallsOnly hs
                 (if can \<and> (\<not> collectCallsOnly \<or> has_flag (hook_flags hookObj hookDef) hsfCOLLECT)
                  then fee + fee_units (sfFee hookDef) else fee))))"

definition calculateHookChainFee :: "ledger \<Rightarrow> u16 \<Rightarrow> account_id \<Rightarrow> bool \<Rightarrow> u64 outcome" where
  "calculateHookChainFee L tt acc collectCallsOnly =
     (case hooks L acc of
        None \<Rightarrow> Ok 0
      | Some hookSLE \<Rightarrow> chain_fee_loop L tt collectCallsOnly (sfHooks hookSLE) 0)"

fun tsh_fee_loop :: "ledger \<Rightarrow> u16 \<Rightarrow> nomination list \<Rightarrow> u64 \<Rightarrow> u64 outcome" where
  "tsh_fee_loop L tt [] fee = Ok fee"
| "tsh_fee_loop L tt ((tshAcc, canRollback) # ts) fee =
     (if canRollback then
        obind (calculateHookChainFee L tt tshAcc False) (\<lambda>f. tsh_fee_loop L tt ts (fee + f))
      else tsh_fee_loop L tt ts fee)"

text \<open>
  The hook execution fee and the burden of \<^verbatim>\<open>calculateBaseFee\<close>, for a view with hooks enabled.
  Absent numbers read as 0; a transaction without an account reads as the zero account.
\<close>

definition hook_execution_fee :: "tsh_view \<Rightarrow> ledger \<Rightarrow> sttx \<Rightarrow> (u64 \<times> u64) outcome" where
  "hook_execution_fee rv L tx =
     obind
       (case txEmitDetails tx of
          Some emitDetails \<Rightarrow>
            (let callbackHookHash = (case sfEmitHookHash emitDetails of Some h \<Rightarrow> h | None \<Rightarrow> 0);
                 burden = (case sfEmitBurden emitDetails of Some b \<Rightarrow> b | None \<Rightarrow> 0)
             in case Option.bind (definitions L callbackHookHash) sfHookCallbackFee of
                  None \<Rightarrow> Ok (0, burden)
                | Some cbakFee \<Rightarrow> Ok (fee_units cbakFee, burden))
        | None \<Rightarrow>
            obind (calculateHookChainFee L (txType tx) (case txAccount tx of Some a \<Rightarrow> a | None \<Rightarrow> 0) False) (\<lambda>fee.
            Ok (fee, 1)))
       (\<lambda>(fee, burden).
        obind (tsh_fee_loop L (txType tx) (getTransactionalStakeHolders rv tx) fee) (\<lambda>fee.
        Ok (fee, burden)))"

definition calculateBaseFee :: "tsh_view \<Rightarrow> ledger \<Rightarrow> u32 \<Rightarrow> sttx \<Rightarrow> u64 outcome" where
  "calculateBaseFee rv L units tx =
     (let baseFee = ucast units; signerCount = of_nat (txSigners tx) in
      if featureHooks rv then
        if txType tx = ttEMIT_FAILURE then Ok 0
        else obind (hook_execution_fee rv L tx) (\<lambda>(hookExecutionFee, burden).
          Ok (baseFee * burden + signerCount * baseFee + hookExecutionFee))
      else Ok (baseFee * 1 + signerCount * baseFee + 0))"

section \<open>One chain\<close>

record 's chain_state =
  chainSkips :: "uint256 list"
  chainOverrides :: override_map
  chainResults :: "execution list"
  chainMap :: 's

definition gather_overrides :: "override_map \<Rightarrow> override_map \<Rightarrow> override_map" where
  "gather_overrides resultOverrides overrides =
     fold (\<lambda>(hash, params) m.
        let old = (case map_of m hash of None \<Rightarrow> [] | Some ov \<Rightarrow> ov) in
        omap_put hash (fold (\<lambda>(k, v). omap_put k v) params old) m) resultOverrides overrides"

definition chain_call ::
  "hook_definition \<Rightarrow> hook_object \<Rightarrow> uint256 \<Rightarrow> override_map \<Rightarrow> account_id \<Rightarrow> bool \<Rightarrow> bool \<Rightarrow> bool \<Rightarrow> u32 \<Rightarrow> u8 \<Rightarrow> hook_call" where
  "chain_call hookDef hookObj hash overrides account hasCallback isCallback strong wasmParam pos =
     \<lparr>callSetTxnID = sfHookSetTxnID hookDef, callHash = hash,
      callNamespace = (case sfHookNamespace hookObj of Some ns \<Rightarrow> ns | None \<Rightarrow> defHookNamespace hookDef),
      callWasm = defCreateCode hookDef, callParams = gatherHookParameters hookDef hookObj [],
      callOverrides = overrides, callAccount = account, callHasCallback = hasCallback,
      callIsCallback = isCallback, callIsStrong = strong, callWasmParam = wasmParam, callPosition = pos\<rparr>"

text \<open>The body of the loop for a hook that fires: the result says whether the chain goes on.\<close>

definition execute_hook ::
  "'s run_hook \<Rightarrow> ledger \<Rightarrow> hook_call \<Rightarrow> 's chain_state \<Rightarrow> (TER \<times> 's chain_state) outcome" where
  "execute_hook run_hook L call st =
     obind (run_hook L call (chainMap st)) (\<lambda>(r, m).
     let st = st\<lparr>chainResults := chainResults st @ [(call, r)], chainMap := m\<rparr> in
     if exitType r \<noteq> ACCEPT then Ok (if exitType r = WASM_ERROR then temMALFORMED else tecHOOK_REJECTED, st)
     else Ok (tesSUCCESS,
       st\<lparr>chainSkips := fold insort_insert (hookSkips r) (chainSkips st),
         chainOverrides := gather_overrides (hookParamOverrides r) (chainOverrides st)\<rparr>))"

fun chain_loop ::
  "'s run_hook \<Rightarrow> ledger \<Rightarrow> u16 \<Rightarrow> account_id \<Rightarrow> bool \<Rightarrow> hook_object list \<Rightarrow> u8 \<Rightarrow> 's chain_state
     \<Rightarrow> (TER \<times> 's chain_state) outcome" where
  "chain_loop run_hook L tt account strong [] hook_no st = Ok (tesSUCCESS, st)"
| "chain_loop run_hook L tt account strong (hookObj # hs) hook_no st =
     (let hook_no = hook_no + 1; skip = chain_loop run_hook L tt account strong hs hook_no st in
      case sfHookHash hookObj of
        None \<Rightarrow> skip
      | Some hash \<Rightarrow>
          if hash \<in> set (chainSkips st) then skip
          else (case definitions L hash of
            None \<Rightarrow> skip
          | Some hookDef \<Rightarrow>
              obind (canHook tt (hook_on hookObj hookDef)) (\<lambda>can.
              if \<not> can then skip
              else if \<not> strong \<and> \<not> has_flag (hook_flags hookObj hookDef) hsfCOLLECT then skip
              else
                obind (execute_hook run_hook L
                  (chain_call hookDef hookObj hash (chainOverrides st) account (sfHookCallbackFee hookDef \<noteq> None)
                    False strong (if strong then 0 else 1) (hook_no - 1)) st) (\<lambda>(ter, st).
                if ter \<noteq> tesSUCCESS then Ok (ter, st)
                else chain_loop run_hook L tt account strong hs hook_no st))))"

text \<open>The skips and the overrides are local to the call; the results and the cache are the caller's.\<close>

definition executeHookChain ::
  "'s run_hook \<Rightarrow> ledger \<Rightarrow> u16 \<Rightarrow> hook_array \<Rightarrow> 's \<Rightarrow> execution list \<Rightarrow> account_id \<Rightarrow> bool
     \<Rightarrow> (TER \<times> execution list \<times> 's) outcome" where
  "executeHookChain run_hook L tt hookSLE m results account strong =
     obind (chain_loop run_hook L tt account strong (sfHooks hookSLE) 0
         \<lparr>chainSkips = [], chainOverrides = [], chainResults = results, chainMap = m\<rparr>) (\<lambda>(ter, st).
     Ok (ter, chainResults st, chainMap st))"

section \<open>Stake holders\<close>

definition lsfTshCollect :: u32 where
  "lsfTshCollect = 0x02000000"

definition cMaxNativeN :: int where
  "cMaxNativeN = 100000000000000000"

text \<open>
  \<^verbatim>\<open>Fees::toDrops\<close> with \<^verbatim>\<open>mulDiv\<close>: two shortcuts, then the product in 128 bits. The division throws
  if the reference fee is 0 units.
\<close>

definition toDrops :: "fees \<Rightarrow> u32 \<Rightarrow> u64 \<Rightarrow> int outcome" where
  "toDrops f units fee =
     (let base = fee_base_drops f; cap = (\<lambda>q. if 2 ^ 63 - 1 < q then cMaxNativeN else q) in
      if base < 0 then Ok cMaxNativeN
      else if uint fee = uint units then Ok base
      else if base = uint units then Ok (cap (uint fee))
      else if units = 0 then Throw overflow_error
      else Ok (cap (uint fee * base div uint units)))"

text \<open>What is fixed while a transaction is applied: fees, reference fee units and the flags of the account roots.\<close>

record tsh_env =
  tshFees :: fees
  tshUnits :: u32
  acctFlags :: "account_id \<Rightarrow> u32"

text \<open>
  The block that makes a stake holder pay: \<open>None\<close> is \<^verbatim>\<open>continue\<close>, otherwise the ledger after it and
  the drops destroyed. A strong stake holder pays nothing, the transaction has paid for it.
\<close>

definition collect_fee :: "tsh_env \<Rightarrow> u16 \<Rightarrow> account_id \<Rightarrow> bool \<Rightarrow> ledger \<Rightarrow> (ledger \<times> int) option outcome" where
  "collect_fee env tt acc canRollback L =
     (case accounts L acc of
        None \<Rightarrow> Ok None
      | Some tshAcc \<Rightarrow>
          obind (calculateHookChainFee L tt acc (\<not> canRollback)) (\<lambda>tshFee.
          if tshFee = 0 then Ok None
          else
            obind (toDrops (tshFees env) (tshUnits env) tshFee) (\<lambda>tshFeeDrops.
            let priorBalance = sfBalance tshAcc in
            if canRollback then Ok (Some (L, 0))
            else if \<not> has_flag (acctFlags env acc) lsfTshCollect then Ok None
            else if priorBalance < tshFeeDrops + accountReserve (tshFees env) (sfOwnerCount tshAcc) then Ok None
            else if 0 < tshFeeDrops then
              Ok (Some (L\<lparr>accounts := (accounts L)(acc \<mapsto> tshAcc\<lparr>sfBalance := priorBalance - tshFeeDrops\<rparr>)\<rparr>, tshFeeDrops))
            else Ok (Some (L, 0)))))"

record 's tsh_state =
  tshLedger :: ledger
  destroyedXRP :: int
  tshResults :: "execution list"
  tshMap :: 's

text \<open>\<open>originator\<close> is \<^verbatim>\<open>account_\<close>; the list of accounts is \<^verbatim>\<open>alreadyProcessed\<close>.\<close>

fun tsh_loop ::
  "'s run_hook \<Rightarrow> tsh_env \<Rightarrow> u16 \<Rightarrow> account_id \<Rightarrow> bool \<Rightarrow> nomination list \<Rightarrow> account_id list \<Rightarrow> 's tsh_state
     \<Rightarrow> (TER \<times> 's tsh_state) outcome" where
  "tsh_loop run_hook env tt originator strong [] already st = Ok (tesSUCCESS, st)"
| "tsh_loop run_hook env tt originator strong ((acc, canRollback) # ts) already st =
     (if acc = originator \<or> acc \<in> set already then tsh_loop run_hook env tt originator strong ts already st
      else
        let skip = tsh_loop run_hook env tt originator strong ts (acc # already) st in
        if canRollback \<noteq> strong then skip
        else (case hooks (tshLedger st) acc of
          None \<Rightarrow> skip
        | Some tshHook \<Rightarrow>
            obind (collect_fee env tt acc canRollback (tshLedger st)) (\<lambda>paid. case paid of
              None \<Rightarrow> skip
            | Some (L, drops) \<Rightarrow>
                obind (executeHookChain run_hook L tt tshHook (tshMap st) (tshResults st) acc strong) (\<lambda>(tshResult, results, m).
                let st = st\<lparr>tshLedger := L, destroyedXRP := destroyedXRP st + drops, tshResults := results, tshMap := m\<rparr> in
                if canRollback \<and> tshResult \<noteq> tesSUCCESS then Ok (tshResult, st)
                else tsh_loop run_hook env tt originator strong ts (acc # already) st))))"

definition doTSH ::
  "'s run_hook \<Rightarrow> tsh_env \<Rightarrow> tsh_view \<Rightarrow> sttx \<Rightarrow> account_id \<Rightarrow> account_id list \<Rightarrow> bool \<Rightarrow> 's tsh_state
     \<Rightarrow> (TER \<times> 's tsh_state) outcome" where
  "doTSH run_hook env rv tx originator additionalWeakTSH strong st =
     (let tsh = getTransactionalStakeHolders rv tx;
          tsh = (if strong then tsh else tsh @ map (\<lambda>a. (a, False)) additionalWeakTSH)
      in tsh_loop run_hook env (txType tx) originator strong tsh [] st)"

text \<open>Hooks that asked to run again; an exception is caught and the loop goes on.\<close>

fun again_loop ::
  "'s run_hook \<Rightarrow> ledger \<Rightarrow> account_id \<Rightarrow> uint256 list \<Rightarrow> hook_object list \<Rightarrow> u8 \<Rightarrow> execution list \<times> 's \<Rightarrow> (execution list \<times> 's) outcome" where
  "again_loop run_hook L acc hookHashes [] hook_no st = Ok st"
| "again_loop run_hook L acc hookHashes (hookObj # hs) hook_no st =
     (let hook_no = hook_no + 1; skip = again_loop run_hook L acc hookHashes hs hook_no st in
      case sfHookHash hookObj of
        None \<Rightarrow> skip
      | Some hash \<Rightarrow>
          if hash \<notin> set hookHashes then skip
          else (case definitions L hash of
            None \<Rightarrow> skip
          | Some hookDef \<Rightarrow>
              let call = chain_call hookDef hookObj hash [] acc (sfHookCallbackFee hookDef \<noteq> None) False False 2 (hook_no - 1)
              in (case run_hook L call (snd st) of
                    Ok (r, m) \<Rightarrow> again_loop run_hook L acc hookHashes hs hook_no (fst st @ [(call, r)], m)
                  | Throw e \<Rightarrow> skip
                  | Reject e \<Rightarrow> Reject e
                  | Undef \<Rightarrow> Undef)))"

definition doAgainAsWeak ::
  "'s run_hook \<Rightarrow> ledger \<Rightarrow> account_id \<Rightarrow> uint256 list \<Rightarrow> execution list \<times> 's \<Rightarrow> (execution list \<times> 's) outcome" where
  "doAgainAsWeak run_hook L hookAccountID hookHashes st =
     (case hooks L hookAccountID of
        None \<Rightarrow> Ok st
      | Some hooksArray \<Rightarrow> again_loop run_hook L hookAccountID hookHashes (sfHooks hooksArray) 0 st)"

section \<open>Before the transaction is applied\<close>

text \<open>
  The hooks that can reject the transaction: the chain of the originator, unless the transaction was
  itself emitted by a hook, and those of the strong stake holders. \<open>preclaimResult\<close> is the result so far.
\<close>

definition strong_hooks ::
  "'s run_hook \<Rightarrow> tsh_env \<Rightarrow> tsh_view \<Rightarrow> sttx \<Rightarrow> TER \<Rightarrow> ledger \<Rightarrow> 's \<Rightarrow> (TER \<times> 's tsh_state) outcome" where
  "strong_hooks run_hook env rv tx preclaimResult L m =
     (let accountID = (case txAccount tx of Some a \<Rightarrow> a | None \<Rightarrow> 0) in
      obind
        (case hooks L accountID of
           None \<Rightarrow> Ok (preclaimResult, [], m)
         | Some hooksOriginator \<Rightarrow>
             if isEmittedTxn tx then Ok (preclaimResult, [], m)
             else executeHookChain run_hook L (txType tx) hooksOriginator m [] accountID True)
        (\<lambda>(result, results, m).
         let st = \<lparr>tshLedger = L, destroyedXRP = 0, tshResults = results, tshMap = m\<rparr> in
         if result = tesSUCCESS then doTSH run_hook env rv tx accountID [] True st else Ok (result, st)))"

end
