(* ===== verification/Hook_Chain_Props.thy ===== *)
theory Hook_Chain_Props
  imports Hook_Chain Hook_Tx_Props
begin

text \<open>
  Hooks run only if they were paid for. Whatever the hooks do, the executions of a chain are among
  those that \<^verbatim>\<open>calculateHookChainFee\<close> counted, the strong hooks of a transaction are covered by the
  base fee the transaction has to pay, and a weak stake holder pays for its own hooks from what it
  has above its reserve.
\<close>

section \<open>One chain\<close>

text \<open>What \<^verbatim>\<open>calculateHookChainFee\<close> adds for a hook.\<close>

definition hook_charge :: "ledger \<Rightarrow> u16 \<Rightarrow> bool \<Rightarrow> hook_object \<Rightarrow> nat" where
  "hook_charge L tt collectCallsOnly hookObj =
     (case Option.bind (sfHookHash hookObj) (definitions L) of
        None \<Rightarrow> 0
      | Some hookDef \<Rightarrow>
          if canHook tt (hook_on hookObj hookDef) = Ok True \<and>
            (\<not> collectCallsOnly \<or> has_flag (hook_flags hookObj hookDef) hsfCOLLECT)
          then unat (fee_units (sfFee hookDef)) else 0)"

text \<open>The fee of the hook that was executed.\<close>

definition execution_fee :: "ledger \<Rightarrow> execution \<Rightarrow> nat" where
  "execution_fee L x = (case definitions L (callHash (fst x)) of None \<Rightarrow> 0 | Some d \<Rightarrow> unat (fee_units (sfFee d)))"

abbreviation fees_of :: "ledger \<Rightarrow> execution list \<Rightarrow> nat" where
  "fees_of L xs \<equiv> sum_list (map (execution_fee L) xs)"

abbreviation charges :: "ledger \<Rightarrow> u16 \<Rightarrow> bool \<Rightarrow> hook_object list \<Rightarrow> nat" where
  "charges L tt c hs \<equiv> sum_list (map (hook_charge L tt c) hs)"

lemma fee_units_less: "unat (fee_units d) < 2 ^ 32"
  using unsigned_less [of "word_of_int d :: u32", where ?'a = nat] by (simp add: fee_units_def)

lemma hook_charge_le: "hook_charge L tt c h \<le> 2 ^ 32 - 1"
proof -
  have "unat (fee_units d) \<le> 2 ^ 32 - 1" for d
    using fee_units_less [of d] by simp
  then show ?thesis
    by (simp add: hook_charge_def split: option.split)
qed

lemma charges_le: "charges L tt c hs \<le> length hs * (2 ^ 32 - 1)"
  using hook_charge_le [of L tt c] by (induction hs) (fastforce intro: add_mono)+

lemma unat_add_small: "unat (a :: u64) + unat b < 2 ^ 64 \<Longrightarrow> unat (a + b) = unat a + unat b"
  by (simp add: unat_word_ariths)

lemma chain_fee_loop_sum:
  "chain_fee_loop L tt c hs fee = Ok fee' \<Longrightarrow> unat fee + charges L tt c hs < 2 ^ 64 \<Longrightarrow>
     unat fee' = unat fee + charges L tt c hs"
proof (induction hs arbitrary: fee)
  case (Cons h hs)
  show ?case
  proof (cases "Option.bind (sfHookHash h) (definitions L)")
    case None
    then have "hook_charge L tt c h = 0" "chain_fee_loop L tt c (h # hs) fee = chain_fee_loop L tt c hs fee"
      by (auto simp: hook_charge_def split: option.splits)
    with Cons show ?thesis
      by simp
  next
    case (Some d)
    then obtain can where can: "canHook tt (hook_on h d) = Ok can"
      and rest: "chain_fee_loop L tt c hs (if can \<and> (\<not> c \<or> has_flag (hook_flags h d) hsfCOLLECT)
        then fee + fee_units (sfFee d) else fee) = Ok fee'"
      using Cons.prems(1) by (auto simp: outcome_simps split: option.splits)
    define counts where "counts \<longleftrightarrow> can \<and> (\<not> c \<or> has_flag (hook_flags h d) hsfCOLLECT)"
    have charge: "hook_charge L tt c h = (if counts then unat (fee_units (sfFee d)) else 0)"
      using Some can by (simp add: hook_charge_def counts_def)
    show ?thesis
      using Cons.IH [OF rest] Cons.prems(2) unfolding list.map sum_list.Cons charge counts_def [symmetric]
      by (cases counts) (simp_all add: unat_add_small)
  qed
qed simp

text \<open>The executions of a chain that its loop adds to the results.\<close>

lemma execute_hook_Ok:
  assumes "execute_hook run_hook L call st = Ok (ter, st')"
  obtains r where "chainResults st' = chainResults st @ [(call, r)]"
  using assms by (auto simp: execute_hook_def Let_def outcome_simps split: if_splits)

definition runs_for :: "account_id \<Rightarrow> bool \<Rightarrow> execution \<Rightarrow> bool" where
  "runs_for acc strong x \<longleftrightarrow> callAccount (fst x) = acc \<and> callIsStrong (fst x) = strong"

lemma chain_loop_cases [consumes 1, case_names skip run]:
  assumes "chain_loop run_hook L tt acc strong (h # hs) no st = Ok (ter, st')"
    and "chain_loop run_hook L tt acc strong hs (no + 1) st = Ok (ter, st') \<Longrightarrow> P"
    and "\<And>hash d st1 t r pos ov cb. sfHookHash h = Some hash \<Longrightarrow> definitions L hash = Some d \<Longrightarrow>
      canHook tt (hook_on h d) = Ok True \<Longrightarrow> strong \<or> has_flag (hook_flags h d) hsfCOLLECT \<Longrightarrow>
      chainResults st1 = chainResults st @ [(chain_call d h hash ov acc cb False strong (if strong then 0 else 1) pos, r)] \<Longrightarrow>
      (if t \<noteq> tesSUCCESS then Ok (t, st1) else chain_loop run_hook L tt acc strong hs (no + 1) st1) = Ok (ter, st') \<Longrightarrow> P"
  shows P
proof (cases "sfHookHash h")
  case None
  with assms(1,2) show P
    by simp
next
  case hash: (Some hash)
  show P
  proof (cases "hash \<in> set (chainSkips st) \<or> definitions L hash = None")
    case True
    with hash assms(1,2) show P
      by (auto simp: Let_def split: if_splits)
  next
    case False
    then obtain d where d: "definitions L hash = Some d" and skips: "hash \<notin> set (chainSkips st)"
      by auto
    with hash assms(1) obtain can where can: "canHook tt (hook_on h d) = Ok can"
      by (auto simp: Let_def outcome_simps)
    show P
    proof (cases "can \<and> (strong \<or> has_flag (hook_flags h d) hsfCOLLECT)")
      case True
      let ?call = "chain_call d h hash (chainOverrides st) acc (sfHookCallbackFee d \<noteq> None) False strong (if strong then 0 else 1) (no + 1 - 1)"
      have "obind (execute_hook run_hook L ?call st) (\<lambda>(t, st). if t \<noteq> tesSUCCESS then Ok (t, st)
          else chain_loop run_hook L tt acc strong hs (no + 1) st) = Ok (ter, st')"
        using True hash d skips can assms(1) by (cases strong) (simp_all add: Let_def cong: if_cong)
      then obtain t st1 where exec: "execute_hook run_hook L ?call st = Ok (t, st1)"
        and rest: "(if t \<noteq> tesSUCCESS then Ok (t, st1) else chain_loop run_hook L tt acc strong hs (no + 1) st1) = Ok (ter, st')"
        by (auto simp: outcome_simps)
      from exec obtain r where "chainResults st1 = chainResults st @ [(?call, r)]"
        by (rule execute_hook_Ok)
      from assms(3) [OF hash d _ _ this rest] True can show P
        by simp
    next
      case False
      with hash d skips can assms(1) have "chain_loop run_hook L tt acc strong hs (no + 1) st = Ok (ter, st')"
        by (auto simp: Let_def cong: if_cong)
      with assms(2) show P .
    qed
  qed
qed

lemma chain_loop_charged:
  "chain_loop run_hook L tt acc strong hs no st = Ok (ter, st') \<Longrightarrow>
     \<exists>xs. chainResults st' = chainResults st @ xs \<and> fees_of L xs \<le> charges L tt (\<not> strong) hs \<and> list_all (runs_for acc strong) xs"
proof (induction hs arbitrary: no st)
  case (Cons h hs)
  let ?rest = "chain_loop run_hook L tt acc strong hs (no + 1)"
  from Cons.prems show ?case
  proof (cases rule: chain_loop_cases)
    case skip
    from Cons.IH [OF this] show ?thesis
      by (auto intro: le_trans)
  next
    case (run hash d st1 t r pos ov cb)
    let ?x = "(chain_call d h hash ov acc cb False strong (if strong then 0 else 1) pos, r)"
    have fee: "execution_fee L ?x = hook_charge L tt (\<not> strong) h" and mine: "runs_for acc strong ?x"
      using run by (simp_all add: execution_fee_def hook_charge_def chain_call_def runs_for_def)
    obtain xs where "chainResults st' = chainResults st1 @ xs" "fees_of L xs \<le> charges L tt (\<not> strong) hs"
        "list_all (runs_for acc strong) xs"
      using Cons.IH [of "no + 1" st1] run(6) by (auto split: if_splits)
    with run(5) fee mine show ?thesis
      by (intro exI [of _ "?x # xs"]) simp
  qed
qed simp


lemma executeHookChain_charged:
  assumes "executeHookChain run_hook L tt sle m results acc strong = Ok (ter, results', m')"
  obtains xs where "results' = results @ xs" and "fees_of L xs \<le> charges L tt (\<not> strong) (sfHooks sle)"
    and "list_all (runs_for acc strong) xs"
  using assms chain_loop_charged by (fastforce simp: executeHookChain_def outcome_simps)

text \<open>The arrays of the ledger are chains, which \<^verbatim>\<open>SetHook\<close> makes no longer than four.\<close>

definition chains_ok :: "ledger \<Rightarrow> bool" where
  "chains_ok L \<longleftrightarrow> (\<forall>a sle. hooks L a = Some sle \<longrightarrow> length (sfHooks sle) \<le> maxHookChainLength)"

definition chain_charge :: "ledger \<Rightarrow> u16 \<Rightarrow> bool \<Rightarrow> account_id \<Rightarrow> nat" where
  "chain_charge L tt c acc = (case hooks L acc of None \<Rightarrow> 0 | Some sle \<Rightarrow> charges L tt c (sfHooks sle))"

lemma chain_charge_less: "chains_ok L \<Longrightarrow> chain_charge L tt c acc < 2 ^ 34"
proof (cases "hooks L acc")
  case (Some sle)
  assume "chains_ok L"
  with Some have "length (sfHooks sle) \<le> 4"
    by (simp add: chains_ok_def maxHookChainLength_def)
  then have "length (sfHooks sle) * (2 ^ 32 - 1) \<le> 4 * (2 ^ 32 - 1 :: nat)"
    by (rule mult_le_mono1)
  with charges_le [of L tt c "sfHooks sle"] Some show ?thesis
    by (simp add: chain_charge_def)
qed (simp add: chain_charge_def)

lemma calculateHookChainFee_sum:
  assumes "calculateHookChainFee L tt acc c = Ok fee" and "chains_ok L"
  shows "unat fee = chain_charge L tt c acc"
  using assms chain_charge_less [OF assms(2), of tt c acc] chain_fee_loop_sum [of L tt c _ 0 fee]
  by (auto simp: calculateHookChainFee_def chain_charge_def split: option.splits)

section \<open>The strong hooks of a transaction\<close>

definition strong_charges :: "ledger \<Rightarrow> u16 \<Rightarrow> nomination list \<Rightarrow> nat" where
  "strong_charges L tt ts = sum_list (map (\<lambda>(a, s). if s then chain_charge L tt False a else 0) ts)"

lemma strong_charges_simps [simp]:
  "strong_charges L tt [] = 0"
  "strong_charges L tt ((a, s) # ts) = (if s then chain_charge L tt False a else 0) + strong_charges L tt ts"
  by (simp_all add: strong_charges_def)

lemma strong_charges_le: "chains_ok L \<Longrightarrow> strong_charges L tt ts \<le> length ts * 2 ^ 34"
proof (induction ts)
  case (Cons x ts)
  then show ?case
    using chain_charge_less [OF Cons.prems, of tt False "fst x"] by (cases x) (auto intro: add_mono)
qed simp

lemma tsh_fee_loop_sum:
  "tsh_fee_loop L tt ts fee = Ok fee' \<Longrightarrow> chains_ok L \<Longrightarrow> unat fee + strong_charges L tt ts < 2 ^ 64 \<Longrightarrow>
     unat fee' = unat fee + strong_charges L tt ts"
proof (induction ts arbitrary: fee)
  case (Cons x ts)
  obtain a s where x: "x = (a, s)"
    by (cases x)
  show ?case
  proof (cases s)
    case True
    with Cons.prems(1) obtain f where f: "calculateHookChainFee L tt a False = Ok f" "tsh_fee_loop L tt ts (fee + f) = Ok fee'"
      by (auto simp: x outcome_simps)
    from calculateHookChainFee_sum [OF f(1) Cons.prems(2)] Cons.IH [OF f(2)] Cons.prems(2,3) True show ?thesis
      by (simp add: x unat_add_small)
  next
    case False
    with Cons show ?thesis
      by (simp add: x)
  qed
qed simp

lemma collect_fee_strong:
  assumes "collect_fee env tt acc True L = Ok (Some (L', drops))"
  shows "L' = L" "drops = 0"
  using assms by (auto simp: collect_fee_def Let_def outcome_simps split: option.splits if_splits)

abbreviation after_chain :: "'s tsh_state \<Rightarrow> ledger \<Rightarrow> int \<Rightarrow> execution list \<Rightarrow> 's \<Rightarrow> 's tsh_state" where
  "after_chain st L drops results m \<equiv>
     st\<lparr>tshLedger := L, destroyedXRP := destroyedXRP st + drops, tshResults := results, tshMap := m\<rparr>"

lemma tsh_loop_cases [consumes 1, case_names skip run]:
  assumes "tsh_loop run_hook env tt o' strong ((a, s) # ts) already st = Ok (ter, st')"
    and "\<And>already'. already' \<in> {already, a # already} \<Longrightarrow>
      tsh_loop run_hook env tt o' strong ts already' st = Ok (ter, st') \<Longrightarrow> P"
    and "\<And>sle L drops t results m. a \<noteq> o' \<Longrightarrow> a \<notin> set already \<Longrightarrow> s = strong \<Longrightarrow> hooks (tshLedger st) a = Some sle \<Longrightarrow>
      collect_fee env tt a strong (tshLedger st) = Ok (Some (L, drops)) \<Longrightarrow>
      executeHookChain run_hook L tt sle (tshMap st) (tshResults st) a strong = Ok (t, results, m) \<Longrightarrow>
      (if strong \<and> t \<noteq> tesSUCCESS then Ok (t, after_chain st L drops results m)
       else tsh_loop run_hook env tt o' strong ts (a # already) (after_chain st L drops results m)) = Ok (ter, st') \<Longrightarrow> P"
  shows P
proof (cases "a = o' \<or> a \<in> set already")
  case True
  with assms(1) assms(2) [of already] show P
    by simp
next
  case fresh: False
  let ?skip = "tsh_loop run_hook env tt o' strong ts (a # already) st = Ok (ter, st')"
  show P
  proof (cases "s = strong \<and> hooks (tshLedger st) a \<noteq> None")
    case False
    with fresh assms(1) have ?skip
      by (auto simp: Let_def split: if_splits)
    with assms(2) [of "a # already"] show P
      by simp
  next
    case True
    then obtain sle where sle: "s = strong" "hooks (tshLedger st) a = Some sle"
      by auto
    with fresh assms(1) obtain paid where paid: "collect_fee env tt a strong (tshLedger st) = Ok paid"
      by (auto simp: Let_def outcome_simps)
    show P
    proof (cases paid)
      case None
      with fresh sle paid assms(1) have ?skip
        by (simp add: Let_def)
      with assms(2) [of "a # already"] show P
        by simp
    next
      case (Some p)
      obtain L drops where p: "p = (L, drops)"
        by (cases p)
      have "obind (executeHookChain run_hook L tt sle (tshMap st) (tshResults st) a strong) (\<lambda>(t, results, m).
          if strong \<and> t \<noteq> tesSUCCESS then Ok (t, after_chain st L drops results m)
          else tsh_loop run_hook env tt o' strong ts (a # already) (after_chain st L drops results m)) = Ok (ter, st')"
        using fresh sle paid Some assms(1) by (simp add: Let_def p cong: if_cong)
      then obtain t results m where "executeHookChain run_hook L tt sle (tshMap st) (tshResults st) a strong = Ok (t, results, m)"
        "(if strong \<and> t \<noteq> tesSUCCESS then Ok (t, after_chain st L drops results m)
          else tsh_loop run_hook env tt o' strong ts (a # already) (after_chain st L drops results m)) = Ok (ter, st')"
        by (auto simp: outcome_simps)
      with assms(3) fresh sle paid Some p show P
        by blast
    qed
  qed
qed

lemma tsh_loop_strong:
  "tsh_loop run_hook env tt o' True ts already st = Ok (ter, st') \<Longrightarrow>
     tshLedger st' = tshLedger st \<and> destroyedXRP st' = destroyedXRP st \<and>
     (\<exists>xs. tshResults st' = tshResults st @ xs \<and> fees_of (tshLedger st) xs \<le> strong_charges (tshLedger st) tt ts)"
proof (induction ts arbitrary: already st)
  case (Cons x ts)
  obtain a s where x: "x = (a, s)"
    by (cases x)
  let ?L = "tshLedger st"
  from Cons.prems [unfolded x] show ?case
  proof (cases rule: tsh_loop_cases)
    case (skip already')
    from Cons.IH [OF skip(2)] show ?thesis
      by (auto simp: x intro: le_trans)
  next
    case (run sle L drops t results m)
    have same: "L = ?L" "drops = 0"
      using collect_fee_strong [OF run(5)] by simp_all
    obtain xs where xs: "results = tshResults st @ xs" "fees_of ?L xs \<le> chain_charge ?L tt False a"
      using run(4,6) by (auto simp: chain_charge_def same elim: executeHookChain_charged)
    show ?thesis
    proof (cases "t = tesSUCCESS")
      case True
      with run(7) have "tsh_loop run_hook env tt o' True ts (a # already) (after_chain st L drops results m) = Ok (ter, st')"
        by simp
      from Cons.IH [OF this] obtain ys where "tshLedger st' = ?L" "destroyedXRP st' = destroyedXRP st"
          "tshResults st' = results @ ys" "fees_of ?L ys \<le> strong_charges ?L tt ts"
        by (auto simp: same)
      with xs run(3) show ?thesis
        by (intro conjI exI [of _ "xs @ ys"]) (simp_all add: x)
    next
      case False
      with run(3,7) xs show ?thesis
        by (auto simp: x same)
    qed
  qed
qed simp

text \<open>The chain of the originator, and what is left to do after it.\<close>

lemma strong_hooks_first:
  assumes "strong_hooks run_hook env rv tx preclaimResult L m = Ok (ter, st)"
  obtains result results m1 where
    "fees_of L results \<le> (if isEmittedTxn tx then 0 else chain_charge L (txType tx) False (case txAccount tx of Some a \<Rightarrow> a | None \<Rightarrow> 0))" and
    "(if result = tesSUCCESS then doTSH run_hook env rv tx (case txAccount tx of Some a \<Rightarrow> a | None \<Rightarrow> 0) [] True
        \<lparr>tshLedger = L, destroyedXRP = 0, tshResults = results, tshMap = m1\<rparr>
      else Ok (result, \<lparr>tshLedger = L, destroyedXRP = 0, tshResults = results, tshMap = m1\<rparr>)) = Ok (ter, st)"
proof (cases "hooks L (case txAccount tx of Some a \<Rightarrow> a | None \<Rightarrow> 0) = None \<or> isEmittedTxn tx")
  case True
  with assms show ?thesis
    by (intro that [of "[]" preclaimResult m]) (auto simp: strong_hooks_def Let_def split: option.splits)
next
  case False
  then obtain sle where sle: "hooks L (case txAccount tx of Some a \<Rightarrow> a | None \<Rightarrow> 0) = Some sle" and own: "\<not> isEmittedTxn tx"
    by auto
  with assms obtain t results m1 where
    run: "executeHookChain run_hook L (txType tx) sle m [] (case txAccount tx of Some a \<Rightarrow> a | None \<Rightarrow> 0) True = Ok (t, results, m1)"
    and rest: "(if t = tesSUCCESS then doTSH run_hook env rv tx (case txAccount tx of Some a \<Rightarrow> a | None \<Rightarrow> 0) [] True
        \<lparr>tshLedger = L, destroyedXRP = 0, tshResults = results, tshMap = m1\<rparr>
      else Ok (t, \<lparr>tshLedger = L, destroyedXRP = 0, tshResults = results, tshMap = m1\<rparr>)) = Ok (ter, st)"
    by (auto simp: strong_hooks_def Let_def outcome_simps)
  from run have "fees_of L results \<le> charges L (txType tx) False (sfHooks sle)"
    by (auto elim: executeHookChain_charged)
  with sle own rest that [of results t m1] show ?thesis
    by (simp add: chain_charge_def)
qed

lemma hook_execution_fee_first:
  assumes "hook_execution_fee rv L tx = Ok (fee, burden)" and "chains_ok L"
  obtains f0 where
    "(if isEmittedTxn tx then 0 else chain_charge L (txType tx) False (case txAccount tx of Some a \<Rightarrow> a | None \<Rightarrow> 0)) \<le> unat f0"
    and "unat f0 < 2 ^ 34" and "tsh_fee_loop L (txType tx) (getTransactionalStakeHolders rv tx) f0 = Ok fee"
proof (cases "txEmitDetails tx")
  case None
  with assms(1) obtain f0 where
    chain: "calculateHookChainFee L (txType tx) (case txAccount tx of Some a \<Rightarrow> a | None \<Rightarrow> 0) False = Ok f0"
    and loop: "tsh_fee_loop L (txType tx) (getTransactionalStakeHolders rv tx) f0 = Ok fee"
    by (auto simp: hook_execution_fee_def outcome_simps)
  from calculateHookChainFee_sum [OF chain assms(2)] chain_charge_less [OF assms(2)] None loop show ?thesis
    by (intro that [of f0]) (simp_all add: isEmittedTxn_def)
next
  case (Some d)
  have less: "unat (fee_units c) < 2 ^ 34" for c
    using fee_units_less [of c] by simp
  let ?f0 = "case Option.bind (definitions L (case sfEmitHookHash d of Some h \<Rightarrow> h | None \<Rightarrow> 0)) sfHookCallbackFee of
      None \<Rightarrow> 0 | Some c \<Rightarrow> fee_units c"
  have "tsh_fee_loop L (txType tx) (getTransactionalStakeHolders rv tx) ?f0 = Ok fee"
    using Some assms(1) by (auto simp: hook_execution_fee_def outcome_simps Let_def split: option.splits)
  moreover have "unat ?f0 < 2 ^ 34"
    using less by (simp split: option.split)
  ultimately show ?thesis
    using Some by (intro that [of ?f0]) (simp_all add: isEmittedTxn_def)
qed

text \<open>
  C13: every hook that can reject a transaction is paid for by it. Whatever the hooks do, the fees of
  the executions of the originator's chain and of the chains of the strong stake holders, together
  with the reference fee for the burden and for each signer, are at most the base fee that
  \<^verbatim>\<open>calculateBaseFee\<close> asks the transaction to pay; and this phase changes no balance and destroys no XRP.
\<close>

theorem strong_hooks_paid:
  assumes "strong_hooks run_hook env rv tx preclaimResult L m = Ok (ter, st)"
    and "calculateBaseFee rv L units tx = Ok base" and "hook_execution_fee rv L tx = Ok (fee, burden)"
    and "featureHooks rv" and "txType tx \<noteq> ttEMIT_FAILURE" and "chains_ok L"
    and "length (getTransactionalStakeHolders rv tx) < 2 ^ 16"
    and "unat units * (unat burden + txSigners tx) < 2 ^ 63"
  shows "unat units * (unat burden + txSigners tx) + fees_of L (tshResults st) \<le> unat base \<and>
    tshLedger st = L \<and> destroyedXRP st = 0"
proof -
  let ?ts = "getTransactionalStakeHolders rv tx" and ?tt = "txType tx"
  let ?acc = "case txAccount tx of Some a \<Rightarrow> a | None \<Rightarrow> 0"
  define own where "own = (if isEmittedTxn tx then 0 else chain_charge L ?tt False ?acc)"
  obtain result results m1 where
    first: "fees_of L results \<le> own" and
    rest: "(if result = tesSUCCESS then doTSH run_hook env rv tx ?acc [] True
        \<lparr>tshLedger = L, destroyedXRP = 0, tshResults = results, tshMap = m1\<rparr>
      else Ok (result, \<lparr>tshLedger = L, destroyedXRP = 0, tshResults = results, tshMap = m1\<rparr>)) = Ok (ter, st)"
    using assms(1) unfolding own_def by (rule strong_hooks_first)
  have same: "tshLedger st = L" "destroyedXRP st = 0"
    using rest tsh_loop_strong by (fastforce simp: doTSH_def Let_def split: if_splits)+
  have run: "fees_of L (tshResults st) \<le> own + strong_charges L ?tt ?ts"
  proof (cases "result = tesSUCCESS")
    case True
    with rest have "tsh_loop run_hook env ?tt ?acc True ?ts [] \<lparr>tshLedger = L, destroyedXRP = 0, tshResults = results, tshMap = m1\<rparr> = Ok (ter, st)"
      by (simp add: doTSH_def)
    from tsh_loop_strong [OF this] first show ?thesis
      by auto
  next
    case False
    with rest first show ?thesis
      by auto
  qed
  have "strong_charges L ?tt ?ts \<le> length ?ts * 2 ^ 34"
    using assms(6) by (rule strong_charges_le)
  also have "\<dots> \<le> 2 ^ 16 * 2 ^ 34"
    using assms(7) by simp
  finally have small: "strong_charges L ?tt ?ts \<le> 2 ^ 50"
    by simp
  obtain f0 where f0: "own \<le> unat f0" "unat f0 < 2 ^ 34" and loop: "tsh_fee_loop L ?tt ?ts f0 = Ok fee"
    using assms(3,6) unfolding own_def by (rule hook_execution_fee_first)
  have fee: "unat fee = unat f0 + strong_charges L ?tt ?ts"
    using tsh_fee_loop_sum [OF loop assms(6)] f0 small by simp
  have "base = ucast units * burden + of_nat (txSigners tx) * ucast units + fee"
    using assms(2-5) by (simp add: calculateBaseFee_def Let_def)
  also have "\<dots> = of_nat (unat units * (unat burden + txSigners tx) + unat fee)"
    by (simp add: algebra_simps)
  finally have "unat base = unat (of_nat (unat units * (unat burden + txSigners tx) + unat fee) :: u64)"
    by (rule arg_cong)
  moreover have "unat units * (unat burden + txSigners tx) + unat fee < 2 ^ 64"
    using assms(8) fee f0 small by simp
  ultimately have "unat base = unat units * (unat burden + txSigners tx) + unat fee"
    by (simp only: unat_of_nat_u64)
  with run f0 fee same show ?thesis
    by simp
qed

section \<open>Weak stake holders\<close>

text \<open>
  An account that pays for its own hooks: it allows it with its flag, the hooks it runs have a fee,
  and after paying it keeps its reserve.
\<close>

definition pays :: "tsh_env \<Rightarrow> u16 \<Rightarrow> ledger \<Rightarrow> account_id \<times> int \<Rightarrow> bool" where
  "pays env tt L p \<longleftrightarrow>
     (\<exists>r fee. accounts L (fst p) = Some r \<and> calculateHookChainFee L tt (fst p) True = Ok fee \<and> fee \<noteq> 0 \<and>
        toDrops (tshFees env) (tshUnits env) fee = Ok (snd p) \<and> 0 \<le> snd p \<and> has_flag (acctFlags env (fst p)) lsfTshCollect \<and>
        accountReserve (tshFees env) (sfOwnerCount r) \<le> sfBalance r - snd p)"

definition charged :: "(account_id \<times> int) list \<Rightarrow> (account_id \<rightharpoonup> account_root) \<Rightarrow> account_id \<rightharpoonup> account_root" where
  "charged ps as a =
     (case map_of ps a of None \<Rightarrow> as a | Some d \<Rightarrow> map_option (\<lambda>r. r\<lparr>sfBalance := sfBalance r - d\<rparr>) (as a))"

lemma charged_Cons:
  assumes "accounts L a = Some r" and "map_of ps a = None"
  shows "charged ps ((accounts L)(a \<mapsto> r\<lparr>sfBalance := sfBalance r - d\<rparr>)) = charged ((a, d) # ps) (accounts L)"
  using assms by (auto simp: charged_def fun_eq_iff split: option.splits)

lemma chain_fee_loop_accounts [simp]:
  "chain_fee_loop (L\<lparr>accounts := A\<rparr>) tt c hs fee = chain_fee_loop L tt c hs fee"
  by (induction hs arbitrary: fee) (simp_all split: option.split cong: obind_cong)

lemma calculateHookChainFee_accounts [simp]: "calculateHookChainFee (L\<lparr>accounts := A\<rparr>) = calculateHookChainFee L"
  by (simp add: calculateHookChainFee_def fun_eq_iff split: option.split)

lemma charge_accounts [simp]:
  "hook_charge (L\<lparr>accounts := A\<rparr>) = hook_charge L" "execution_fee (L\<lparr>accounts := A\<rparr>) = execution_fee L"
  by (simp_all add: hook_charge_def execution_fee_def fun_eq_iff)

lemma chain_charge_accounts [simp]: "chain_charge (L\<lparr>accounts := A\<rparr>) = chain_charge L"
  by (simp add: chain_charge_def fun_eq_iff split: option.split)

lemma toDrops_nonneg: "toDrops f units fee = Ok d \<Longrightarrow> 0 \<le> d"
  by (auto simp: toDrops_def Let_def cMaxNativeN_def div_int_pos_iff split: if_splits)

lemma collect_fee_weak:
  assumes "collect_fee env tt a False L = Ok (Some (L', d))"
  obtains r where "accounts L a = Some r" and "pays env tt L (a, d)"
    and "L' = L\<lparr>accounts := (accounts L)(a \<mapsto> r\<lparr>sfBalance := sfBalance r - d\<rparr>)\<rparr>"
proof -
  obtain r where r: "accounts L a = Some r"
    using assms by (auto simp: collect_fee_def split: option.splits)
  with assms obtain fee drops where fee: "calculateHookChainFee L tt a True = Ok fee" "fee \<noteq> 0"
    and drops: "toDrops (tshFees env) (tshUnits env) fee = Ok drops"
    and flag: "has_flag (acctFlags env a) lsfTshCollect"
    and funds: "drops + accountReserve (tshFees env) (sfOwnerCount r) \<le> sfBalance r"
    and paid: "(if 0 < drops then (L\<lparr>accounts := (accounts L)(a \<mapsto> r\<lparr>sfBalance := sfBalance r - drops\<rparr>)\<rparr>, drops) else (L, 0)) = (L', d)"
    by (auto simp: collect_fee_def Let_def outcome_simps split: if_splits)
  have "d = drops" and "L' = L\<lparr>accounts := (accounts L)(a \<mapsto> r\<lparr>sfBalance := sfBalance r - d\<rparr>)\<rparr>"
    using paid toDrops_nonneg [OF drops] r by (auto simp: map_upd_triv split: if_splits)
  with r fee drops flag funds toDrops_nonneg [OF drops] that show ?thesis
    by (simp add: pays_def)
qed

lemma pays_accounts: "accounts L' (fst p) = accounts L (fst p) \<Longrightarrow> L' = L\<lparr>accounts := accounts L'\<rparr> \<Longrightarrow> pays env tt L' p = pays env tt L p"
  unfolding pays_def by (metis calculateHookChainFee_accounts)

definition weak_effect :: "tsh_env \<Rightarrow> u16 \<Rightarrow> account_id list \<Rightarrow> 's tsh_state \<Rightarrow> 's tsh_state \<Rightarrow> (account_id \<times> int) list \<Rightarrow> bool" where
  "weak_effect env tt excluded st st' ps \<longleftrightarrow>
     distinct (map fst ps) \<and> set (map fst ps) \<inter> set excluded = {} \<and> list_all (pays env tt (tshLedger st)) ps \<and>
     tshLedger st' = (tshLedger st)\<lparr>accounts := charged ps (accounts (tshLedger st))\<rparr> \<and>
     destroyedXRP st' = destroyedXRP st + sum_list (map snd ps) \<and>
     (\<exists>xs. tshResults st' = tshResults st @ xs \<and>
        fees_of (tshLedger st) xs \<le> sum_list (map (chain_charge (tshLedger st) tt True \<circ> fst) ps))"

lemma weak_effect_none: "weak_effect env tt excluded st st []"
  by (simp add: weak_effect_def charged_def fun_eq_iff)

lemma weak_effect_Cons:
  assumes "collect_fee env tt a False (tshLedger st) = Ok (Some (L, d))" and "hooks (tshLedger st) a = Some sle"
    and "executeHookChain run_hook L tt sle (tshMap st) (tshResults st) a False = Ok (t, results, m)"
    and "a \<notin> set excluded" and "weak_effect env tt (a # excluded) (after_chain st L d results m) st' ps"
  shows "weak_effect env tt excluded st st' ((a, d) # ps)"
proof -
  let ?L = "tshLedger st"
  obtain r where r: "accounts ?L a = Some r" and pays: "pays env tt ?L (a, d)"
    and L: "L = ?L\<lparr>accounts := (accounts ?L)(a \<mapsto> r\<lparr>sfBalance := sfBalance r - d\<rparr>)\<rparr>"
    using assms(1) by (rule collect_fee_weak)
  obtain xs where xs: "results = tshResults st @ xs" "fees_of ?L xs \<le> chain_charge ?L tt True a"
    using assms(2,3) by (auto simp: chain_charge_def L elim: executeHookChain_charged)
  obtain ys where ys: "tshResults st' = results @ ys" "fees_of ?L ys \<le> sum_list (map (chain_charge ?L tt True \<circ> fst) ps)"
    using assms(5) by (auto simp: weak_effect_def L)
  have fresh: "a \<notin> set (map fst ps)"
    using assms(5) by (auto simp: weak_effect_def)
  then have none: "map_of ps a = None"
    by (simp add: map_of_eq_None_iff)
  have "pays env tt ?L p" if p: "p \<in> set ps" for p
  proof -
    have "fst p \<noteq> a"
      using p fresh by auto
    then have "accounts L (fst p) = accounts ?L (fst p)" and "L = ?L\<lparr>accounts := accounts L\<rparr>"
      by (simp_all add: L)
    from pays_accounts [OF this] have "pays env tt L p = pays env tt ?L p" .
    moreover have "pays env tt L p"
      using assms(5) p by (simp add: weak_effect_def list_all_iff)
    ultimately show ?thesis
      by simp
  qed
  then have "list_all (pays env tt ?L) ps"
    by (simp add: list_all_iff)
  moreover have "tshLedger st' = ?L\<lparr>accounts := charged ((a, d) # ps) (accounts ?L)\<rparr>"
    using assms(5) charged_Cons [OF r none] by (simp add: weak_effect_def L)
  ultimately show ?thesis
    using assms(4,5) pays xs ys fresh unfolding weak_effect_def
    by (auto intro!: exI [of _ "xs @ ys"])
qed

lemma tsh_loop_weak:
  "tsh_loop run_hook env tt o' False ts already st = Ok (ter, st') \<Longrightarrow>
     ter = tesSUCCESS \<and> (\<exists>ps. weak_effect env tt (o' # already) st st' ps)"
proof (induction ts arbitrary: already st)
  case Nil
  then show ?case
    using weak_effect_none [of env tt "o' # already" st] by auto
next
  case (Cons x ts)
  obtain a s where x: "x = (a, s)"
    by (cases x)
  from Cons.prems [unfolded x] show ?case
  proof (cases rule: tsh_loop_cases)
    case (skip already')
    from Cons.IH [OF skip(2)] skip(1) show ?thesis
      by (auto simp: weak_effect_def)
  next
    case (run sle L drops t results m)
    have "tsh_loop run_hook env tt o' False ts (a # already) (after_chain st L drops results m) = Ok (ter, st')"
      using run(7) by simp
    from Cons.IH [OF this] obtain ps where ter: "ter = tesSUCCESS"
      and ps: "weak_effect env tt (o' # a # already) (after_chain st L drops results m) st' ps"
      by blast
    have "weak_effect env tt (a # o' # already) (after_chain st L drops results m) st' ps"
      using ps by (auto simp: weak_effect_def)
    from weak_effect_Cons [OF run(5) run(4) run(6) _ this] run(1,2) ter show ?thesis
      by auto
  qed
qed



section \<open>An example\<close>

definition plain_tx :: sttx where
  "plain_tx = \<lparr>txID = 1, txType = ttPAYMENT, txAccount = Some 8, txDestination = Some 7, txIssuer = None, txOwner = None,
     txRegularKey = None, txAuthorize = None, txLimitIssuer = Some 7, txNFTokenID = None, txNFTokenBuyOffer = None,
     txNFTokenSellOffer = None, txNFTokenOffers = None, txOfferSequence = None, txChannel = None, txCheckID = None,
     txSignerEntries = [], txSigners = 0, txSequence = Some 0, txSigningPubKey = Some [], txSignature = False,
     txFirstLedgerSequence = None, txLastLedgerSequence = None, txFee = Some (Drops 40), txEmitDetails = None\<rparr>"

definition plain_view :: tsh_view where
  "plain_view = \<lparr>featureHooks = True, escrows = Map.empty, paychans = Map.empty, checks = Map.empty,
     nftoffers = Map.empty, findToken = (\<lambda>_ _. False)\<rparr>"

text \<open>Account 7 has a hook with a fee of 25 units that fires on everything and collects.\<close>

definition hooked_ledger :: ledger where
  "hooked_ledger = \<lparr>accounts = [7 \<mapsto> \<lparr>sfBalance = 1000, sfOwnerCount = 1, sfHookStateCount = 0, sfHookNamespaces = None\<rparr>],
     hooks = [7 \<mapsto> \<lparr>sfHooks = [blank_hook\<lparr>sfHookHash := Some 9\<rparr>], hookOwnerNode = 0\<rparr>],
     definitions = [9 \<mapsto> \<lparr>defHookOn = 0, defHookNamespace = 0, defHookParameters = [], defHookApiVersion = 0, defCreateCode = [1],
        sfHookSetTxnID = 0, sfReferenceCount = 1, sfFee = 25, sfHookCallbackFee = None, defFlags = 4\<rparr>],
     states = Map.empty, state_dirs = (\<lambda>_. Map.empty), owner_dirs = (\<lambda>_. Map.empty)\<rparr>"

definition accept_all :: "unit run_hook" where
  "accept_all L call m = Ok (\<lparr>exitType = ACCEPT, hookSkips = [], hookParamOverrides = [], executeAgainAsWeak = False\<rparr>, m)"

definition plain_tsh_env :: tsh_env where
  "plain_tsh_env = \<lparr>tshFees = \<lparr>fee_base_drops = 10, reserve = 200, increment = 50\<rparr>, tshUnits = 10, acctFlags = (\<lambda>_. lsfTshCollect)\<rparr>"

lemma hooked_chains_ok: "chains_ok hooked_ledger"
  by (simp add: chains_ok_def hooked_ledger_def maxHookChainLength_def)

theorem strong_hooks_paid_witness:
  "\<exists>st. strong_hooks accept_all plain_tsh_env plain_view plain_tx tesSUCCESS hooked_ledger () = Ok (tesSUCCESS, st) \<and>
     length (tshResults st) = 1 \<and> 10 + fees_of hooked_ledger (tshResults st) \<le> 35"
proof -
  have "case strong_hooks accept_all plain_tsh_env plain_view plain_tx tesSUCCESS hooked_ledger () of
      Ok (ter, st) \<Rightarrow> ter = tesSUCCESS \<and> length (tshResults st) = 1 | _ \<Rightarrow> False"
    by code_simp
  then obtain st where run: "strong_hooks accept_all plain_tsh_env plain_view plain_tx tesSUCCESS hooked_ledger () = Ok (tesSUCCESS, st)"
    and one: "length (tshResults st) = 1"
    by (auto split: outcome.splits)
  have "calculateBaseFee plain_view hooked_ledger 10 plain_tx = Ok 35"
    "hook_execution_fee plain_view hooked_ledger plain_tx = Ok (25, 1)" "getTransactionalStakeHolders plain_view plain_tx = [(7, True)]"
    by code_simp+
  from strong_hooks_paid [OF run this(1,2) _ _ hooked_chains_ok] this(3) run one show ?thesis
    by (simp add: plain_view_def plain_tx_def)
qed


text \<open>
  \<^verbatim>\<open>ttINVOKE\<close> is 99, so \<^verbatim>\<open>canHook\<close> shifts a 64 bit word by 99: whether a hook fires on such a
  transaction is undefined.
\<close>

lemma invoke_shift_undefined:
  "canHook ttINVOKE hookOn = Undef" "calculateBaseFee plain_view hooked_ledger 10 (plain_tx\<lparr>txType := ttINVOKE\<rparr>) = Undef"
  by (simp add: canHook_def) code_simp

end
