(* ===== verification/Hook_Exec.thy ===== *)
theory Hook_Exec
  imports Hook_Chain
begin

text \<open>
  The functions with which a hook controls its own execution and that of the hooks after it: the
  guard \<^verbatim>\<open>_g\<close>, \<^verbatim>\<open>accept\<close> and \<^verbatim>\<open>rollback\<close>, the parameters \<^verbatim>\<open>otxn_param\<close>, \<^verbatim>\<open>hook_param\<close> and
  \<^verbatim>\<open>hook_param_set\<close>, and \<^verbatim>\<open>hook_skip\<close>, \<^verbatim>\<open>hook_pos\<close> and \<^verbatim>\<open>hook_again\<close>, all of
  \<^verbatim>\<open>src/ripple/app/hook/impl/applyHook.cpp\<close> with the macro \<^verbatim>\<open>HOOK_EXIT\<close> of \<^verbatim>\<open>Macro.h\<close>.
\<close>

section \<open>Environment and context\<close>

text \<open>The call says what \<^verbatim>\<open>hook::apply\<close> was given; the ledger and the parameters are those of the transaction.\<close>

record exec_env =
  execCall :: hook_call
  execLedger :: ledger
  txHookParameters :: "hook_parameter list option"

record exec_ctx =
  guard_map :: "u32 \<rightharpoonup> u32"
  execResult :: hook_result
  exitReason :: bytes
  exitCode :: int
  overrideCount :: u32

text \<open>The context with which \<^verbatim>\<open>hook::apply\<close> starts a hook: it rolls back unless it accepts.\<close>

definition exec_start :: "hook_call \<Rightarrow> exec_ctx" where
  "exec_start call =
     \<lparr>guard_map = Map.empty,
      execResult = \<lparr>exitType = ROLLBACK, hookSkips = [], hookParamOverrides = callOverrides call, executeAgainAsWeak = False\<rparr>,
      exitReason = [], exitCode = - 1, overrideCount = 0\<rparr>"

section \<open>The guard\<close>

definition guard_fn :: "exec_ctx \<Rightarrow> u32 \<Rightarrow> u32 \<Rightarrow> int \<times> exec_ctx" where
  "guard_fn ctx i maxitr =
     (let n = (case guard_map ctx i of None \<Rightarrow> 1 | Some n \<Rightarrow> n + 1);
          ctx = ctx\<lparr>guard_map := (guard_map ctx)(i \<mapsto> n)\<rparr>
      in if maxitr < n then
           (RC_ROLLBACK, ctx\<lparr>execResult := (execResult ctx)\<lparr>exitType := ROLLBACK\<rparr>, exitCode := GUARD_VIOLATION\<rparr>)
         else (1, ctx))"

section \<open>The end of a hook\<close>

fun utf16_pairs :: "bytes \<Rightarrow> bool" where
  "utf16_pairs (lo # hi # bs) = (if lo = 0 \<or> hi \<noteq> 0 then False else utf16_pairs bs)"
| "utf16_pairs _ = True"

definition is_UTF16LE :: "bytes \<Rightarrow> bool" where
  "is_UTF16LE buffer = (if length buffer mod 2 \<noteq> 0 \<or> length buffer = 0 then False else utf16_pairs buffer)"

definition exit_reason :: "bytes \<Rightarrow> bytes" where
  "exit_reason s = (if is_UTF16LE s then map (\<lambda>i. s ! (i * 2)) [0..<length s div 2] else s)"

definition HOOK_EXIT :: "exec_ctx \<Rightarrow> memory \<Rightarrow> u32 \<Rightarrow> u32 \<Rightarrow> int \<Rightarrow> ExitType \<Rightarrow> int \<times> exec_ctx" where
  "HOOK_EXIT ctx mem read_ptr read_len error_code exit_type =
     (let read_len = (if 256 < read_len then 256 else read_len);
          leave = (\<lambda>ctx. (if exit_type = ACCEPT then RC_ACCEPT else RC_ROLLBACK,
            ctx\<lparr>execResult := (execResult ctx)\<lparr>exitType := exit_type\<rparr>, exitCode := error_code\<rparr>))
      in if read_ptr = 0 then leave ctx
         else if NOT_IN_BOUNDS read_ptr read_len mem then (OUT_OF_BOUNDS, ctx)
         else leave (ctx\<lparr>exitReason := exit_reason (mem_get mem (uint read_ptr) (uint read_len))\<rparr>))"

definition accept :: "exec_ctx \<Rightarrow> memory \<Rightarrow> u32 \<Rightarrow> u32 \<Rightarrow> int \<Rightarrow> int \<times> exec_ctx" where
  "accept ctx mem read_ptr read_len error_code = HOOK_EXIT ctx mem read_ptr read_len error_code ACCEPT"

definition rollback :: "exec_ctx \<Rightarrow> memory \<Rightarrow> u32 \<Rightarrow> u32 \<Rightarrow> int \<Rightarrow> int \<times> exec_ctx" where
  "rollback ctx mem read_ptr read_len error_code = HOOK_EXIT ctx mem read_ptr read_len error_code ROLLBACK"

section \<open>Parameters\<close>

fun find_param :: "hook_parameter list \<Rightarrow> bytes \<Rightarrow> hook_parameter option" where
  "find_param [] name = None"
| "find_param (p # ps) name = (if sfHookParameterName p = None \<or> sfHookParameterName p \<noteq> Some name then find_param ps name else Some p)"

definition otxn_param :: "exec_env \<Rightarrow> memory \<Rightarrow> u32 \<Rightarrow> u32 \<Rightarrow> u32 \<Rightarrow> u32 \<Rightarrow> int \<times> memory" where
  "otxn_param env mem write_ptr write_len read_ptr read_len =
     (if NOT_IN_BOUNDS read_ptr read_len mem then (OUT_OF_BOUNDS, mem)
      else if NOT_IN_BOUNDS write_ptr write_len mem then (OUT_OF_BOUNDS, mem)
      else if read_len < 1 then (TOO_SMALL, mem)
      else if 32 < read_len then (TOO_BIG, mem)
      else case txHookParameters env of
        None \<Rightarrow> (DOESNT_EXIST, mem)
      | Some params \<Rightarrow>
          (case find_param params (mem_get mem (uint read_ptr) (uint read_len)) of
             None \<Rightarrow> (DOESNT_EXIST, mem)
           | Some param \<Rightarrow>
               (case sfHookParameterValue param of
                  None \<Rightarrow> (DOESNT_EXIST, mem)
                | Some val \<Rightarrow>
                    if val = [] then (DOESNT_EXIST, mem)
                    else if uint write_len < int (length val) then (TOO_SMALL, mem)
                    else WRITE_WASM_MEMORY_AND_RETURN mem write_ptr write_len val)))"

definition give_param :: "memory \<Rightarrow> u32 \<Rightarrow> u32 \<Rightarrow> bytes \<Rightarrow> int \<times> memory" where
  "give_param mem write_ptr write_len param =
     (if length param = 0 then (DOESNT_EXIST, mem) else WRITE_WASM_MEMORY_AND_RETURN mem write_ptr write_len param)"

definition hook_param :: "exec_env \<Rightarrow> exec_ctx \<Rightarrow> memory \<Rightarrow> u32 \<Rightarrow> u32 \<Rightarrow> u32 \<Rightarrow> u32 \<Rightarrow> int \<times> memory" where
  "hook_param env ctx mem write_ptr write_len read_ptr read_len =
     (if NOT_IN_BOUNDS read_ptr read_len mem then (OUT_OF_BOUNDS, mem)
      else if NOT_IN_BOUNDS write_ptr write_len mem then (OUT_OF_BOUNDS, mem)
      else if read_len < 1 then (TOO_SMALL, mem)
      else if 32 < read_len then (TOO_BIG, mem)
      else
        let paramName = mem_get mem (uint read_ptr) (uint read_len) in
        case Option.bind (map_of (hookParamOverrides (execResult ctx)) (callHash (execCall env))) (\<lambda>ps. map_of ps paramName) of
          Some param \<Rightarrow> give_param mem write_ptr write_len param
        | None \<Rightarrow>
            (case map_of (callParams (execCall env)) paramName of
               None \<Rightarrow> (DOESNT_EXIST, mem)
             | Some param \<Rightarrow> give_param mem write_ptr write_len param))"

definition hook_param_set ::
  "exec_ctx \<Rightarrow> memory \<Rightarrow> u32 \<Rightarrow> u32 \<Rightarrow> u32 \<Rightarrow> u32 \<Rightarrow> u32 \<Rightarrow> u32 \<Rightarrow> int \<times> exec_ctx" where
  "hook_param_set ctx mem read_ptr read_len kread_ptr kread_len hread_ptr hread_len =
     (if NOT_IN_BOUNDS read_ptr read_len mem \<or> NOT_IN_BOUNDS kread_ptr kread_len mem \<or> NOT_IN_BOUNDS hread_ptr hread_len mem
      then (OUT_OF_BOUNDS, ctx)
      else if kread_len < 1 then (TOO_SMALL, ctx)
      else if maxHookParameterKeySize < unat kread_len then (TOO_BIG, ctx)
      else if hread_len \<noteq> 32 then (INVALID_ARGUMENT, ctx)
      else if maxHookParameterValueSize < unat read_len then (TOO_BIG, ctx)
      else
        let paramName = mem_get mem (uint kread_ptr) (uint kread_len);
            paramValue = mem_get mem (uint read_ptr) (uint read_len);
            hash = fromVoid (mem_get mem (uint hread_ptr) 32)
        in if max_params \<le> unat (overrideCount ctx) then (TOO_MANY_PARAMS, ctx)
           else
             let overrides = hookParamOverrides (execResult ctx);
                 overrides = (case map_of overrides hash of
                   None \<Rightarrow> omap_put hash [(paramName, paramValue)] overrides
                 | Some ps \<Rightarrow> omap_put hash (omap_put paramName paramValue ps) overrides)
             in (uint read_len,
                 ctx\<lparr>overrideCount := overrideCount ctx + 1, execResult := (execResult ctx)\<lparr>hookParamOverrides := overrides\<rparr>\<rparr>))"

section \<open>The rest of the chain\<close>

definition hook_skip :: "exec_env \<Rightarrow> exec_ctx \<Rightarrow> memory \<Rightarrow> u32 \<Rightarrow> u32 \<Rightarrow> u32 \<Rightarrow> int \<times> exec_ctx" where
  "hook_skip env ctx mem read_ptr read_len flags =
     (if NOT_IN_BOUNDS read_ptr read_len mem then (OUT_OF_BOUNDS, ctx)
      else if read_len \<noteq> 32 then (INVALID_ARGUMENT, ctx)
      else if flags \<noteq> 0 \<and> flags \<noteq> 1 then (INVALID_ARGUMENT, ctx)
      else
        let skips = hookSkips (execResult ctx); hash = fromVoid (mem_get mem (uint read_ptr) 32);
            with_skips = (\<lambda>s. ctx\<lparr>execResult := (execResult ctx)\<lparr>hookSkips := s\<rparr>\<rparr>)
        in if flags = 1 then
             if hash \<notin> set skips then (DOESNT_EXIST, ctx) else (1, with_skips (remove1 hash skips))
           else if hash \<in> set skips then (1, ctx)
           else case hooks (execLedger env) (callAccount (execCall env)) of
             None \<Rightarrow> (INTERNAL_ERROR, ctx)
           | Some hookSLE \<Rightarrow>
               if \<not> list_ex (\<lambda>hookObj. sfHookHash hookObj = Some hash) (sfHooks hookSLE) then (DOESNT_EXIST, ctx)
               else (1, with_skips (insort_insert hash skips)))"

definition hook_pos :: "exec_env \<Rightarrow> int" where
  "hook_pos env = uint (callPosition (execCall env))"

definition hook_again :: "exec_env \<Rightarrow> exec_ctx \<Rightarrow> int \<times> exec_ctx" where
  "hook_again env ctx =
     (if executeAgainAsWeak (execResult ctx) then (ALREADY_SET, ctx)
      else if callIsStrong (execCall env) then (1, ctx\<lparr>execResult := (execResult ctx)\<lparr>executeAgainAsWeak := True\<rparr>\<rparr>)
      else (PREREQUISITE_NOT_MET, ctx))"

end
