(* ===== verification/Hook_Exec_Props.thy ===== *)
theory Hook_Exec_Props
  imports Hook_Exec Hook_Chain_Props
begin

text \<open>
  The guard ends a hook exactly when one of its loops runs more often than it announced, and a
  parameter that a hook sets for a later hook of the chain is what that hook reads.
\<close>

section \<open>Guards\<close>

text \<open>The calls of the guard that a hook makes; the first violation ends it.\<close>

fun guard_calls :: "exec_ctx \<Rightarrow> (u32 \<times> u32) list \<Rightarrow> bool \<times> exec_ctx" where
  "guard_calls ctx [] = (True, ctx)"
| "guard_calls ctx ((i, maxitr) # cs) =
     (let (r, ctx) = guard_fn ctx i maxitr in if r = 1 then guard_calls ctx cs else (False, ctx))"

definition calls_of :: "u32 \<Rightarrow> (u32 \<times> u32) list \<Rightarrow> nat" where
  "calls_of i cs = length (filter (\<lambda>c. fst c = i) cs)"

definition counts_are :: "exec_ctx \<Rightarrow> (u32 \<Rightarrow> nat) \<Rightarrow> bool" where
  "counts_are ctx cnt \<longleftrightarrow> (\<forall>i. guard_map ctx i = (if cnt i = 0 then None else Some (of_nat (cnt i))))"

lemma guard_fn_counts:
  assumes "counts_are ctx cnt" and "cnt i + 1 < 2 ^ 32" and "guard_fn ctx i maxitr = (r, ctx')"
  shows "counts_are ctx' (cnt(i := cnt i + 1))" and "r = 1 \<longleftrightarrow> cnt i + 1 \<le> unat maxitr"
    and "r \<noteq> 1 \<Longrightarrow> exitType (execResult ctx') = ROLLBACK \<and> exitCode ctx' = GUARD_VIOLATION"
proof -
  have n: "(case guard_map ctx i of None \<Rightarrow> 1 | Some n \<Rightarrow> n + 1) = (of_nat (cnt i + 1) :: u32)"
    using assms(1) by (simp add: counts_are_def)
  have "unat (of_nat (cnt i + 1) :: u32) = cnt i + 1"
    using assms(2) by (simp only: unat_of_nat) simp
  then have less: "maxitr < of_nat (cnt i + 1) \<longleftrightarrow> unat maxitr < cnt i + 1"
    unfolding word_less_nat_alt by simp
  show "counts_are ctx' (cnt(i := cnt i + 1))"
    using assms(1,3) unfolding guard_fn_def n Let_def counts_are_def
    by (auto split: if_splits) (metis neq0_conv)+
  show "r = 1 \<longleftrightarrow> cnt i + 1 \<le> unat maxitr"
    using assms(3) unfolding guard_fn_def n Let_def less by (auto split: if_splits)
  show "r \<noteq> 1 \<Longrightarrow> exitType (execResult ctx') = ROLLBACK \<and> exitCode ctx' = GUARD_VIOLATION"
    using assms(3) unfolding guard_fn_def n Let_def by (auto split: if_splits)
qed

lemma guard_calls_count:
  assumes "counts_are ctx cnt" and "\<And>i. cnt i + length cs < 2 ^ 32"
  shows "(fst (guard_calls ctx cs) \<longleftrightarrow> (\<forall>k<length cs. cnt (fst (cs ! k)) + calls_of (fst (cs ! k)) (take (Suc k) cs) \<le> unat (snd (cs ! k))))
    \<and> (\<not> fst (guard_calls ctx cs) \<longrightarrow> exitType (execResult (snd (guard_calls ctx cs))) = ROLLBACK \<and> exitCode (snd (guard_calls ctx cs)) = GUARD_VIOLATION)"
  using assms
proof (induction cs arbitrary: ctx cnt)
  case (Cons c cs)
  obtain i m where c: "c = (i, m)"
    by (cases c)
  obtain r ctx1 where r: "guard_fn ctx i m = (r, ctx1)"
    by fastforce
  have "cnt i + 1 < 2 ^ 32"
    using Cons.prems(2) [of i] by simp
  note step = guard_fn_counts [OF Cons.prems(1) this r]
  have room: "(cnt(i := cnt i + 1)) j + length cs < 2 ^ 32" for j
    using Cons.prems(2) [of j] by (cases "j = i") simp_all
  have shift: "(\<forall>k<length (c # cs). cnt (fst ((c # cs) ! k)) + calls_of (fst ((c # cs) ! k)) (take (Suc k) (c # cs)) \<le> unat (snd ((c # cs) ! k))) \<longleftrightarrow>
      cnt i + 1 \<le> unat m \<and> (\<forall>k<length cs. (cnt(i := cnt i + 1)) (fst (cs ! k)) + calls_of (fst (cs ! k)) (take (Suc k) cs) \<le> unat (snd (cs ! k)))"
    by (auto simp: c calls_of_def All_less_Suc2)
  show ?case
  proof (cases "r = 1")
    case True
    then have "guard_calls ctx (c # cs) = guard_calls ctx1 cs" "cnt i + 1 \<le> unat m"
      using step(2) by (simp_all add: c r)
    with Cons.IH [OF step(1) room] show ?thesis
      unfolding shift by simp
  next
    case False
    then have "guard_calls ctx (c # cs) = (False, ctx1)" "\<not> cnt i + 1 \<le> unat m"
      using step(2) by (simp_all add: c r)
    with step(3) [OF False] show ?thesis
      unfolding shift by simp
  qed
qed simp

text \<open>
  C15: the guard bounds every loop. A hook that calls the guard fewer than \<open>2 ^ 32\<close> times gets
  through all calls exactly when at each of them the number of calls so far with that identifier is
  at most the bound it passes; otherwise the execution ends with a rollback and \<^verbatim>\<open>GUARD_VIOLATION\<close>. In
  particular a loop whose guard passes the constant bound \<open>m\<close> runs at most \<open>m\<close> times.
\<close>

theorem guard_bounds_loops:
  assumes "length cs < 2 ^ 32"
  shows "(fst (guard_calls (exec_start call) cs) \<longleftrightarrow>
      (\<forall>k<length cs. calls_of (fst (cs ! k)) (take (Suc k) cs) \<le> unat (snd (cs ! k)))) \<and>
    (\<not> fst (guard_calls (exec_start call) cs) \<longrightarrow>
      exitType (execResult (snd (guard_calls (exec_start call) cs))) = ROLLBACK \<and>
      exitCode (snd (guard_calls (exec_start call) cs)) = GUARD_VIOLATION) \<and>
    (\<forall>i m. fst (guard_calls (exec_start call) cs) \<longrightarrow> (\<forall>c\<in>set cs. fst c = i \<longrightarrow> snd c = m) \<longrightarrow> calls_of i cs \<le> unat m)"
proof -
  have start: "counts_are (exec_start call) (\<lambda>_. 0)"
    by (simp add: counts_are_def exec_start_def)
  note all = guard_calls_count [OF start, of cs]
  have last: "calls_of i cs \<le> unat m"
    if ok: "\<forall>k<length cs. calls_of (fst (cs ! k)) (take (Suc k) cs) \<le> unat (snd (cs ! k))" and const: "\<forall>c\<in>set cs. fst c = i \<longrightarrow> snd c = m" for i m
  proof (cases "\<exists>c\<in>set cs. fst c = i")
    case True
    then obtain ys c zs where cs: "cs = ys @ c # zs" and c: "fst c = i" and rest: "\<forall>z\<in>set zs. fst z \<noteq> i"
      using split_list_last_prop [of cs "\<lambda>c. fst c = i"] by blast
    have "calls_of i cs = calls_of i (take (Suc (length ys)) cs)"
      using rest by (simp add: cs calls_of_def filter_empty_conv)
    also have "\<dots> \<le> unat (snd c)"
      using ok [rule_format, of "length ys"] by (simp add: cs c)
    finally show ?thesis
      using const by (simp add: cs c)
  next
    case False
    then have "filter (\<lambda>c. fst c = i) cs = []"
      by (simp add: filter_empty_conv)
    then show ?thesis
      by (simp add: calls_of_def)
  qed
  with all assms show ?thesis
    by simp
qed

definition sample_call :: "uint256 \<Rightarrow> override_map \<Rightarrow> hook_call" where
  "sample_call hash overrides =
     \<lparr>callSetTxnID = 1, callHash = hash, callNamespace = 0, callWasm = [], callParams = [([65], [1])],
      callOverrides = overrides, callAccount = 10, callHasCallback = False, callIsCallback = False,
      callIsStrong = True, callWasmParam = 0, callPosition = 0\<rparr>"

theorem guard_bounds_loops_witness:
  "\<not> fst (guard_calls (exec_start (sample_call 7 [])) [(1, 2), (9, 5), (1, 2), (1, 2)])"
  using guard_bounds_loops [of "[(1, 2), (9, 5), (1, 2), (1, 2)]" "sample_call 7 []"]
  by (simp add: calls_of_def All_less_Suc2)

section \<open>Parameters set for later hooks\<close>

definition overrides_ok :: "override_map \<Rightarrow> bool" where
  "overrides_ok ov \<longleftrightarrow> omap_ok ov \<and> (\<forall>(hash, ps)\<in>set ov. omap_ok ps)"

text \<open>What a hook with this hash reads for this name.\<close>

definition overridden :: "override_map \<Rightarrow> uint256 \<Rightarrow> bytes \<Rightarrow> bytes option" where
  "overridden ov hash name = Option.bind (map_of ov hash) (\<lambda>ps. map_of ps name)"

lemma put_params_lookup:
  "map_of (fold (\<lambda>(k, v). omap_put k v) ps old) name = (case map_of (rev ps) name of None \<Rightarrow> map_of old name | Some v \<Rightarrow> Some v)"
  using omap_lookup_puts [of fst snd ps old name] by (simp add: case_prod_beta')

lemma gather_overrides_other:
  "hash \<notin> fst ` set ov \<Longrightarrow> map_of (gather_overrides ov m) hash = map_of m hash"
  unfolding gather_overrides_def
  by (induction ov arbitrary: m) (auto simp: Let_def omap_lookup_put)

text \<open>What one hook leaves wins over what the hooks before it left.\<close>

lemma gather_overrides_wins:
  assumes "overrides_ok ov" and "overridden ov hash name = Some v"
  shows "overridden (gather_overrides ov m) hash name = Some v"
proof -
  obtain ps where ps: "map_of ov hash = Some ps" "map_of ps name = Some v"
    using assms(2) by (auto simp: overridden_def bind_eq_Some_conv)
  then obtain xs ys where ov: "ov = xs @ (hash, ps) # ys"
    by (metis map_of_SomeD split_list)
  have "distinct (map fst ov)" "omap_ok ps"
    using assms(1) omap_ok_distinct [of ov] by (simp_all add: overrides_ok_def ov)
  then have last: "hash \<notin> fst ` set ys" and "map_of (rev ps) = map_of ps"
    by (auto simp: ov map_of_rev_distinct dest: omap_ok_distinct)
  moreover have "gather_overrides ov m = gather_overrides ys (gather_overrides [(hash, ps)] (gather_overrides xs m))"
    by (simp add: ov gather_overrides_def)
  ultimately show ?thesis
    using ps(2) gather_overrides_other [OF last]
    by (simp add: overridden_def gather_overrides_def Let_def omap_lookup_put put_params_lookup)
qed

lemma hook_param_set_ok:
  assumes "hook_param_set ctx mem rp rl kp kl hp hl = (r, ctx')" and "0 \<le> r" and "overrides_ok (hookParamOverrides (execResult ctx))"
  shows "0 < uint kl \<and> uint kl \<le> 32 \<and> uint rl \<le> 256 \<and> r = uint rl \<and>
    overrides_ok (hookParamOverrides (execResult ctx')) \<and>
    overridden (hookParamOverrides (execResult ctx')) (fromVoid (mem_get mem (uint hp) 32)) (mem_get mem (uint kp) (uint kl)) =
      Some (mem_get mem (uint rp) (uint rl))"
proof -
  let ?ov = "hookParamOverrides (execResult ctx)"
  have put: "overrides_ok (omap_put h ps ?ov)" if "omap_ok ps" for h ps
    using assms(3) that omap_set_put [of h ps ?ov] by (auto simp: overrides_ok_def omap_ok_put)
  have old: "omap_ok ps" if "map_of ?ov h = Some ps" for h ps
    using assms(3) map_of_SomeD [OF that] by (auto simp: overrides_ok_def)
  have one: "omap_ok [(a, b)]" for a b :: bytes
    by (simp add: omap_ok_def)
  have len: "\<not> kl < 1 \<Longrightarrow> 0 < uint kl" "\<not> 32 < unat kl \<Longrightarrow> uint kl \<le> 32" "\<not> 256 < unat rl \<Longrightarrow> uint rl \<le> 256"
    by (simp_all add: word_less_def flip: nat_uint_eq)
  show ?thesis
    using assms(1,2) put old one len
    by (auto simp: hook_param_set_def Let_def overridden_def omap_lookup_put omap_ok_put
        maxHookParameterKeySize_def maxHookParameterValueSize_def split: if_splits option.splits)
qed

text \<open>
  C19: a parameter set by a hook reaches the hook it is meant for. When \<^verbatim>\<open>hook_param_set\<close> succeeds,
  its value is handed on by the chain, over whatever the hooks before had set, and the later hook with
  the given hash that asks for the parameter by its name gets exactly that value, or \<^verbatim>\<open>DOESNT_EXIST\<close>
  when the value is empty, whatever parameters its own definition has.
\<close>

theorem param_override_seen:
  assumes "overrides_ok (hookParamOverrides (execResult ctx))"
    and "hook_param_set ctx mem rp rl kp kl hp hl = (r, ctx')" and "0 \<le> r"
    and "callHash (execCall env) = fromVoid (mem_get mem (uint hp) 32)"
    and "callOverrides (execCall env) = gather_overrides (hookParamOverrides (execResult ctx')) before"
    and "\<not> NOT_IN_BOUNDS np nl mem2" and "\<not> NOT_IN_BOUNDS wp wl mem2"
    and "nl = kl" and "mem_get mem2 (uint np) (uint nl) = mem_get mem (uint kp) (uint kl)"
  shows "hook_param env (exec_start (execCall env)) mem2 wp wl np nl =
    (let val = mem_get mem (uint rp) (uint rl) in
     if val = [] then (DOESNT_EXIST, mem2) else WRITE_WASM_MEMORY_AND_RETURN mem2 wp wl val)"
proof -
  note set = hook_param_set_ok [OF assms(2,3,1)]
  then have "overridden (callOverrides (execCall env)) (callHash (execCall env)) (mem_get mem2 (uint np) (uint nl)) =
      Some (mem_get mem (uint rp) (uint rl))"
    unfolding assms(4,5,9) by (intro gather_overrides_wins) simp_all
  moreover have "\<not> nl < 1" "\<not> 32 < nl"
    using set assms(8) by (auto simp: word_less_def)
  ultimately show ?thesis
    using assms(6,7) by (simp add: hook_param_def exec_start_def overridden_def give_param_def Let_def)
qed

definition sample_memory :: memory where
  "sample_memory = replicate 8 0 @ [66, 7, 8] @ replicate 30 0 @ [0, 9] @ replicate 40 0"

theorem param_override_seen_witness:
  "let call = sample_call 1 []; set = hook_param_set (exec_start call) sample_memory 9 2 8 1 11 32;
       later = sample_call 9 (gather_overrides (hookParamOverrides (execResult (snd set))) [(9, [([66], [1])])])
   in hook_param \<lparr>execCall = later, execLedger = hooked_ledger, txHookParameters = None\<rparr> (exec_start later)
        sample_memory 0 8 8 1 = (2, [7, 8] @ drop 2 sample_memory)"
proof -
  let ?set = "hook_param_set (exec_start (sample_call 1 [])) sample_memory 9 2 8 1 11 32"
  let ?later = "sample_call 9 (gather_overrides (hookParamOverrides (execResult (snd ?set))) [(9, [([66], [1])])])"
  have "fst ?set = 2" "fromVoid (mem_get sample_memory 11 32) = (9 :: uint256)"
      "\<not> NOT_IN_BOUNDS 8 1 sample_memory" "\<not> NOT_IN_BOUNDS 0 8 sample_memory"
      "mem_get sample_memory 9 2 = [7, 8]" "WRITE_WASM_MEMORY_AND_RETURN sample_memory 0 8 [7, 8] = (2, [7, 8] @ drop 2 sample_memory)"
    by code_simp+
  then show ?thesis
    using param_override_seen [of "exec_start (sample_call 1 [])" sample_memory 9 2 8 1 11 32 2 "snd ?set"
        "\<lparr>execCall = ?later, execLedger = hooked_ledger, txHookParameters = None\<rparr>" "[(9, [([66], [1])])]" 8 1 sample_memory 0 8]
    by (simp add: prod_eq_iff Let_def sample_call_def exec_start_def overrides_ok_def omap_ok_def)
qed

end
