(* ===== verification/Hook_Emit.thy ===== *)
theory Hook_Emit
  imports Hook_Chain
begin

text \<open>
  Transactions that a hook emits: the functions \<^verbatim>\<open>otxn_id\<close>, \<^verbatim>\<open>otxn_generation\<close>, \<^verbatim>\<open>otxn_burden\<close>,
  \<^verbatim>\<open>etxn_reserve\<close>, \<^verbatim>\<open>etxn_burden\<close>, \<^verbatim>\<open>etxn_generation\<close>, \<^verbatim>\<open>etxn_nonce\<close>, \<^verbatim>\<open>etxn_fee_base\<close>, \<^verbatim>\<open>etxn_details\<close>,
  \<^verbatim>\<open>hook_account\<close> and \<^verbatim>\<open>emit\<close> of \<^verbatim>\<open>src/ripple/app/hook/impl/applyHook.cpp\<close>, and the entries of the ledger
  that hold emitted transactions until they are applied, \<^verbatim>\<open>finalizeHookResult\<close> and
  \<^verbatim>\<open>removeEmissionEntry\<close>.

  The hash of a nonce, the constructor of a transaction from bytes, whether the \<^verbatim>\<open>Transaction\<close> made of it
  has the status \<^verbatim>\<open>NEW\<close> and the preflight of the emitted transaction are parameters of the environment.
\<close>

section \<open>Environment and context\<close>

record emit_env =
  emitHook :: hook_env
  emitTx :: sttx
  emitFailure :: "uint256 option"
  hasCallback :: bool
  isStrong :: bool
  isCallback :: bool
  hookChainPosition :: u8
  validLedgerIndex :: u32
  emitView :: tsh_view
  openLedger :: ledger
  emitUnits :: u32
  nonce_hash :: "uint256 \<Rightarrow> u16 \<Rightarrow> account_id \<Rightarrow> uint256 \<Rightarrow> u32 \<Rightarrow> uint256"
  make_STTx :: "bytes \<Rightarrow> sttx option"
  statusNew :: "sttx \<Rightarrow> bool"
  preflights :: "sttx \<Rightarrow> bool"

text \<open>
  \<open>emitFailure\<close> is the field \<^verbatim>\<open>sfTransactionHash\<close> in a callback for a transaction that failed. A hook
  starts with the context \<open>emit_start\<close>.
\<close>

record emit_ctx =
  emit_nonce_counter :: u16
  expected_etxn_count :: int
  nonce_used :: "uint256 list"
  generation :: u32
  burden :: u64
  emittedTxn :: "sttx list"

definition emit_start :: emit_ctx where
  "emit_start = \<lparr>emit_nonce_counter = 0, expected_etxn_count = - 1, nonce_used = [], generation = 0, burden = 0, emittedTxn = []\<rparr>"

section \<open>The originating transaction\<close>

definition otxn_id :: "emit_env \<Rightarrow> memory \<Rightarrow> u32 \<Rightarrow> u32 \<Rightarrow> u32 \<Rightarrow> int \<times> memory" where
  "otxn_id env mem write_ptr write_len flags =
     (let txID = (case emitFailure env of Some h \<Rightarrow> if flags = 0 then h else txID (emitTx env) | None \<Rightarrow> txID (emitTx env)) in
      if write_len < 32 then (TOO_SMALL, mem)
      else if NOT_IN_BOUNDS write_ptr 32 mem \<or> NOT_IN_BOUNDS write_ptr write_len mem then (OUT_OF_BOUNDS, mem)
      else WRITE_WASM_MEMORY_AND_RETURN mem write_ptr 32 (to_bytes 32 txID))"

text \<open>The first call keeps the number in the context.\<close>

definition otxn_generation :: "emit_env \<Rightarrow> emit_ctx \<Rightarrow> int \<times> emit_ctx" where
  "otxn_generation env ctx =
     (if generation ctx \<noteq> 0 then (uint (generation ctx), ctx)
      else case txEmitDetails (emitTx env) of
        None \<Rightarrow> (0, ctx)
      | Some pd \<Rightarrow>
          case sfEmitGeneration pd of
            None \<Rightarrow> (0, ctx)
          | Some g \<Rightarrow> (uint g, ctx\<lparr>generation := g\<rparr>))"

definition otxn_burden :: "emit_env \<Rightarrow> emit_ctx \<Rightarrow> int \<times> emit_ctx" where
  "otxn_burden env ctx =
     (if burden ctx \<noteq> 0 then (sint (burden ctx), ctx)
      else case txEmitDetails (emitTx env) of
        None \<Rightarrow> (1, ctx)
      | Some pd \<Rightarrow>
          case sfEmitBurden pd of
            None \<Rightarrow> (1, ctx)
          | Some b \<Rightarrow> let b = b AND (push_bit 63 1 - 1) in (sint b, ctx\<lparr>burden := b\<rparr>))"

definition hook_account :: "emit_env \<Rightarrow> memory \<Rightarrow> u32 \<Rightarrow> u32 \<Rightarrow> int \<times> memory" where
  "hook_account env mem write_ptr ptr_len =
     (if NOT_IN_BOUNDS write_ptr ptr_len mem then (OUT_OF_BOUNDS, mem)
      else if ptr_len < 20 then (TOO_SMALL, mem)
      else WRITE_WASM_MEMORY_AND_RETURN mem write_ptr 20 (to_bytes 20 (hook_account_id (emitHook env))))"

section \<open>Preparing an emission\<close>

definition etxn_reserve :: "emit_ctx \<Rightarrow> u32 \<Rightarrow> int \<times> emit_ctx" where
  "etxn_reserve ctx count =
     (if - 1 < expected_etxn_count ctx then (ALREADY_SET, ctx)
      else if count < 1 then (TOO_SMALL, ctx)
      else if max_emit < unat count then (TOO_BIG, ctx)
      else (uint count, ctx\<lparr>expected_etxn_count := uint count\<rparr>))"

definition etxn_generation :: "emit_env \<Rightarrow> emit_ctx \<Rightarrow> int \<times> emit_ctx" where
  "etxn_generation env ctx = (let (g, ctx) = otxn_generation env ctx in (g + 1, ctx))"

definition etxn_burden :: "emit_env \<Rightarrow> emit_ctx \<Rightarrow> int \<times> emit_ctx" where
  "etxn_burden env ctx =
     (if expected_etxn_count ctx \<le> - 1 then (PREREQUISITE_NOT_MET, ctx)
      else
        let (b, ctx) = otxn_burden env ctx;
            last_burden = word_of_int b :: u64;
            new_burden = last_burden * word_of_int (expected_etxn_count ctx)
        in if new_burden < last_burden then (FEE_TOO_LARGE, ctx) else (sint new_burden, ctx))"

definition nonce_flags :: "emit_env \<Rightarrow> u32" where
  "nonce_flags env =
     (let flags = 0 :: u32;
          flags = flags OR (if isStrong env then 2 else 0);
          flags = flags OR (if isCallback env then 1 else 0)
      in flags OR push_bit 2 (ucast (hookChainPosition env)))"

definition etxn_nonce :: "emit_env \<Rightarrow> emit_ctx \<Rightarrow> memory \<Rightarrow> u32 \<Rightarrow> u32 \<Rightarrow> (int \<times> memory) \<times> emit_ctx" where
  "etxn_nonce env ctx mem write_ptr write_len =
     (if NOT_IN_BOUNDS write_ptr write_len mem then ((OUT_OF_BOUNDS, mem), ctx)
      else if max_nonce < unat (emit_nonce_counter ctx) then ((TOO_MANY_NONCES, mem), ctx)
      else if write_len < 32 then ((TOO_SMALL, mem), ctx)
      else
        let hash = nonce_hash env (txID (emitTx env)) (emit_nonce_counter ctx) (hook_account_id (emitHook env))
              (hookHash (emitHook env)) (nonce_flags env);
            ctx = ctx\<lparr>emit_nonce_counter := emit_nonce_counter ctx + 1, nonce_used := List.insert hash (nonce_used ctx)\<rparr>
        in (WRITE_WASM_MEMORY_AND_RETURN mem write_ptr 32 (to_bytes 32 hash), ctx))"

text \<open>An exception, of the constructor or of the computation of the fee, is caught.\<close>

definition etxn_fee_base :: "emit_env \<Rightarrow> emit_ctx \<Rightarrow> memory \<Rightarrow> u32 \<Rightarrow> u32 \<Rightarrow> int outcome" where
  "etxn_fee_base env ctx mem read_ptr read_len =
     (if NOT_IN_BOUNDS read_ptr read_len mem then Ok OUT_OF_BOUNDS
      else if expected_etxn_count ctx \<le> - 1 then Ok PREREQUISITE_NOT_MET
      else case make_STTx env (mem_get mem (uint read_ptr) (uint read_len)) of
        None \<Rightarrow> Ok INVALID_TXN
      | Some stpTrans \<Rightarrow>
          (case calculateBaseFee (emitView env) (openLedger env) (emitUnits env) stpTrans of
             Throw e \<Rightarrow> Ok INVALID_TXN
           | Ok fee \<Rightarrow> Ok (sint fee)
           | Reject e \<Rightarrow> Reject e
           | Undef \<Rightarrow> Undef))"

text \<open>
  The serialized \<^verbatim>\<open>sfEmitDetails\<close>, written piece by piece; a failure half way leaves what was written.
  \<open>finish_details\<close> writes what follows the hash of the hook.
\<close>

definition finish_details :: "emit_env \<Rightarrow> memory \<Rightarrow> int \<Rightarrow> int \<Rightarrow> api_result" where
  "finish_details env mem start out =
     (if hasCallback env then
        obind (poke mem out [0x8A, 0x14]) (\<lambda>mem.
        let (r, mem) = hook_account env mem (word_of_int (out + 2)) 20 in
        if r \<noteq> 20 then Ok (INTERNAL_ERROR, mem)
        else obind (poke mem (out + 22) [0xE1]) (\<lambda>mem. Ok (out + 23 - start, mem)))
      else obind (poke mem out [0xE1]) (\<lambda>mem. Ok (out + 1 - start, mem)))"

definition etxn_details :: "emit_env \<Rightarrow> emit_ctx \<Rightarrow> memory \<Rightarrow> u32 \<Rightarrow> u32 \<Rightarrow> ((int \<times> memory) \<times> emit_ctx) outcome" where
  "etxn_details env ctx mem write_ptr write_len =
     (let expected_size = (if hasCallback env then 138 else 138 - 22) in
      if NOT_IN_BOUNDS write_ptr write_len mem then Ok ((OUT_OF_BOUNDS, mem), ctx)
      else if uint write_len < expected_size then Ok ((TOO_SMALL, mem), ctx)
      else if expected_etxn_count ctx \<le> - 1 then Ok ((PREREQUISITE_NOT_MET, mem), ctx)
      else
        let (g, ctx) = etxn_generation env ctx; gen = word_of_int g :: u32; (b, ctx) = etxn_burden env ctx in
        if b < 1 then Ok ((FEE_TOO_LARGE, mem), ctx)
        else
          obind (poke mem (uint write_ptr)
            ([0xED, 0x20, 0x2E] @ to_bytes 4 gen @ [0x3D] @ to_bytes 8 (word_of_int b :: u64) @ [0x5B])) (\<lambda>mem.
          let out = uint write_ptr + 17; (r, mem) = otxn_id env mem (word_of_int out) 32 1 in
          if r \<noteq> 32 then Ok ((INTERNAL_ERROR, mem), ctx)
          else
            obind (poke mem (out + 32) [0x5C]) (\<lambda>mem.
            let out = out + 33; ((r, mem), ctx) = etxn_nonce env ctx mem (word_of_int out) 32 in
            if r \<noteq> 32 then Ok ((INTERNAL_ERROR, mem), ctx)
            else
              obind (poke mem (out + 32) (0x5D # to_bytes 32 (hookHash (emitHook env)))) (\<lambda>mem.
              obind (finish_details env mem (uint write_ptr) (out + 65)) (\<lambda>r. Ok (r, ctx))))))"

section \<open>Emission\<close>

text \<open>The rules that do not depend on the context: account, sequence, signing key.\<close>

definition emit_form_ok :: "emit_env \<Rightarrow> sttx \<Rightarrow> bool" where
  "emit_form_ok env tx \<longleftrightarrow>
     \<not> isPseudoTx tx \<and> txAccount tx = Some (hook_account_id (emitHook env)) \<and> txSequence tx = Some 0 \<and>
     (case txSigningPubKey tx of
        None \<Rightarrow> False
      | Some pk \<Rightarrow> (length pk = 33 \<or> length pk = 0) \<and> list_all (\<lambda>b. b = 0) pk)"

text \<open>The window of ledgers, in 32 bit arithmetic; an absent \<^verbatim>\<open>sfLastLedgerSequence\<close> is refused.\<close>

definition emit_window_ok :: "emit_env \<Rightarrow> sttx \<Rightarrow> bool" where
  "emit_window_ok env tx \<longleftrightarrow>
     (let ledgerSeq = validLedgerIndex env + 1 in
      case txLastLedgerSequence tx of
        None \<Rightarrow> False
      | Some tx_lls \<Rightarrow>
          \<not> tx_lls < ledgerSeq + 1 \<and> \<not> ledgerSeq + 5 < tx_lls \<and>
          (case txFirstLedgerSequence tx of None \<Rightarrow> False | Some first \<Rightarrow> \<not> tx_lls < first))"

text \<open>
  Whether the details are those of this hook and this transaction. The calls that compute the
  generation and the burden may fill in the context, whatever the answer.
\<close>

definition emit_details_ok :: "emit_env \<Rightarrow> emit_ctx \<Rightarrow> emit_details \<Rightarrow> bool \<times> emit_ctx" where
  "emit_details_ok env ctx d =
     (case (sfEmitGeneration d, sfEmitBurden d, sfEmitParentTxnID d, sfEmitNonce d, sfEmitHookHash d) of
        (Some gen, Some bur, Some pTxnID, Some nonce, Some hash) \<Rightarrow>
          if 10 \<le> gen then (False, ctx)
          else
            let (g, ctx) = etxn_generation env ctx in
            if gen \<noteq> word_of_int g then (False, ctx)
            else
              let (b, ctx) = etxn_burden env ctx in
              (bur = word_of_int b \<and> pTxnID = txID (emitTx env) \<and> nonce \<in> set (nonce_used ctx) \<and>
                (case sfEmitCallback d of None \<Rightarrow> True | Some cb \<Rightarrow> cb = hook_account_id (emitHook env)) \<and>
                hash = hookHash (emitHook env), ctx)
      | _ \<Rightarrow> (False, ctx))"

text \<open>
  The rules in the order of the code. A fee in another currency throws: \<^verbatim>\<open>STAmount::xrp\<close> outside the
  \<^verbatim>\<open>try\<close> block.
\<close>

definition emit :: "emit_env \<Rightarrow> emit_ctx \<Rightarrow> memory \<Rightarrow> u32 \<Rightarrow> u32 \<Rightarrow> u32 \<Rightarrow> u32 \<Rightarrow> ((int \<times> memory) \<times> emit_ctx) outcome" where
  "emit env ctx mem write_ptr write_len read_ptr read_len =
     (let failure = (\<lambda>ctx. Ok ((EMISSION_FAILURE, mem), ctx)) in
      if NOT_IN_BOUNDS read_ptr read_len mem then Ok ((OUT_OF_BOUNDS, mem), ctx)
      else if NOT_IN_BOUNDS write_ptr write_len mem then Ok ((OUT_OF_BOUNDS, mem), ctx)
      else if write_len < 32 then Ok ((TOO_SMALL, mem), ctx)
      else if expected_etxn_count ctx < 0 then Ok ((PREREQUISITE_NOT_MET, mem), ctx)
      else if expected_etxn_count ctx \<le> int (length (emittedTxn ctx)) then Ok ((TOO_MANY_EMITTED_TXN, mem), ctx)
      else case make_STTx env (mem_get mem (uint read_ptr) (uint read_len)) of
        None \<Rightarrow> failure ctx
      | Some stpTrans \<Rightarrow>
          if \<not> emit_form_ok env stpTrans then failure ctx
          else (case txEmitDetails stpTrans of
            None \<Rightarrow> failure ctx
          | Some emitDetails \<Rightarrow>
              let (ok, ctx) = emit_details_ok env ctx emitDetails in
              if \<not> ok then failure ctx
              else if txSignature stpTrans then failure ctx
              else if \<not> emit_window_ok env stpTrans then failure ctx
              else
                obind (etxn_fee_base env ctx mem read_ptr read_len) (\<lambda>minfee.
                if minfee < 0 then failure ctx
                else (case txFee stpTrans of
                  None \<Rightarrow> failure ctx
                | Some Issued \<Rightarrow> Throw logic_error
                | Some (Drops fee) \<Rightarrow>
                    if fee < minfee then failure ctx
                    else if \<not> statusNew env stpTrans then failure ctx
                    else if \<not> preflights env stpTrans then failure ctx
                    else Ok (WRITE_WASM_MEMORY_AND_RETURN mem write_ptr 32 (to_bytes 32 (txID stpTrans)),
                      ctx\<lparr>emittedTxn := emittedTxn ctx @ [stpTrans]\<rparr>)))))"

section \<open>Emitted transactions in the ledger\<close>

record emitted_node =
  sfEmittedTxn :: sttx
  emittedOwnerNode :: int

record emission_ledger =
  emitted :: "uint256 \<rightharpoonup> emitted_node"
  emittedDir :: "uint256 directory"

text \<open>
  The queue of emitted transactions becomes entries of the ledger; a transaction that is there
  already is passed over. \<open>emission_count\<close> is 16 bit.
\<close>

fun emit_loop :: "sttx list \<Rightarrow> u16 \<Rightarrow> emission_ledger \<Rightarrow> (TER \<times> u16 \<times> emission_ledger) outcome" where
  "emit_loop [] emission_count E = Ok (tesSUCCESS, emission_count, E)"
| "emit_loop (tx # txs) emission_count E =
     (let id = txID tx in
      case emitted E id of
        Some _ \<Rightarrow> emit_loop txs emission_count E
      | None \<Rightarrow>
          let emission_count = emission_count + 1 in
          obind (dirInsert (emittedDir E) id) (\<lambda>(page, dir). case page of
            None \<Rightarrow> Ok (tecDIR_FULL, emission_count, E\<lparr>emittedDir := dir\<rparr>)
          | Some p \<Rightarrow>
              emit_loop txs emission_count
                (E\<lparr>emittedDir := dir, emitted := (emitted E)(id \<mapsto> \<lparr>sfEmittedTxn = tx, emittedOwnerNode = p\<rparr>)\<rparr>)))"

text \<open>The metadata of an execution, for those fields that are computed.\<close>

record hook_execution =
  sfHookReturnCode :: u64
  sfHookEmitCount :: u16

definition unsigned_exit_code :: "int \<Rightarrow> u64 outcome" where
  "unsigned_exit_code exitCode =
     (if 0 \<le> exitCode then Ok (word_of_int exitCode)
      else obind (int64_chk (- 1 * exitCode)) (\<lambda>n. Ok (0x8000000000000000 + word_of_int n)))"

text \<open>\<open>open_view\<close> says that the view is open, in which case nothing is written.\<close>

definition finalizeHookResult ::
  "bool \<Rightarrow> sttx list \<Rightarrow> int \<Rightarrow> bool \<Rightarrow> emission_ledger \<Rightarrow> (TER \<times> hook_execution option \<times> emission_ledger) outcome" where
  "finalizeHookResult open_view txs exitCode doEmit E =
     (if open_view then Ok (tesSUCCESS, None, E)
      else
        obind (if doEmit then emit_loop txs 0 E else Ok (tesSUCCESS, 0, E)) (\<lambda>(result, emission_count, E).
        if result \<noteq> tesSUCCESS then Ok (result, None, E)
        else obind (unsigned_exit_code exitCode) (\<lambda>code.
          Ok (tesSUCCESS, Some \<lparr>sfHookReturnCode = code, sfHookEmitCount = emission_count\<rparr>, E))))"

definition removeEmissionEntry :: "sttx \<Rightarrow> emission_ledger \<Rightarrow> (TER \<times> emission_ledger) outcome" where
  "removeEmissionEntry tx E =
     (if txEmitDetails tx = None then Ok (tesSUCCESS, E)
      else case emitted E (txID tx) of
        None \<Rightarrow> Ok (tesSUCCESS, E)
      | Some sle \<Rightarrow>
          obind (dirRemove (emittedDir E) (emittedOwnerNode sle) (txID tx) False) (\<lambda>(removed, dir).
          if \<not> removed then Ok (tefBAD_LEDGER, E)
          else Ok (tesSUCCESS, E\<lparr>emittedDir := dir, emitted := (emitted E)(txID tx := None)\<rparr>)))"

end
