(* ===== verification/Hook_Emit_Props.thy ===== *)
theory Hook_Emit_Props
  imports Hook_Emit Sto_Api_Props
begin

text \<open>
  What a hook can emit. Whatever sequence of calls it makes, the transactions in its queue follow the
  rules of emission and are no more than it reserved; the details that \<^verbatim>\<open>etxn_details\<close> writes are an
  object that the other functions of the API can read and that \<^verbatim>\<open>emit\<close> accepts; and the queue becomes
  entries of the ledger, each of which is removed again when its transaction is applied.
\<close>

section \<open>Generation and burden\<close>

definition origin_generation :: "emit_env \<Rightarrow> int" where
  "origin_generation env =
     (case Option.bind (txEmitDetails (emitTx env)) sfEmitGeneration of None \<Rightarrow> 0 | Some g \<Rightarrow> uint g)"

definition origin_burden :: "emit_env \<Rightarrow> int" where
  "origin_burden env =
     (case Option.bind (txEmitDetails (emitTx env)) sfEmitBurden of None \<Rightarrow> 1 | Some b \<Rightarrow> uint b mod 2 ^ 63)"

definition kept_ok :: "emit_env \<Rightarrow> emit_ctx \<Rightarrow> bool" where
  "kept_ok env ctx \<longleftrightarrow>
     (generation ctx \<noteq> 0 \<longrightarrow> uint (generation ctx) = origin_generation env) \<and>
     (burden ctx \<noteq> 0 \<longrightarrow> uint (burden ctx) = origin_burden env)"

lemma origin_bounds: "0 \<le> origin_generation env" "origin_generation env < 2 ^ 32" "0 \<le> origin_burden env" "origin_burden env < 2 ^ 63"
  using uint_u32 by (auto simp: origin_generation_def origin_burden_def split: option.split)

lemma sint_small: "uint (w :: u64) < 2 ^ 63 \<Longrightarrow> sint w = uint w"
  using signed_take_bit_int_eq_self [of 63 "uint w"] uint_ge_0 [of w] by (simp add: sint_uint)

lemma uint_low63: "uint (b AND (push_bit 63 1 - 1) :: u64) = uint b mod 2 ^ 63"
proof -
  have "(push_bit 63 1 - 1 :: u64) = mask 63"
    by (simp add: mask_eq_exp_minus_1 push_bit_eq_mult)
  then have "b AND (push_bit 63 1 - 1) = take_bit 63 b"
    by (simp only: take_bit_eq_mask)
  moreover have "uint (take_bit 63 b) = uint b mod 2 ^ 63"
    by (simp only: unsigned_take_bit_eq take_bit_eq_mod [of _ "uint b"])
  ultimately show ?thesis
    by simp
qed

text \<open>A call that keeps the queue and the reservation; it may keep numbers and add nonces.\<close>

definition quiet :: "emit_env \<Rightarrow> emit_ctx \<Rightarrow> emit_ctx \<Rightarrow> bool" where
  "quiet env ctx ctx' \<longleftrightarrow>
     expected_etxn_count ctx' = expected_etxn_count ctx \<and> emittedTxn ctx' = emittedTxn ctx \<and>
     set (nonce_used ctx) \<subseteq> set (nonce_used ctx') \<and> (kept_ok env ctx \<longrightarrow> kept_ok env ctx')"

lemma quiet_refl [simp]: "quiet env ctx ctx"
  by (simp add: quiet_def)

lemma quiet_trans: "quiet env a b \<Longrightarrow> quiet env b c \<Longrightarrow> quiet env a c"
  by (auto simp: quiet_def)

lemma otxn_generation_spec:
  assumes "otxn_generation env ctx = (g, ctx')"
  shows "quiet env ctx ctx'" and "kept_ok env ctx \<Longrightarrow> g = origin_generation env"
    and "nonce_used ctx' = nonce_used ctx"
  using assms by (auto simp: otxn_generation_def quiet_def kept_ok_def origin_generation_def split: if_splits option.splits)

lemma otxn_burden_spec:
  assumes "otxn_burden env ctx = (b, ctx')"
  shows "quiet env ctx ctx'" and "kept_ok env ctx \<Longrightarrow> b = origin_burden env"
    and "nonce_used ctx' = nonce_used ctx"
proof -
  have "sint (w AND (push_bit 63 1 - 1) :: u64) = uint w mod 2 ^ 63" for w
    using sint_small [of "w AND (push_bit 63 1 - 1)"] uint_low63 [of w] by simp
  moreover have "sint (burden ctx) = origin_burden env" if "kept_ok env ctx" "burden ctx \<noteq> 0"
    using that sint_small [of "burden ctx"] origin_bounds(4) [of env] by (simp add: kept_ok_def)
  ultimately show "quiet env ctx ctx'" and "kept_ok env ctx \<Longrightarrow> b = origin_burden env" and "nonce_used ctx' = nonce_used ctx"
    using assms uint_low63
    by (auto simp: otxn_burden_def quiet_def kept_ok_def origin_burden_def Let_def split: if_splits option.splits)
qed

lemma etxn_generation_spec:
  assumes "etxn_generation env ctx = (g, ctx')"
  shows "quiet env ctx ctx'" and "kept_ok env ctx \<Longrightarrow> g = origin_generation env + 1" and "nonce_used ctx' = nonce_used ctx"
  using assms otxn_generation_spec [of env ctx "g - 1" ctx'] by (auto simp: etxn_generation_def split: prod.splits)

lemma etxn_burden_spec:
  assumes "etxn_burden env ctx = (b, ctx')"
  shows "quiet env ctx ctx'" and "nonce_used ctx' = nonce_used ctx"
    and "kept_ok env ctx \<Longrightarrow> 1 \<le> expected_etxn_count ctx \<Longrightarrow> origin_burden env * expected_etxn_count ctx < 2 ^ 63 \<Longrightarrow>
      b = origin_burden env * expected_etxn_count ctx"
proof -
  obtain b0 ctx0 where b0: "otxn_burden env ctx = (b0, ctx0)"
    by fastforce
  note spec = otxn_burden_spec [OF b0]
  show "quiet env ctx ctx'" "nonce_used ctx' = nonce_used ctx"
    using assms spec by (auto simp: etxn_burden_def b0 Let_def split: if_splits)
  let ?n = "expected_etxn_count ctx"
  assume kept: "kept_ok env ctx" and n: "1 \<le> ?n" and small: "origin_burden env * ?n < 2 ^ 63"
  let ?w = "word_of_int (origin_burden env) * word_of_int ?n :: u64"
  have "uint ?w = origin_burden env * ?n"
    using small n origin_bounds(3) [of env] by (simp add: uint_word_ariths uint_word_of_int mod_mult_eq)
  moreover have "uint (word_of_int (origin_burden env) :: u64) = origin_burden env"
    using origin_bounds(3,4) [of env] by (simp add: uint_word_of_int)
  moreover have "origin_burden env * 1 \<le> origin_burden env * ?n"
    using n origin_bounds(3) [of env] by (rule mult_left_mono)
  ultimately have "\<not> ?w < word_of_int (origin_burden env)" "sint ?w = origin_burden env * ?n"
    using small by (simp_all add: word_less_def sint_small)
  then show "b = origin_burden env * ?n"
    using assms spec(1,2) kept n by (simp add: etxn_burden_def b0 Let_def quiet_def)
qed

section \<open>The rules of emission\<close>

text \<open>
  A transaction that may wait in the queue of a hook that reserved \<open>n\<close> emissions and was given the
  nonces \<open>nonces\<close>.
\<close>

definition emission_ok :: "emit_env \<Rightarrow> int \<Rightarrow> uint256 set \<Rightarrow> sttx \<Rightarrow> bool" where
  "emission_ok env n nonces tx \<longleftrightarrow>
     \<not> isPseudoTx tx \<and> txAccount tx = Some (hook_account_id (emitHook env)) \<and> txSequence tx = Some 0 \<and>
     txSigningPubKey tx \<in> {Some [], Some (replicate 33 0)} \<and> \<not> txSignature tx \<and>
     (\<exists>d first last fee minfee.
        txEmitDetails tx = Some d \<and>
        map_option uint (sfEmitGeneration d) = Some (origin_generation env + 1) \<and> origin_generation env < 9 \<and>
        map_option uint (sfEmitBurden d) = Some (origin_burden env * n) \<and>
        sfEmitParentTxnID d = Some (txID (emitTx env)) \<and> sfEmitNonce d \<in> Some ` nonces \<and>
        sfEmitHookHash d = Some (hookHash (emitHook env)) \<and>
        sfEmitCallback d \<in> {None, Some (hook_account_id (emitHook env))} \<and>
        txFirstLedgerSequence tx = Some first \<and> txLastLedgerSequence tx = Some last \<and> first \<le> last \<and>
        unat (validLedgerIndex env) + 1 < unat last \<and> unat last \<le> unat (validLedgerIndex env) + 6 \<and>
        calculateBaseFee (emitView env) (openLedger env) (emitUnits env) tx = Ok minfee \<and>
        txFee tx = Some (Drops fee) \<and> sint minfee \<le> fee \<and> statusNew env tx \<and> preflights env tx)"

lemma emission_ok_mono: "emission_ok env n A tx \<Longrightarrow> A \<subseteq> B \<Longrightarrow> emission_ok env n B tx"
  unfolding emission_ok_def by blast

lemma etxn_nonce_quiet: "etxn_nonce env ctx mem p len = (r, ctx') \<Longrightarrow> quiet env ctx ctx'"
  by (auto simp: etxn_nonce_def quiet_def kept_ok_def Let_def split: if_splits)

lemma etxn_details_quiet:
  assumes "etxn_details env ctx mem p len = Ok (r, ctx')"
  shows "quiet env ctx ctx'"
proof -
  obtain g c1 where g: "etxn_generation env ctx = (g, c1)"
    by fastforce
  obtain b c2 where b: "etxn_burden env c1 = (b, c2)"
    by fastforce
  have q: "quiet env ctx c2"
    using etxn_generation_spec(1) [OF g] etxn_burden_spec(1) [OF b] by (rule quiet_trans)
  have "ctx' = ctx \<or> quiet env c2 ctx'"
    using assms by (auto simp: etxn_details_def g b Let_def outcome_simps dest!: etxn_nonce_quiet split: if_splits prod.splits)
  with q show ?thesis
    using quiet_trans by auto
qed

lemma emit_details_ok_spec:
  assumes "emit_details_ok env ctx d = (ok, ctx')" and "kept_ok env ctx" and "1 \<le> expected_etxn_count ctx"
    and "origin_burden env * expected_etxn_count ctx < 2 ^ 63" and "origin_generation env < 10"
  shows "quiet env ctx ctx'" and "nonce_used ctx' = nonce_used ctx" and "ok \<Longrightarrow> map_option uint (sfEmitGeneration d) = Some (origin_generation env + 1) \<and>
      origin_generation env < 9 \<and> map_option uint (sfEmitBurden d) = Some (origin_burden env * expected_etxn_count ctx) \<and>
      sfEmitParentTxnID d = Some (txID (emitTx env)) \<and> sfEmitNonce d \<in> Some ` set (nonce_used ctx) \<and>
      sfEmitHookHash d = Some (hookHash (emitHook env)) \<and> sfEmitCallback d \<in> {None, Some (hook_account_id (emitHook env))}"
proof -
  obtain g c1 where g: "etxn_generation env ctx = (g, c1)"
    by fastforce
  obtain b c2 where b: "etxn_burden env c1 = (b, c2)"
    by fastforce
  note gs = etxn_generation_spec [OF g] and bs = etxn_burden_spec [OF b]
  have q: "quiet env ctx c2" "nonce_used c2 = nonce_used ctx"
    using quiet_trans [OF gs(1) bs(1)] gs(3) bs(2) by simp_all
  have gv: "g = origin_generation env + 1" and bv: "b = origin_burden env * expected_etxn_count ctx"
    using gs(1,2) bs(3) assms(2-4) by (simp_all add: quiet_def)
  show "quiet env ctx ctx'" "nonce_used ctx' = nonce_used ctx"
    using assms(1) q gs(1,3) by (auto simp: emit_details_ok_def g b Let_def split: option.splits if_splits)
  assume ok
  then obtain gen bur where d: "sfEmitGeneration d = Some gen" "sfEmitBurden d = Some bur" "\<not> 10 \<le> gen"
      "gen = word_of_int g" "bur = word_of_int b" "sfEmitParentTxnID d = Some (txID (emitTx env))"
      "sfEmitNonce d \<in> Some ` set (nonce_used ctx)" "sfEmitHookHash d = Some (hookHash (emitHook env))"
      "sfEmitCallback d \<in> {None, Some (hook_account_id (emitHook env))}"
    using assms(1) q(2) by (auto simp: emit_details_ok_def g b Let_def split: option.splits if_splits)
  have "uint bur = b mod 2 ^ 64"
    using d(5) by (simp add: uint_word_of_int)
  moreover have "0 \<le> b" "b < 2 ^ 63"
    using bv assms(3,4) origin_bounds(3) [of env] by simp_all
  ultimately have "uint bur = origin_burden env * expected_etxn_count ctx"
    using bv by simp
  moreover have gen: "uint gen = origin_generation env + 1"
  proof -
    have "uint gen = g mod 2 ^ 32"
      using d(4) by (simp add: uint_word_of_int)
    then show ?thesis
      using gv assms(5) origin_bounds(1) [of env] by simp
  qed
  moreover have "origin_generation env < 9"
    using d(3) gen by (simp add: word_le_def)
  ultimately show "map_option uint (sfEmitGeneration d) = Some (origin_generation env + 1) \<and>
      origin_generation env < 9 \<and> map_option uint (sfEmitBurden d) = Some (origin_burden env * expected_etxn_count ctx) \<and>
      sfEmitParentTxnID d = Some (txID (emitTx env)) \<and> sfEmitNonce d \<in> Some ` set (nonce_used ctx) \<and>
      sfEmitHookHash d = Some (hookHash (emitHook env)) \<and> sfEmitCallback d \<in> {None, Some (hook_account_id (emitHook env))}"
    using d by simp
qed

lemma emit_form_ok_iff:
  "emit_form_ok env tx \<longleftrightarrow> \<not> isPseudoTx tx \<and> txAccount tx = Some (hook_account_id (emitHook env)) \<and> txSequence tx = Some 0 \<and>
     txSigningPubKey tx \<in> {Some [], Some (replicate 33 0)}"
proof -
  have "(length pk = 33 \<or> length pk = 0) \<and> list_all (\<lambda>b. b = 0) pk \<longleftrightarrow> pk = [] \<or> pk = replicate 33 0" for pk :: bytes
    by (auto simp: list_all_iff intro: replicate_eqI)
  then show ?thesis
    by (auto simp: emit_form_ok_def split: option.splits)
qed

lemma emit_window_ok_iff:
  assumes "unat (validLedgerIndex env) + 6 < 2 ^ 32"
  shows "emit_window_ok env tx \<longleftrightarrow>
    (\<exists>first last. txFirstLedgerSequence tx = Some first \<and> txLastLedgerSequence tx = Some last \<and> first \<le> last \<and>
       unat (validLedgerIndex env) + 1 < unat last \<and> unat last \<le> unat (validLedgerIndex env) + 6)"
proof -
  have sum: "unat (validLedgerIndex env + 1 + 1) = unat (validLedgerIndex env) + 2" "unat (validLedgerIndex env + 1 + 5) = unat (validLedgerIndex env) + 6"
    using assms by (simp_all add: unat_word_ariths)
  have "\<not> l < validLedgerIndex env + 1 + 1 \<longleftrightarrow> unat (validLedgerIndex env) + 1 < unat l"
    "\<not> validLedgerIndex env + 1 + 5 < l \<longleftrightarrow> unat l \<le> unat (validLedgerIndex env) + 6" for l :: u32
    unfolding word_less_nat_alt sum by auto
  then show ?thesis
    by (auto simp: emit_window_ok_def Let_def not_less split: option.splits)
qed

text \<open>\<^verbatim>\<open>emit\<close> either queues nothing or appends one transaction that follows the rules.\<close>

lemma emit_cases [consumes 6, case_names refused queued]:
  assumes "emit env ctx mem wp wl rp rl = Ok (r, ctx')" and "kept_ok env ctx"
    and "1 \<le> expected_etxn_count ctx \<or> expected_etxn_count ctx = - 1"
    and "origin_burden env * expected_etxn_count ctx < 2 ^ 63" and "origin_generation env < 10"
    and "unat (validLedgerIndex env) + 6 < 2 ^ 32"
  obtains (refused) "quiet env ctx ctx'"
  | (queued) tx c where "quiet env ctx c" "ctx' = c\<lparr>emittedTxn := emittedTxn c @ [tx]\<rparr>"
      "int (length (emittedTxn ctx)) < expected_etxn_count ctx"
      "emission_ok env (expected_etxn_count ctx) (set (nonce_used ctx)) tx"
proof (cases "int (length (emittedTxn ctx)) < expected_etxn_count ctx \<and>
    (\<exists>tx d. make_STTx env (mem_get mem (uint rp) (uint rl)) = Some tx \<and> emit_form_ok env tx \<and> txEmitDetails tx = Some d)")
  case False
  then have "ctx' = ctx"
    using assms(1) by (auto simp: emit_def Let_def split: if_splits option.splits)
  then show ?thesis
    using refused by simp
next
  case True
  then obtain tx d where tx: "make_STTx env (mem_get mem (uint rp) (uint rl)) = Some tx" "emit_form_ok env tx" "txEmitDetails tx = Some d"
    and room: "int (length (emittedTxn ctx)) < expected_etxn_count ctx"
    by blast
  obtain ok c where d: "emit_details_ok env ctx d = (ok, c)"
    by fastforce
  have n: "1 \<le> expected_etxn_count ctx"
    using room by simp
  note spec = emit_details_ok_spec [OF d assms(2) n assms(4,5)]
  show ?thesis
  proof (cases "ctx' = ctx \<or> ctx' = c")
    case True
    with spec(1) refused show ?thesis
      by auto
  next
    case False
    with assms(1) tx d obtain minfee fee where
      rules: ok "\<not> txSignature tx" "emit_window_ok env tx" "preflights env tx" "etxn_fee_base env c mem rp rl = Ok minfee"
        "\<not> minfee < 0" "txFee tx = Some (Drops fee)" "\<not> fee < minfee" "statusNew env tx"
      and queue: "ctx' = c\<lparr>emittedTxn := emittedTxn c @ [tx]\<rparr>"
      by (auto simp: emit_def Let_def outcome_simps split: if_splits option.splits fee_amount.splits)
    obtain base where "calculateBaseFee (emitView env) (openLedger env) (emitUnits env) tx = Ok base" "minfee = sint base"
      using rules(5,6) tx(1) by (auto simp: etxn_fee_base_def split: if_splits outcome.splits)
    with rules spec(3) tx(2,3) assms(6) have "emission_ok env (expected_etxn_count ctx) (set (nonce_used ctx)) tx"
      unfolding emission_ok_def emit_form_ok_iff emit_window_ok_iff [OF assms(6)] by (auto simp: not_less)
    with queued spec(1) queue room show ?thesis
      by blast
  qed
qed

section \<open>Sequences of calls\<close>

inductive emit_call :: "emit_env \<Rightarrow> emit_ctx \<Rightarrow> emit_ctx \<Rightarrow> bool" for env where
  reserve: "etxn_reserve ctx n = (r, ctx') \<Longrightarrow> emit_call env ctx ctx'"
| otxn_generation: "otxn_generation env ctx = (r, ctx') \<Longrightarrow> emit_call env ctx ctx'"
| otxn_burden: "otxn_burden env ctx = (r, ctx') \<Longrightarrow> emit_call env ctx ctx'"
| etxn_generation: "etxn_generation env ctx = (r, ctx') \<Longrightarrow> emit_call env ctx ctx'"
| etxn_burden: "etxn_burden env ctx = (r, ctx') \<Longrightarrow> emit_call env ctx ctx'"
| nonce: "etxn_nonce env ctx mem p n = (res, ctx') \<Longrightarrow> emit_call env ctx ctx'"
| details: "etxn_details env ctx mem p n = Ok (res, ctx') \<Longrightarrow> emit_call env ctx ctx'"
| emit: "emit env ctx mem wp wl rp rl = Ok (res, ctx') \<Longrightarrow> emit_call env ctx ctx'"

definition queue_ok :: "emit_env \<Rightarrow> emit_ctx \<Rightarrow> bool" where
  "queue_ok env ctx \<longleftrightarrow>
     kept_ok env ctx \<and>
     (if emittedTxn ctx = [] then expected_etxn_count ctx = - 1 \<or> expected_etxn_count ctx \<in> {1..255}
      else expected_etxn_count ctx \<in> {int (length (emittedTxn ctx))..255}) \<and>
     (\<forall>tx \<in> set (emittedTxn ctx). emission_ok env (expected_etxn_count ctx) (set (nonce_used ctx)) tx)"

lemma queue_ok_start: "queue_ok env emit_start"
  by (simp add: queue_ok_def emit_start_def kept_ok_def)

lemma queue_ok_quiet: "queue_ok env ctx \<Longrightarrow> quiet env ctx ctx' \<Longrightarrow> queue_ok env ctx'"
  using emission_ok_mono by (auto simp: queue_ok_def quiet_def)

lemma queue_ok_count: "queue_ok env ctx \<Longrightarrow> 1 \<le> expected_etxn_count ctx \<or> expected_etxn_count ctx = - 1"
  by (cases "emittedTxn ctx") (auto simp: queue_ok_def)

lemma queue_ok_call:
  assumes "emit_call env ctx ctx'" and "queue_ok env ctx" and "origin_burden env * 255 < 2 ^ 63"
    and "origin_generation env < 10" and "unat (validLedgerIndex env) + 6 < 2 ^ 32"
  shows "queue_ok env ctx'"
  using assms(1)
proof cases
  case (reserve n r)
  have "1 \<le> uint n" if "\<not> n < 1"
    using that by (simp add: word_less_def)
  moreover have "uint n \<le> 255" if "\<not> 255 < unat n"
    using that nat_uint_eq [of n] by linarith
  ultimately show ?thesis
    using reserve assms(2) by (auto simp: etxn_reserve_def queue_ok_def kept_ok_def max_emit_def split: if_splits)
next
  case (emit mem wp wl rp rl res)
  have "expected_etxn_count ctx \<le> 255"
    using assms(2) by (auto simp: queue_ok_def split: if_splits)
  then have "origin_burden env * expected_etxn_count ctx \<le> origin_burden env * 255"
    using origin_bounds(3) by (rule mult_left_mono)
  with assms(3) have small: "origin_burden env * expected_etxn_count ctx < 2 ^ 63"
    by simp
  have "kept_ok env ctx"
    using assms(2) by (simp add: queue_ok_def)
  from emit this queue_ok_count [OF assms(2)] small assms(4,5) show ?thesis
  proof (cases rule: emit_cases)
    case refused
    with assms(2) show ?thesis
      by (rule queue_ok_quiet)
  next
    case (queued tx c)
    from queue_ok_quiet [OF assms(2) queued(1)] have "queue_ok env c" .
    moreover have "emission_ok env (expected_etxn_count c) (set (nonce_used c)) tx"
      using queued(1) emission_ok_mono [OF queued(4)] by (auto simp: quiet_def)
    ultimately show ?thesis
      using queued(1,3) by (auto simp: queued(2) queue_ok_def quiet_def kept_ok_def split: if_splits)
  qed
qed (use assms(2) in \<open>auto intro: queue_ok_quiet dest: otxn_generation_spec(1) otxn_burden_spec(1) etxn_generation_spec(1) etxn_burden_spec(1) etxn_nonce_quiet etxn_details_quiet\<close>)

text \<open>
  C11: the emitted transactions follow the rules. Whatever calls a hook makes, starting without a
  reservation, its queue holds at most the number of transactions it reserved, which is at most 255;
  and each of them is sent by the hook's account with sequence 0 and an empty signing key, names as
  its parent the originating transaction, has the next generation, below ten, and the burden of the
  originating transaction times the number reserved, carries a nonce that \<^verbatim>\<open>etxn_nonce\<close> handed to this
  execution, the hash of this hook and no callback to another account, must be applied within the
  next five ledgers, and pays at least the base fee computed for it.
\<close>

theorem emitted_rules:
  assumes "(emit_call env)\<^sup>*\<^sup>* emit_start ctx" and "origin_generation env < 10"
    and "origin_burden env * 255 < 2 ^ 63" and "unat (validLedgerIndex env) + 6 < 2 ^ 32"
  shows "int (length (emittedTxn ctx)) \<le> max 0 (expected_etxn_count ctx) \<and> expected_etxn_count ctx \<le> 255 \<and>
    (\<forall>tx \<in> set (emittedTxn ctx). emission_ok env (expected_etxn_count ctx) (set (nonce_used ctx)) tx)"
proof -
  have "queue_ok env ctx"
    using assms(1)
  proof (induction rule: rtranclp_induct)
    case base
    show ?case
      by (rule queue_ok_start)
  next
    case (step c c')
    then show ?case
      using queue_ok_call assms(2-4) by blast
  qed
  then show ?thesis
    by (cases "emittedTxn ctx = []") (auto simp: queue_ok_def)
qed

definition small_tx :: sttx where
  "small_tx = \<lparr>txID = 6, txType = ttPAYMENT, txAccount = Some 7, txDestination = Some 8, txIssuer = None, txOwner = None,
     txRegularKey = None, txAuthorize = None, txLimitIssuer = None, txNFTokenID = None, txNFTokenBuyOffer = None,
     txNFTokenSellOffer = None, txNFTokenOffers = None, txOfferSequence = None, txChannel = None, txCheckID = None,
     txSignerEntries = [], txSigners = 0, txSequence = Some 0, txSigningPubKey = Some [], txSignature = False,
     txFirstLedgerSequence = Some 102, txLastLedgerSequence = Some 105, txFee = Some (Drops 40),
     txEmitDetails = Some \<lparr>sfEmitGeneration = Some 1, sfEmitBurden = Some 2, sfEmitParentTxnID = Some 5, sfEmitNonce = Some 77,
       sfEmitCallback = None, sfEmitHookHash = Some 3\<rparr>\<rparr>"

definition no_hooks :: ledger where
  "no_hooks = \<lparr>accounts = Map.empty, hooks = Map.empty, definitions = Map.empty, states = Map.empty,
     state_dirs = (\<lambda>_. Map.empty), owner_dirs = (\<lambda>_. Map.empty)\<rparr>"

definition small_env :: emit_env where
  "small_env = \<lparr>emitHook = \<lparr>hook_account_id = 7, hookHash = 3, hookNamespace = 2\<rparr>,
     emitTx = small_tx\<lparr>txID := 5, txEmitDetails := None\<rparr>, emitFailure = None, hasCallback = False, isStrong = True, isCallback = False,
     hookChainPosition = 0, validLedgerIndex = 100,
     emitView = \<lparr>featureHooks = True, escrows = Map.empty, paychans = Map.empty, checks = Map.empty, nftoffers = Map.empty,
       findToken = (\<lambda>_ _. False)\<rparr>,
     openLedger = no_hooks, emitUnits = 10, nonce_hash = (\<lambda>_ _ _ _ _. 77), make_STTx = (\<lambda>_. Some small_tx),
     statusNew = (\<lambda>_. True), preflights = (\<lambda>_. True)\<rparr>"

definition emission_steps :: "((int \<times> memory) \<times> emit_ctx) outcome" where
  "emission_steps =
     (let ctx = snd (etxn_reserve emit_start 2); ctx = snd (etxn_nonce small_env ctx (replicate 64 0) 0 32)
      in emit small_env ctx (replicate 64 0) 0 32 32 1)"

theorem emitted_rules_witness:
  "\<exists>ctx. (emit_call small_env)\<^sup>*\<^sup>* emit_start ctx \<and> emittedTxn ctx = [small_tx] \<and> emission_ok small_env 2 {77} small_tx"
proof -
  have "case emission_steps of Ok ((r, mem), ctx) \<Rightarrow> 
      expected_etxn_count ctx = 2 \<and> nonce_used ctx = [77] \<and> emittedTxn ctx = [small_tx] | _ \<Rightarrow> False"
    by code_simp
  then obtain r ctx where steps: "emission_steps = Ok (r, ctx)"
    and ctx: "expected_etxn_count ctx = 2" "nonce_used ctx = [77]" "emittedTxn ctx = [small_tx]"
    by (auto split: outcome.splits)
  have "(emit_call small_env)\<^sup>*\<^sup>* emit_start (snd (etxn_reserve emit_start 2))"
    by (rule r_into_rtranclp) (rule emit_call.reserve [OF prod.collapse [symmetric]])
  also have "(emit_call small_env)\<^sup>*\<^sup>* \<dots> (snd (etxn_nonce small_env (snd (etxn_reserve emit_start 2)) (replicate 64 0) 0 32))"
    by (rule r_into_rtranclp) (rule emit_call.nonce [OF prod.collapse [symmetric]])
  also have "(emit_call small_env)\<^sup>*\<^sup>* \<dots> ctx"
    by (rule r_into_rtranclp) (rule emit_call.emit [OF steps [unfolded emission_steps_def Let_def]])
  finally have run: "(emit_call small_env)\<^sup>*\<^sup>* emit_start ctx" .
  have "origin_generation small_env < 10" "origin_burden small_env * 255 < 2 ^ 63" "unat (validLedgerIndex small_env) + 6 < 2 ^ 32"
    by (simp_all add: origin_generation_def origin_burden_def small_env_def)
  from emitted_rules [OF run this] ctx run show ?thesis
    by auto
qed

section \<open>The details of an emission\<close>

definition details_fields :: "u32 \<Rightarrow> u64 \<Rightarrow> uint256 \<Rightarrow> uint256 \<Rightarrow> uint256 \<Rightarrow> account_id option \<Rightarrow> sto_object" where
  "details_fields gen bur otxn nonce hash callback =
     [(0x2002E, [0x20, 0x2E] @ to_bytes 4 gen), (0x3000D, 0x3D # to_bytes 8 bur), (0x5000B, 0x5B # to_bytes 32 otxn),
      (0x5000C, 0x5C # to_bytes 32 nonce), (0x5000D, 0x5D # to_bytes 32 hash)] @
     (case callback of None \<Rightarrow> [] | Some acc \<Rightarrow> [(0x8000A, [0x8A, 0x14] @ to_bytes 20 acc)])"

lemma length_to_bytes [simp]: "length (to_bytes n w) = n"
  by (simp add: to_bytes_def)

lemma header_fields:
  fixes x :: bytes
  shows "length x = 4 \<Longrightarrow> field_report (0x20 # 0x2E # x) = Ok (StoField 6 2 46 2 4)"
    and "length x = 8 \<Longrightarrow> field_report (0x3D # x) = Ok (StoField 9 3 13 1 8)"
    and "length x = 32 \<Longrightarrow> field_report (0x5B # x) = Ok (StoField 33 5 11 1 32)"
    and "length x = 32 \<Longrightarrow> field_report (0x5C # x) = Ok (StoField 33 5 12 1 32)"
    and "length x = 32 \<Longrightarrow> field_report (0x5D # x) = Ok (StoField 33 5 13 1 32)"
    and "length x = 20 \<Longrightarrow> field_report (0x8A # 0x14 # x) = Ok (StoField 22 8 10 2 20)"
  by (simp_all add: field_report_def get_stobject_length.simps sto_header_def sto_payload_def sto_fixed_length_def sto_vl_length_def byte_at_def below_size_def Let_def)

lemma details_valid: "valid_object (details_fields gen bur otxn nonce hash callback)"
  by (cases callback) (simp_all add: details_fields_def valid_object_def is_field_def empty_payload_def header_fields)

text \<open>Consecutive writes make one.\<close>

lemma poke_next:
  assumes "0 \<le> p" and "q = p + int (length a)" and "q + int (length b) \<le> int (length mem)"
  shows "poke (mem_put mem p a) q b = Ok (mem_put mem p (a @ b))"
  using assms mem_put_append [of p a b mem] by (simp add: poke_def)

lemma write_next:
  assumes "0 \<le> p" and "q = p + int (length a)" and "q + int (length b) \<le> int (length mem)" and "length mem \<le> 2 ^ 32"
    and "length b = n" and "0 < n" and "k = of_nat n" and "n < 256"
  shows "\<not> NOT_IN_BOUNDS (word_of_int q) k (mem_put mem p a)"
    and "WRITE_WASM_MEMORY_AND_RETURN (mem_put mem p a) (word_of_int q) k b = (int n, mem_put mem p (a @ b))"
proof -
  have "0 \<le> q" "q < 2 ^ 32"
    using assms by simp_all
  then have q: "uint (word_of_int q :: u32) = q"
    by (simp add: uint_word_of_int)
  have k: "uint k = int n"
    using assms(7,8) by (simp add: unsigned_of_nat take_bit_eq_mod)
  show inb: "\<not> NOT_IN_BOUNDS (word_of_int q) k (mem_put mem p a)"
    unfolding NOT_IN_BOUNDS_def q k using assms(1-5) by simp
  show "WRITE_WASM_MEMORY_AND_RETURN (mem_put mem p a) (word_of_int q) k b = (int n, mem_put mem p (a @ b))"
    unfolding WRITE_WASM_MEMORY_in_bounds [OF inb] q k using mem_put_append [of p a b mem] assms(1-5) by simp
qed

definition next_nonce :: "emit_env \<Rightarrow> emit_ctx \<Rightarrow> uint256" where
  "next_nonce env ctx =
     nonce_hash env (txID (emitTx env)) (emit_nonce_counter ctx) (hook_account_id (emitHook env)) (hookHash (emitHook env)) (nonce_flags env)"

abbreviation own_callback :: "emit_env \<Rightarrow> account_id option" where
  "own_callback env \<equiv> if hasCallback env then Some (hook_account_id (emitHook env)) else None"

lemma etxn_details_writes:
  assumes inb: "\<not> NOT_IN_BOUNDS wp wl mem" and len: "length mem \<le> 2 ^ 32"
    and size: "(if hasCallback env then 138 else 116) \<le> uint wl"
    and kept: "kept_ok env ctx" and n: "1 \<le> expected_etxn_count ctx" and b: "1 \<le> origin_burden env"
    and small: "origin_burden env * expected_etxn_count ctx < 2 ^ 63" and nonces: "unat (emit_nonce_counter ctx) \<le> max_nonce"
  obtains ctx' where "etxn_details env ctx mem wp wl =
      Ok ((if hasCallback env then 138 else 116,
           mem_put mem (uint wp) (0xED # encode (details_fields (word_of_int (origin_generation env + 1))
             (word_of_int (origin_burden env * expected_etxn_count ctx)) (txID (emitTx env)) (next_nonce env ctx)
             (hookHash (emitHook env)) (own_callback env)) @ [0xE1])), ctx')"
    and "next_nonce env ctx \<in> set (nonce_used ctx')" and "quiet env ctx ctx'"
proof -
  obtain g c1 where g: "etxn_generation env ctx = (g, c1)"
    by fastforce
  obtain bu c2 where bu: "etxn_burden env c1 = (bu, c2)"
    by fastforce
  have gv: "g = origin_generation env + 1" and bv: "bu = origin_burden env * expected_etxn_count ctx"
    using etxn_generation_spec [OF g] etxn_burden_spec(3) [OF bu] kept n small by (simp_all add: quiet_def)
  have "1 * 1 \<le> origin_burden env * expected_etxn_count ctx"
    using b n by (intro mult_mono) simp_all
  then have pos: "\<not> bu < 1"
    by (simp add: bv)
  have count: "emit_nonce_counter c2 = emit_nonce_counter ctx"
    using g bu by (auto simp: etxn_generation_def otxn_generation_def etxn_burden_def otxn_burden_def Let_def split: if_splits option.splits prod.splits)
  have room: "uint wp + (if hasCallback env then 138 else 116) \<le> int (length mem)"
    using in_bounds [OF inb] size by simp
  let ?p = "uint wp" and ?hook = "emitHook env"
  let ?a = "[0xED, 0x20, 0x2E] @ to_bytes 4 (word_of_int g :: u32) @ [0x3D] @ to_bytes 8 (word_of_int bu :: u64) @ [0x5B]"
  let ?b = "?a @ to_bytes 32 (txID (emitTx env))"
  let ?c = "?b @ [0x5C]"
  let ?d = "?c @ to_bytes 32 (next_nonce env ctx)"
  let ?e = "?d @ (0x5D # to_bytes 32 (hookHash ?hook))"
  let ?c3 = "c2\<lparr>emit_nonce_counter := emit_nonce_counter c2 + 1, nonce_used := List.insert (next_nonce env ctx) (nonce_used c2)\<rparr>"
  have a: "poke mem ?p ?a = Ok (mem_put mem ?p ?a)"
    using room by (simp add: poke_def split: if_splits)
  have b: "otxn_id env (mem_put mem ?p ?a) (word_of_int (?p + 17)) 32 1 = (32, mem_put mem ?p ?b)"
    using room len write_next [of ?p "?p + 17" ?a "to_bytes 32 (txID (emitTx env))" mem 32 32]
    by (simp add: otxn_id_def split: if_splits option.split)
  have c: "poke (mem_put mem ?p ?b) (?p + 17 + 32) [0x5C] = Ok (mem_put mem ?p ?c)"
    using room by (intro poke_next) (simp_all split: if_splits)
  have d: "etxn_nonce env c2 (mem_put mem ?p ?c) (word_of_int (?p + 17 + 33)) 32 = ((32, mem_put mem ?p ?d), ?c3)"
    using room len nonces write_next [of ?p "?p + 17 + 33" ?c "to_bytes 32 (next_nonce env ctx)" mem 32 32]
    by (simp add: etxn_nonce_def count next_nonce_def Let_def split: if_splits)
  have e: "poke (mem_put mem ?p ?d) (?p + 17 + 33 + 32) (0x5D # to_bytes 32 (hookHash ?hook)) = Ok (mem_put mem ?p ?e)"
    using room by (intro poke_next) (simp_all split: if_splits)
  have fin: "finish_details env (mem_put mem ?p ?e) ?p (?p + 17 + 33 + 65) =
      Ok (if hasCallback env then 138 else 116,
        mem_put mem ?p (?e @ (if hasCallback env then [0x8A, 0x14] @ to_bytes 20 (hook_account_id ?hook) else []) @ [0xE1]))"
  proof (cases "hasCallback env")
    case True
    let ?f = "?e @ [0x8A, 0x14]"
    let ?g = "?f @ to_bytes 20 (hook_account_id ?hook)"
    have "poke (mem_put mem ?p ?e) (?p + 17 + 33 + 65) [0x8A, 0x14] = Ok (mem_put mem ?p ?f)"
      using room True by (intro poke_next) simp_all
    moreover have "hook_account env (mem_put mem ?p ?f) (word_of_int (?p + 17 + 33 + 65 + 2)) 20 = (20, mem_put mem ?p ?g)"
      using room len True write_next [of ?p "?p + 17 + 33 + 65 + 2" ?f "to_bytes 20 (hook_account_id ?hook)" mem 20 20]
      by (simp add: hook_account_def)
    moreover have "poke (mem_put mem ?p ?g) (?p + 17 + 33 + 65 + 22) [0xE1] = Ok (mem_put mem ?p (?g @ [0xE1]))"
      using room True by (intro poke_next) simp_all
    ultimately show ?thesis
      using True unfolding finish_details_def by (simp add: Let_def)
  next
    case False
    have "poke (mem_put mem ?p ?e) (?p + 17 + 33 + 65) [0xE1] = Ok (mem_put mem ?p (?e @ [0xE1]))"
      using room False by (intro poke_next) simp_all
    then show ?thesis
      using False unfolding finish_details_def by simp
  qed
  have checks: "\<not> uint wl < (if hasCallback env then 138 else 138 - 22)" "\<not> expected_etxn_count ctx \<le> - 1"
    using size n by (auto split: if_splits)
  have bytes: "?e @ (if hasCallback env then [0x8A, 0x14] @ to_bytes 20 (hook_account_id ?hook) else []) @ [0xE1] =
      0xED # encode (details_fields (word_of_int g) (word_of_int bu) (txID (emitTx env)) (next_nonce env ctx)
        (hookHash ?hook) (own_callback env)) @ [0xE1]"
    by (simp add: details_fields_def)
  have "etxn_details env ctx mem wp wl = obind (finish_details env (mem_put mem ?p ?e) ?p (?p + 17 + 33 + 65)) (\<lambda>r. Ok (r, ?c3))"
    unfolding etxn_details_def
    by (simp only: Let_def inb checks pos g bu a b c d e prod.case obind.simps if_False simp_thms)
  then have "etxn_details env ctx mem wp wl = Ok ((if hasCallback env then 138 else 116,
      mem_put mem ?p (0xED # encode (details_fields (word_of_int g) (word_of_int bu) (txID (emitTx env)) (next_nonce env ctx)
        (hookHash ?hook) (own_callback env)) @ [0xE1])), ?c3)"
    by (simp only: fin bytes obind.simps)
  moreover have "quiet env ctx ?c3"
    using quiet_trans [OF etxn_generation_spec(1) [OF g] etxn_burden_spec(1) [OF bu]] by (auto simp: quiet_def kept_ok_def)
  moreover have "next_nonce env ctx \<in> set (nonce_used ?c3)"
    by simp
  ultimately show thesis
    unfolding gv bv by (intro that)
qed

lemma mem_get_inner:
  assumes "0 \<le> p" and "p + int (length (a @ b @ c)) \<le> int (length mem)"
  shows "mem_get (mem_put mem p (a @ b @ c)) (p + int (length a)) (int (length b)) = b"
proof -
  obtain k where k: "p = int k"
    using assms(1) by (metis nonneg_int_cases)
  with assms(2) have "k + length a + length b + length c \<le> length mem"
    by simp
  then show ?thesis
    by (simp add: mem_get_def mem_put_def k nat_int_add)
qed

text \<open>
  C18: the details of an emission can be written and read back. In a buffer of the documented size
  \<^verbatim>\<open>etxn_details\<close> succeeds as long as emissions are reserved and nonces are left; \<^verbatim>\<open>sto_subfield\<close> then
  finds in the object written the generation, the burden, the originating transaction, the fresh
  nonce, the hash of the hook and, for a hook with a callback, its account, and nothing else; and a
  transaction with these details passes the check that \<^verbatim>\<open>emit\<close> makes of them.
\<close>

theorem etxn_details_roundtrip:
  assumes "\<not> NOT_IN_BOUNDS wp wl mem" and "length mem \<le> 2 ^ 32" and "(if hasCallback env then 138 else 116) \<le> uint wl"
    and "kept_ok env ctx" and "1 \<le> expected_etxn_count ctx" and "1 \<le> origin_burden env" and "origin_generation env < 9"
    and "origin_burden env * expected_etxn_count ctx < 2 ^ 63" and "unat (emit_nonce_counter ctx) \<le> max_nonce"
  shows "\<exists>mem' ctx' gen bur nonce.
    etxn_details env ctx mem wp wl = Ok ((if hasCallback env then 138 else 116, mem'), ctx') \<and>
    (\<forall>fid. subfield_gives mem' (wp + 1) (if hasCallback env then 136 else 114) fid
       (map_of (details_fields gen bur (txID (emitTx env)) nonce (hookHash (emitHook env)) (own_callback env)) (uint fid))) \<and>
    fst (emit_details_ok env ctx' \<lparr>sfEmitGeneration = Some gen, sfEmitBurden = Some bur, sfEmitParentTxnID = Some (txID (emitTx env)),
      sfEmitNonce = Some nonce, sfEmitCallback = own_callback env, sfEmitHookHash = Some (hookHash (emitHook env))\<rparr>)"
proof -
  let ?gen = "word_of_int (origin_generation env + 1) :: u32"
    and ?bur = "word_of_int (origin_burden env * expected_etxn_count ctx) :: u64" and ?nonce = "next_nonce env ctx"
  let ?fs = "details_fields ?gen ?bur (txID (emitTx env)) ?nonce (hookHash (emitHook env)) (own_callback env)"
  let ?n = "if hasCallback env then 136 else 114 :: u32"
  obtain ctx' where w: "etxn_details env ctx mem wp wl = Ok ((if hasCallback env then 138 else 116,
      mem_put mem (uint wp) (0xED # encode ?fs @ [0xE1])), ctx')" and nonce: "?nonce \<in> set (nonce_used ctx')" and q: "quiet env ctx ctx'"
    using assms(1-6,8,9) by (rule etxn_details_writes)
  let ?mem = "mem_put mem (uint wp) (0xED # encode ?fs @ [0xE1])"
  have lens: "int (length (encode ?fs)) = uint ?n" "2 \<le> uint ?n" "length ?fs \<le> 1024"
    by (simp_all add: details_fields_def)
  have room: "uint wp + int (length ([0xED] @ encode ?fs @ [0xE1])) \<le> int (length mem)"
    using in_bounds [OF assms(1)] assms(3) lens(1) by (auto split: if_splits)
  then have "uint wp + 1 < 2 ^ 32"
    using assms(2) by simp
  then have p: "uint (wp + 1) = uint wp + 1"
    by (simp add: uint_word_ariths)
  have get: "mem_get ?mem (uint (wp + 1)) (uint ?n) = encode ?fs"
    using mem_get_inner [of "uint wp" "[0xED]" "encode ?fs" "[0xE1]" mem] room unfolding p lens(1) [symmetric] by simp
  have inb: "\<not> NOT_IN_BOUNDS (wp + 1) ?n ?mem"
    using room unfolding NOT_IN_BOUNDS_def p lens(1) [symmetric] by simp
  have read: "\<forall>fid. subfield_gives ?mem (wp + 1) ?n fid (map_of ?fs (uint fid))"
    using subfield_lookup [OF inb lens(2) get details_valid lens(3)] by blast
  obtain g c1 where g: "etxn_generation env ctx' = (g, c1)"
    by fastforce
  obtain b c2 where b: "etxn_burden env c1 = (b, c2)"
    by fastforce
  have kept: "kept_ok env ctx'" and n: "expected_etxn_count ctx' = expected_etxn_count ctx"
    using q assms(4) by (simp_all add: quiet_def)
  have gv: "g = origin_generation env + 1" and bv: "b = origin_burden env * expected_etxn_count ctx"
    and used: "nonce_used c2 = nonce_used ctx'"
    using etxn_generation_spec [OF g] etxn_burden_spec [OF b] kept n assms(5,8) by (simp_all add: quiet_def)
  have "uint (word_of_int z :: u32) = z" if "0 \<le> z" "z < 10" for z
    using that by (simp add: uint_word_of_int)
  then have "uint ?gen = origin_generation env + 1"
    using assms(7) origin_bounds(1) [of env] by (simp del: of_int_add)
  then have "\<not> 10 \<le> ?gen"
    using assms(7) by (simp add: word_le_def)
  then have "fst (emit_details_ok env ctx' \<lparr>sfEmitGeneration = Some ?gen, sfEmitBurden = Some ?bur, sfEmitParentTxnID = Some (txID (emitTx env)),
      sfEmitNonce = Some ?nonce, sfEmitCallback = own_callback env, sfEmitHookHash = Some (hookHash (emitHook env))\<rparr>)"
    using nonce used by (simp add: emit_details_ok_def g b gv bv)
  with w read show ?thesis
    by blast
qed

theorem etxn_details_roundtrip_witness:
  "\<exists>mem' ctx' gen bur nonce.
     etxn_details small_env (emit_start\<lparr>expected_etxn_count := 2\<rparr>) (replicate 200 0) 4 116 = Ok ((116, mem'), ctx') \<and>
     (\<forall>fid. subfield_gives mem' 5 114 fid (map_of (details_fields gen bur 5 nonce 3 None) (uint fid)))"
proof -
  let ?ctx = "emit_start\<lparr>expected_etxn_count := 2\<rparr>"
  have "\<not> NOT_IN_BOUNDS 4 116 (replicate 200 0)" "length (replicate 200 0 :: memory) \<le> 2 ^ 32"
    by (simp_all add: NOT_IN_BOUNDS_def)
  moreover have "(if hasCallback small_env then 138 else 116) \<le> uint (116 :: u32)" "kept_ok small_env ?ctx" "1 \<le> expected_etxn_count ?ctx"
      "1 \<le> origin_burden small_env" "origin_generation small_env < 9" "origin_burden small_env * expected_etxn_count ?ctx < 2 ^ 63"
      "unat (emit_nonce_counter ?ctx) \<le> max_nonce" and plain: "\<not> hasCallback small_env" "txID (emitTx small_env) = 5" "hookHash (emitHook small_env) = 3"
    by (simp_all add: small_env_def kept_ok_def emit_start_def origin_burden_def origin_generation_def max_nonce_def)
  ultimately have "\<exists>mem' ctx' gen bur nonce.
    etxn_details small_env ?ctx (replicate 200 0) 4 116 = Ok ((if hasCallback small_env then 138 else 116, mem'), ctx') \<and>
    (\<forall>fid. subfield_gives mem' (4 + 1) (if hasCallback small_env then 136 else 114) fid
       (map_of (details_fields gen bur (txID (emitTx small_env)) nonce (hookHash (emitHook small_env)) (own_callback small_env)) (uint fid)))"
    using etxn_details_roundtrip [of 4 116 "replicate 200 0" small_env ?ctx] by blast
  then show ?thesis
    by (simp add: plain)
qed

text \<open>
  Two shortcomings of the checks. The test for an overflow of the burden compares with the factor, so
  it misses a product that wraps to something larger; and a fee in another currency is not refused
  but throws.
\<close>

lemma burden_overflow_missed:
  "etxn_burden (small_env\<lparr>emitTx := small_tx\<lparr>txEmitDetails := map_option (sfEmitBurden_update (\<lambda>_. Some (2 ^ 62))) (txEmitDetails small_tx)\<rparr>\<rparr>)
     (emit_start\<lparr>expected_etxn_count := 5\<rparr>) = (2 ^ 62, emit_start\<lparr>expected_etxn_count := 5, burden := 2 ^ 62\<rparr>)"
  by code_simp

lemma issued_fee_throws:
  "(let env = small_env\<lparr>make_STTx := \<lambda>_. Some (small_tx\<lparr>txFee := Some Issued\<rparr>)\<rparr>;
        ctx = snd (etxn_nonce env (snd (etxn_reserve emit_start 2)) (replicate 64 0) 0 32)
    in emit env ctx (replicate 64 0) 0 32 32 1) = Throw logic_error"
  by code_simp

text \<open>The rules in the comment ask for a first ledger after the current one; a first ledger of 0 is accepted.\<close>

lemma first_ledger_unchecked: "emit_window_ok small_env (small_tx\<lparr>txFirstLedgerSequence := Some 0\<rparr>)"
  by code_simp

end
