(* ===== verification/Hook_Emit_Ledger.thy ===== *)
theory Hook_Emit_Ledger
  imports Hook_Emit Directory_Props
begin

text \<open>
  The emitted transactions of the ledger: every entry is in the emission directory, on the page the
  entry names, and the directory lists nothing else. \<^verbatim>\<open>finalizeHookResult\<close> and \<^verbatim>\<open>removeEmissionEntry\<close>
  keep that.
\<close>

definition emission_inv :: "emission_ledger \<Rightarrow> bool" where
  "emission_inv E \<longleftrightarrow>
     dir_inv (emittedDir E) \<and>
     (\<forall>p id. in_dir (emittedDir E) p id \<longleftrightarrow> (\<exists>sle. emitted E id = Some sle \<and> emittedOwnerNode sle = p)) \<and>
     (\<forall>id sle. emitted E id = Some sle \<longrightarrow> txID (sfEmittedTxn sle) = id)"

lemma emission_invD:
  assumes "emission_inv E"
  shows "dir_inv (emittedDir E)" and "in_dir (emittedDir E) p i \<longleftrightarrow> (\<exists>sle. emitted E i = Some sle \<and> emittedOwnerNode sle = p)"
    and "emitted E i = Some sle \<Longrightarrow> txID (sfEmittedTxn sle) = i"
  using assms by (simp_all add: emission_inv_def)

lemma emission_inv_empty: "emission_inv \<lparr>emitted = Map.empty, emittedDir = Map.empty\<rparr>"
  by (auto simp: emission_inv_def dir_inv_def in_dir_def)

definition waiting :: "emission_ledger \<Rightarrow> uint256 \<rightharpoonup> sttx" where
  "waiting E i = map_option sfEmittedTxn (emitted E i)"

text \<open>One transaction that is not in the ledger yet.\<close>

lemma emission_inv_insert:
  assumes "emission_inv E" and "emitted E (txID tx) = None" and "dir_inv dir"
    and "\<And>q j. in_dir dir q j \<longleftrightarrow> in_dir (emittedDir E) q j \<or> q = p \<and> j = txID tx"
  shows "emission_inv (E\<lparr>emittedDir := dir, emitted := (emitted E)(txID tx \<mapsto> \<lparr>sfEmittedTxn = tx, emittedOwnerNode = p\<rparr>)\<rparr>)"
  using assms(2-4) emission_invD [OF assms(1)] by (auto simp: emission_inv_def)

text \<open>The loop over the queue: the first transaction with an identifier is the one that is stored.\<close>

lemma emit_loop_spec:
  assumes "emission_inv E"
  shows "\<exists>ter n E'. emit_loop txs c E = Ok (ter, c + of_nat n, E') \<and> emission_inv E' \<and> n \<le> length txs \<and>
    (ter = tesSUCCESS \<and> n = card (txID ` set txs - dom (emitted E)) \<and>
       waiting E' = (\<lambda>id. case waiting E id of Some tx \<Rightarrow> Some tx | None \<Rightarrow> find (\<lambda>tx. txID tx = id) txs)
     \<or> ter = tecDIR_FULL \<and> dir_full (emittedDir E') \<and> (\<forall>id tx. waiting E id = Some tx \<longrightarrow> waiting E' id = Some tx))"
  using assms
proof (induction txs arbitrary: c E)
  case Nil
  then show ?case
    by (auto simp: fun_eq_iff split: option.split)
next
  case (Cons tx txs)
  show ?case
  proof (cases "emitted E (txID tx)")
    case (Some sle)
    then have same: "emit_loop (tx # txs) c E = emit_loop txs c E" "txID ` set (tx # txs) - dom (emitted E) = txID ` set txs - dom (emitted E)"
      by (auto simp: dom_def)
    have found: "(\<lambda>id. case waiting E id of Some t \<Rightarrow> Some t | None \<Rightarrow> find (\<lambda>tx. txID tx = id) (tx # txs)) =
        (\<lambda>id. case waiting E id of Some t \<Rightarrow> Some t | None \<Rightarrow> find (\<lambda>tx. txID tx = id) txs)"
      using Some by (auto simp: waiting_def fun_eq_iff split: option.split)
    show ?thesis
      unfolding same found using Cons.IH [OF Cons.prems, of c] by (fastforce intro: le_SucI)
  next
    case None
    have "\<not> in_dir (emittedDir E) p (txID tx)" for p
      using None by (simp add: emission_invD(2) [OF Cons.prems])
    with emission_invD(1) [OF Cons.prems] show ?thesis
    proof (cases rule: dirs.add_cases)
      case (added p dir)
      let ?E = "E\<lparr>emittedDir := dir, emitted := (emitted E)(txID tx \<mapsto> \<lparr>sfEmittedTxn = tx, emittedOwnerNode = p\<rparr>)\<rparr>"
      have inv: "emission_inv ?E"
        using emission_inv_insert [OF Cons.prems None added(2,3)] .
      have step: "emit_loop (tx # txs) c E = emit_loop txs (c + 1) ?E"
        using None added(1) by (simp add: Let_def)
      have w: "waiting ?E = (waiting E)(txID tx \<mapsto> tx)"
        by (simp add: waiting_def fun_eq_iff)
      have ids: "txID ` set (tx # txs) - dom (emitted E) = insert (txID tx) (txID ` set txs - dom (emitted ?E))"
        using None by (auto simp: dom_def)
      have fresh: "waiting E (txID tx) = None"
        using None by (simp add: waiting_def)
      obtain ter n E' where run: "emit_loop txs (c + 1) ?E = Ok (ter, c + 1 + of_nat n, E')" and inv': "emission_inv E'" "n \<le> length txs"
        and res: "ter = tesSUCCESS \<and> n = card (txID ` set txs - dom (emitted ?E)) \<and>
            waiting E' = (\<lambda>id. case waiting ?E id of Some tx \<Rightarrow> Some tx | None \<Rightarrow> find (\<lambda>tx. txID tx = id) txs)
          \<or> ter = tecDIR_FULL \<and> dir_full (emittedDir E') \<and> (\<forall>id tx. waiting ?E id = Some tx \<longrightarrow> waiting E' id = Some tx)"
        using Cons.IH [OF inv, of "c + 1"] by blast
      have "card (txID ` set (tx # txs) - dom (emitted E)) = Suc (card (txID ` set txs - dom (emitted ?E)))"
        unfolding ids by (simp add: card_insert_if)
      moreover have "(\<lambda>id. case waiting ?E id of Some tx \<Rightarrow> Some tx | None \<Rightarrow> find (\<lambda>tx. txID tx = id) txs) =
          (\<lambda>id. case waiting E id of Some t \<Rightarrow> Some t | None \<Rightarrow> find (\<lambda>tx. txID tx = id) (tx # txs))"
        unfolding w using fresh by (auto simp: fun_eq_iff split: option.split)
      moreover have "waiting ?E id = Some t" if "waiting E id = Some t" for id t
        using that fresh unfolding w by auto
      ultimately show ?thesis
        unfolding step run using inv' res by (intro exI [of _ ter] exI [of _ "Suc n"] exI [of _ E']) auto
    next
      case refused
      then show ?thesis
        using Cons.prems None by (intro exI [of _ tecDIR_FULL] exI [of _ 1] exI [of _ E]) (auto simp: Let_def)
    qed
  qed
qed

lemma removeEmissionEntry_removes:
  assumes "emission_inv E" and "waiting E (txID tx) \<noteq> None" and "isEmittedTxn tx"
  obtains E' where "removeEmissionEntry tx E = Ok (tesSUCCESS, E')" and "emission_inv E'" and "waiting E' = (waiting E)(txID tx := None)"
proof -
  obtain sle where sle: "emitted E (txID tx) = Some sle"
    using assms(2) by (auto simp: waiting_def)
  then have mem: "in_dir (emittedDir E) (emittedOwnerNode sle) (txID tx)"
    by (simp add: emission_invD(2) [OF assms(1)])
  obtain dir where dir: "dirRemove (emittedDir E) (emittedOwnerNode sle) (txID tx) False = Ok (True, dir)"
    "dir_inv dir" "\<And>q j. in_dir dir q j \<longleftrightarrow> in_dir (emittedDir E) q j \<and> j \<noteq> txID tx"
    using dirs.remove_cases [OF emission_invD(1) [OF assms(1)] mem] by blast
  let ?E = "E\<lparr>emittedDir := dir, emitted := (emitted E)(txID tx := None)\<rparr>"
  have "removeEmissionEntry tx E = Ok (tesSUCCESS, ?E)"
    using sle dir(1) assms(3) by (auto simp: removeEmissionEntry_def isEmittedTxn_def)
  moreover have "emission_inv ?E"
    using dir(2,3) emission_invD [OF assms(1)] by (auto simp: emission_inv_def)
  moreover have "waiting ?E = (waiting E)(txID tx := None)"
    by (simp add: waiting_def fun_eq_iff)
  ultimately show thesis
    by (rule that)
qed

lemma unsigned_exit_code_defined: "- (2 ^ 63) < exitCode \<Longrightarrow> \<exists>code. unsigned_exit_code exitCode = Ok code"
  by (auto simp: unsigned_exit_code_def int64_chk_def int64_range_def)

text \<open>
  C17: emitted transactions wait in the ledger until they are applied. On a consistent ledger the
  commit of a queue of fewer than 65536 transactions returns and keeps the ledger consistent.
  It fails only when the emission directory is full; otherwise every transaction of the queue whose
  identifier was not waiting before is waiting, nothing else has changed, the metadata counts
  exactly the new ones, and each waiting transaction can be removed again, alone.
\<close>

theorem emissions_wait:
  assumes "emission_inv E" and "- (2 ^ 63) < exitCode" and "length txs < 2 ^ 16"
  shows "\<exists>ter meta E'. finalizeHookResult False txs exitCode True E = Ok (ter, meta, E') \<and> emission_inv E' \<and>
    (ter = tesSUCCESS \<and>
       waiting E' = (\<lambda>id. case waiting E id of Some tx \<Rightarrow> Some tx | None \<Rightarrow> find (\<lambda>tx. txID tx = id) txs) \<and>
       map_option (\<lambda>m. unat (sfHookEmitCount m)) meta = Some (card (txID ` set txs - dom (emitted E))) \<and>
       (\<forall>tx. waiting E' (txID tx) \<noteq> None \<longrightarrow> isEmittedTxn tx \<longrightarrow>
          (\<exists>E''. removeEmissionEntry tx E' = Ok (tesSUCCESS, E'') \<and> emission_inv E'' \<and> waiting E'' = (waiting E')(txID tx := None)))
     \<or> ter = tecDIR_FULL \<and> dir_full (emittedDir E'))"
proof -
  obtain ter n E' where run: "emit_loop txs 0 E = Ok (ter, of_nat n, E')" and inv: "emission_inv E'" and n: "n \<le> length txs"
    and res: "ter = tesSUCCESS \<and> n = card (txID ` set txs - dom (emitted E)) \<and>
        waiting E' = (\<lambda>id. case waiting E id of Some tx \<Rightarrow> Some tx | None \<Rightarrow> find (\<lambda>tx. txID tx = id) txs)
      \<or> ter = tecDIR_FULL \<and> dir_full (emittedDir E')"
    using emit_loop_spec [OF assms(1), of txs 0] by auto
  have small: "unat (of_nat n :: u16) = n"
    using n assms(3) by (simp add: unat_of_nat)
  obtain code where code: "unsigned_exit_code exitCode = Ok code"
    using unsigned_exit_code_defined [OF assms(2)] by blast
  show ?thesis
  proof (cases "ter = tesSUCCESS")
    case True
    then have "finalizeHookResult False txs exitCode True E = Ok (tesSUCCESS, Some \<lparr>sfHookReturnCode = code, sfHookEmitCount = of_nat n\<rparr>, E')"
      by (simp add: finalizeHookResult_def run code)
    moreover have "\<exists>E''. removeEmissionEntry tx E' = Ok (tesSUCCESS, E'') \<and> emission_inv E'' \<and> waiting E'' = (waiting E')(txID tx := None)"
      if "waiting E' (txID tx) \<noteq> None" "isEmittedTxn tx" for tx
      using removeEmissionEntry_removes [OF inv that] by blast
    ultimately show ?thesis
      using True res inv small by (intro exI conjI) (auto simp: small)
  next
    case False
    then have "finalizeHookResult False txs exitCode True E = Ok (tecDIR_FULL, None, E')"
      using res by (auto simp: finalizeHookResult_def run)
    with False res inv show ?thesis
      by blast
  qed
qed

definition queued_tx :: sttx where
  "queued_tx = \<lparr>txID = 6, txType = ttPAYMENT, txAccount = Some 7, txDestination = Some 8, txIssuer = None, txOwner = None,
     txRegularKey = None, txAuthorize = None, txLimitIssuer = None, txNFTokenID = None, txNFTokenBuyOffer = None,
     txNFTokenSellOffer = None, txNFTokenOffers = None, txOfferSequence = None, txChannel = None, txCheckID = None,
     txSignerEntries = [], txSigners = 0, txSequence = Some 0, txSigningPubKey = Some [], txSignature = False,
     txFirstLedgerSequence = Some 102, txLastLedgerSequence = Some 105, txFee = Some (Drops 40), txEmitDetails = None\<rparr>"

theorem emissions_wait_witness:
  "\<exists>meta E'. finalizeHookResult False [queued_tx, queued_tx] (- 7) True \<lparr>emitted = Map.empty, emittedDir = Map.empty\<rparr> = Ok (tesSUCCESS, meta, E') \<and>
     emission_inv E' \<and> waiting E' 6 = Some queued_tx"
proof -
  let ?E = "\<lparr>emitted = Map.empty, emittedDir = Map.empty\<rparr>"
  have run: "case finalizeHookResult False [queued_tx, queued_tx] (- 7) True ?E of Ok (ter, _) \<Rightarrow> ter = tesSUCCESS | _ \<Rightarrow> False"
    by code_simp
  have "- (2 ^ 63) < (- 7 :: int)" "length [queued_tx, queued_tx] < 2 ^ 16"
    by simp_all
  moreover have "waiting ?E = Map.empty" "txID queued_tx = 6"
    by (simp_all add: waiting_def queued_tx_def fun_eq_iff)
  ultimately show ?thesis
    using emissions_wait [OF emission_inv_empty, of "- 7" "[queued_tx, queued_tx]"] run by auto
qed

text \<open>The exit code is negated in 64 bits, which overflows for the smallest one.\<close>

lemma exit_code_overflow: "finalizeHookResult False [] (- (2 ^ 63)) True \<lparr>emitted = Map.empty, emittedDir = Map.empty\<rparr> = Undef"
  by (simp add: finalizeHookResult_def unsigned_exit_code_def int64_chk_def int64_range_def)

end
