(* ===== verification/Spec2Isabelle.thy ===== *)
theory Spec2Isabelle
  imports Guard_Validate_Props Xfl_Sto Sto_Api_Props Hook_State_Run Set_Hook_Namespace Set_Hook_Wf
    Hook_Tx_Props Hook_Chain_Props Hook_Exec_Props Hook_Emit_Props Hook_Emit_Ledger
begin

text \<open>
  Verification of the Hooks amendment of xrpld: small WebAssembly programs ("hooks") that accounts
  install and that the server runs when a transaction concerns the account. All paths below are
  relative to \<^verbatim>\<open>src/src/ripple/\<close>.

  \<^bold>\<open>The parts and how they interact.\<close> A \<^verbatim>\<open>SetHook\<close> transaction uploads code. The guard checker bounds
  its worst-case execution; the transaction stores the code in a reference counted definition and
  writes the hook array of the account. A later transaction charges for, and runs, the hooks of its
  originator and of its stake holders. A running hook calls the API: it reads and writes hook state
  through a cache that is committed at the end, computes with decimal floats, edits serialized
  objects, passes parameters to the hooks after it and emits transactions, which wait in the ledger.

  \<^bold>\<open>Foundations.\<close> \<open>Hook_Enum\<close> has the tables of \<^verbatim>\<open>app/hook/Enum.h\<close>. \<open>Hook_Prelude\<close> has the machine
  integers and the type \<open>outcome\<close> of a C++ computation: it returns, refuses, throws or is undefined;
  a function that may also not return has an \<open>option\<close> around it. \<open>Hook_Memory\<close> has guest memory and the
  macros of \<^verbatim>\<open>app/hook/Macro.h\<close>, \<open>Kv_Store\<close> the contract of keyed stores (locale \<open>kv_store\<close>, interpreted
  for ordered maps, for objects and for views of state), \<open>Ieee_Double\<close> the rounding of doubles, and
  \<open>Hook_Ledger\<close> the records of the ledger.

  \<^bold>\<open>Guard checker\<close>, \<^verbatim>\<open>app/hook/Guard.h\<close>. \<open>Leb128\<close>, \<open>Wasm_Blocks\<close>, \<open>Guard_Check\<close> and \<open>Guard_Validate\<close> model
  the LEB128 readers, the tree of blocks with its instruction counts, \<^verbatim>\<open>check_guard\<close> and
  \<^verbatim>\<open>validateGuards\<close>. \<open>Guard_Sound\<close> and \<open>Guard_Validate_Props\<close> show what acceptance means: every loop
  starts with a guard, nesting and counts are bounded, the entries of every import section are API
  functions of the right types, with \<^verbatim>\<open>_g\<close> where the checker takes it to be, the scan reads within bounds, and the two passes end when the sections advance. The passes
  are partial functions, because a crafted binary makes them loop.

  \<^bold>\<open>Decimal floats\<close>, namespace \<^verbatim>\<open>hook_float\<close> and the \<^verbatim>\<open>float_\<close> functions of \<^verbatim>\<open>app/hook/impl/applyHook.cpp\<close>,
  with \<^verbatim>\<open>basics/impl/IOUAmount.cpp\<close>. \<open>Xfl\<close>, \<open>Xfl_Normalize\<close>, \<open>Iou_Amount\<close> and \<open>Xfl_Api\<close> are the model;
  \<open>Xfl_Api_Props\<close> and \<open>Xfl_Sto\<close> compare the results with exact arithmetic, the conditions for underflow
  and overflow included, and show the round trip through serialized amounts. The logarithm that
  estimates the order of a mantissa is a parameter; a hypothesis bounds its error, and what is exact
  only when it reports the right order is stated under that condition.

  \<^bold>\<open>Serialized objects\<close>, the \<^verbatim>\<open>sto_\<close> functions. \<open>Sto\<close> is the model, with the recursion depth of the code
  as its bound. \<open>Sto_Props\<close>, \<open>Sto_Objects\<close> and \<open>Sto_Api_Props\<close> show that the parser stays in bounds, that
  validation decides a grammar, and that insertion and removal are those of an ordered list of fields.

  \<^bold>\<open>Directories\<close>, \<^verbatim>\<open>ledger/impl/ApplyView.cpp\<close>. \<open>Directory\<close> models \<^verbatim>\<open>dirAdd\<close> and \<^verbatim>\<open>dirRemove\<close> on pages;
  \<open>Directory_Props\<close> proves the ring invariant and packs it as the locale \<open>entry_directory\<close>, on which
  state, owner and emission directories rest.

  \<^bold>\<open>Hook state\<close>, \<^verbatim>\<open>setHookState\<close>, the cache, the \<^verbatim>\<open>state\<close> functions and \<^verbatim>\<open>finalizeHookState\<close> of
  \<^verbatim>\<open>applyHook.cpp\<close>. \<open>Hook_State\<close> is the model. \<open>Hook_State_Props\<close> shows that entries, directories and
  counts of the ledger stay consistent, \<open>Hook_State_Commit\<close> that the commit has exactly the effect of the
  modified entries, and \<open>Hook_State_Run\<close> that after any sequence of calls it succeeds, and that writes to
  other accounts need a grant.

  \<^bold>\<open>SetHook\<close>, \<^verbatim>\<open>app/tx/impl/SetHook.cpp\<close>. \<open>Set_Hook\<close> has the checks, the fee, the merge of parameters and
  the deletion of namespaces, \<open>Set_Hook_Apply\<close> the loop over the slots and the writing of the result.
  \<open>Set_Hook_Params\<close>, \<open>Set_Hook_Namespace\<close>, \<open>Set_Hook_Refs\<close> and \<open>Set_Hook_Wf\<close> show the values after a merge,
  what a deleted namespace leaves, exact reference counts, and the well-formedness of all hooks, with
  code that the guard checker accepted.

  \<^bold>\<open>Chains\<close>, \<^verbatim>\<open>app/tx/impl/Transactor.cpp\<close> and \<^verbatim>\<open>getTransactionalStakeHolders\<close>. \<open>Hook_Tx\<close> has transactions
  and stake holders, \<open>Hook_Chain\<close> the fees, \<^verbatim>\<open>executeHookChain\<close>, \<^verbatim>\<open>doTSH\<close>, \<^verbatim>\<open>doAgainAsWeak\<close> and the strong
  phase of \<^verbatim>\<open>operator()\<close>. \<open>Hook_Tx_Props\<close> and \<open>Hook_Chain_Props\<close> show who is a stake holder and that the
  hooks that run are paid for, by the transaction or by the weak stake holder. What a hook does is the
  parameter \<open>run_hook\<close>, about which nothing is assumed.

  \<^bold>\<open>Control and emission\<close>, the rest of the API in \<^verbatim>\<open>applyHook.cpp\<close>. \<open>Hook_Exec\<close> has the guard function,
  the exits, parameters and skips; \<open>Hook_Emit\<close> has the \<^verbatim>\<open>etxn_\<close> functions, \<^verbatim>\<open>emit\<close>, \<^verbatim>\<open>finalizeHookResult\<close> and
  \<^verbatim>\<open>removeEmissionEntry\<close>. \<open>Hook_Exec_Props\<close>, \<open>Hook_Emit_Props\<close> and \<open>Hook_Emit_Ledger\<close> show that the guard
  bounds every loop, that overrides reach the later hook, that queued transactions obey the rules and
  their details read back, and that they wait in the ledger until they are removed. The parser of
  transactions, the status of a \<^verbatim>\<open>Transaction\<close>, \<^verbatim>\<open>preflight\<close> of other transactors and the hash behind a nonce are parameters.

  \<^bold>\<open>Findings.\<close> Lemmas next to the properties exhibit inputs on which the code is undefined, does not
  end, or does other than it means to, such as \<open>looping_hook_diverges\<close>, \<open>ungranted_overwrite\<close>,
  \<open>invoke_shift_undefined\<close> and \<open>owner_node_lost\<close>.

  \<^bold>\<open>Bounds.\<close> Guest memory has at most \<open>2 ^ 32\<close> bytes. Loops over lists and slots recurse on the list.
  Counters of 16, 32 and 64 bits are words where they can wrap.

  \<^bold>\<open>Not modelled.\<close> The virtual machine (the third-party WasmEdge library behind \<^verbatim>\<open>HookExecutor\<close>). The
  slot functions, \<^verbatim>\<open>otxn_slot\<close>, \<^verbatim>\<open>otxn_field\<close> and \<^verbatim>\<open>meta_slot\<close>, which hand out pointers into typed objects of the
  serialization library. \<^verbatim>\<open>util_keylet\<close>, \<^verbatim>\<open>ledger_keylet\<close> and the \<^verbatim>\<open>util_\<close> functions, which wrap hashes, base58
  and signatures, and the \<^verbatim>\<open>ledger_\<close> queries, which return one field. The callback of an emitted
  transaction (\<^verbatim>\<open>doHookCallback\<close>) and the remainder of \<^verbatim>\<open>operator()\<close>, which depend on applying other
  transactors. The \<^verbatim>\<open>trace\<close> functions, which only log, the \<^verbatim>\<open>str_\<close> functions, which are commented out, and
  logging everywhere. The rest of the server (consensus, overlay, storage, RPC), which hooks do not
  change.
\<close>

end
